(* ===== verification/Prelude.thy ===== *)
theory Prelude
  imports Main "HOL-Library.AList"
begin

text \<open>
  What every component of the model shares: Python exceptions as values (with the class
  hierarchy that the \<^verbatim>\<open>except\<close> clauses of the code look at), Python and JSON values,
  dictionaries in insertion order, JSON files and JSON-lines files, and time.

  Conventions. An operation that may raise returns \<open>exc + 'a\<close>. An operation on a store
  takes the store's file and returns its result together with the new file, also when it raises.
  Every call of \<^verbatim>\<open>datetime.now(timezone.utc)\<close> is an argument of the operation. A
  \<^verbatim>\<open>with lock:\<close> block is one atomic step, and so is the replacement of a file
  (\<open>File_Locks\<close> and \<open>Durable_Files\<close> say why).
\<close>

named_theorems dict_simps "reading an updated dictionary"
named_theorems exc_simps "the exception class hierarchy"

section \<open>Exceptions\<close>

text \<open>
  The exception classes the runtime raises or catches: the built-in ones and the ones that
  \<^verbatim>\<open>runtime/\<close> declares. A value of \<open>exc\<close> is an instance with its message.
\<close>

datatype exc_class =
    PyException
  | CancelledError
  | ValueError
  | TypeError
  | KeyError
  | AttributeError
  | RuntimeError
  | PermissionError
  | TimeoutError
  | JSONDecodeError
  | ExecutionStoreCorruptionError
  | ExecutionVersionConflictError
  | ExecutionFencingConflictError
  | InvalidExecutionTransition
  | LeaseCorruptionError
  | CorruptJournalError
  | ToolPermissionError
  | ToolBoundaryError

datatype exc = Exc (exc_class: exc_class) (exc_msg: string)

text \<open>
  The classes an instance of the given class also belongs to. \<open>CancelledError\<close> derives from
  \<^verbatim>\<open>BaseException\<close> only, so \<^verbatim>\<open>except Exception\<close> does not catch it.
\<close>

fun bases :: "exc_class \<Rightarrow> exc_class list" where
  "bases PyException = []"
| "bases CancelledError = []"
| "bases JSONDecodeError = [ValueError, PyException]"
| "bases InvalidExecutionTransition = [ValueError, PyException]"
| "bases CorruptJournalError = [ValueError, PyException]"
| "bases ToolPermissionError = [PermissionError, PyException]"
| "bases ToolBoundaryError = [PermissionError, PyException]"
| "bases ExecutionStoreCorruptionError = [RuntimeError, PyException]"
| "bases ExecutionVersionConflictError = [RuntimeError, PyException]"
| "bases ExecutionFencingConflictError = [RuntimeError, PyException]"
| "bases LeaseCorruptionError = [RuntimeError, PyException]"
| "bases c = [PyException]"

definition isinst :: "exc \<Rightarrow> exc_class list \<Rightarrow> bool" where
  "isinst e cs \<longleftrightarrow> list_ex (\<lambda>c. exc_class e = c \<or> List.member (bases (exc_class e)) c) cs"

lemma isinst_Exc [exc_simps]:
  "isinst (Exc c m) cs \<longleftrightarrow> list_ex (\<lambda>d. c = d \<or> List.member (bases c) d) cs"
  by (simp add: isinst_def)

type_synonym 'a result = "exc + 'a"

text \<open>\<open>returns\<close> and \<open>raises\<close> read the outcome of an operation that returns a pair.\<close>

definition returns :: "'a result \<times> 's \<Rightarrow> 'a \<Rightarrow> bool" where
  "returns r x \<longleftrightarrow> fst r = Inr x"

definition raises :: "'a result \<times> 's \<Rightarrow> exc_class \<Rightarrow> bool" where
  "raises r c \<longleftrightarrow> (case fst r of Inl e \<Rightarrow> exc_class e = c | Inr _ \<Rightarrow> False)"

lemma returns_pair [simp]: "returns (Inr x, s) y \<longleftrightarrow> x = y" "\<not> returns (Inl e, s) y"
  by (auto simp: returns_def)

lemma raises_pair [simp]:
  "raises (Inl (Exc c m), s) d \<longleftrightarrow> c = d" "\<not> raises (Inr x, s) d"
  by (auto simp: raises_def)

lemma result_cases_pair:
  obtains (Raised) e s where "r = (Inl e, s)" | (Returned) x s where "r = (Inr x, s)"
  by (cases r; cases "fst r") auto

section \<open>Python values\<close>

text \<open>
  The values the runtime keeps in its records and writes to its files. Everything but
  \<open>VTool\<close> is a JSON value: \<open>VStamp t\<close> is a string produced by
  \<^verbatim>\<open>datetime.isoformat\<close>, represented by the instant it denotes. \<open>VTool\<close> is an
  instance of the dataclass \<^verbatim>\<open>ToolResult\<close>, with its fields \<^verbatim>\<open>call_id\<close>,
  \<^verbatim>\<open>tool\<close>, \<^verbatim>\<open>ok\<close>, \<^verbatim>\<open>value\<close>, \<^verbatim>\<open>error\<close>,
  \<^verbatim>\<open>retryable\<close>, \<^verbatim>\<open>idempotency_key\<close> and \<^verbatim>\<open>ambiguous\<close> in the
  order of its declaration. Floating-point numbers are not modelled.
\<close>

type_synonym time = int

datatype pyval =
    VNone
  | VBool bool
  | VInt int
  | VStr string
  | VStamp time
  | VList "pyval list"
  | VDict "(string \<times> pyval) list"
  | VTool pyval pyval bool pyval pyval bool pyval bool

type_synonym pydict = "(string \<times> pyval) list"

fun truthy :: "pyval \<Rightarrow> bool" where
  "truthy VNone = False"
| "truthy (VBool b) = b"
| "truthy (VInt i) = (i \<noteq> 0)"
| "truthy (VStr s) = (s \<noteq> [])"
| "truthy (VList xs) = (xs \<noteq> [])"
| "truthy (VDict d) = (d \<noteq> [])"
| "truthy _ = True"

fun opt_str :: "string option \<Rightarrow> pyval" where
  "opt_str None = VNone"
| "opt_str (Some s) = VStr s"

definition opt_list :: "string option \<Rightarrow> string" where
  "opt_list x = (case x of None \<Rightarrow> [] | Some s \<Rightarrow> s)"

section \<open>Dictionaries\<close>

text \<open>
  A Python dictionary keeps its insertion order: assigning an existing key keeps its place and a
  new key goes to the end. That is \<open>AList.update\<close>; \<^verbatim>\<open>d.get(k)\<close> is \<open>map_of d k\<close>.
\<close>

definition dget :: "('k \<times> 'v) list \<Rightarrow> 'k \<Rightarrow> 'v \<Rightarrow> 'v" where
  "dget d k x = (case map_of d k of None \<Rightarrow> x | Some v \<Rightarrow> v)"

abbreviation dset :: "'k \<Rightarrow> 'v \<Rightarrow> ('k \<times> 'v) list \<Rightarrow> ('k \<times> 'v) list" where
  "dset \<equiv> AList.update"

lemma map_of_dset [simp, dict_simps]:
  "map_of (dset k v d) k' = (if k' = k then Some v else map_of d k')"
  by (simp add: update_conv')

lemma dget_dset [simp, dict_simps]:
  "dget (dset k v d) k' x = (if k' = k then v else dget d k' x)"
  by (simp add: dget_def)

lemma distinct_dset [intro]: "distinct (map fst d) \<Longrightarrow> distinct (map fst (dset k v d))"
  by (simp add: distinct_update)

lemma dset_new: "map_of d k = None \<Longrightarrow> dset k v d = d @ [(k, v)]"
  by (induction d) auto

lemma dset_dset [simp]: "dset k v (dset k w d) = dset k v d"
  by (induction d) auto

lemma dset_mem_imp: "(k', v') \<in> set (dset k v d) \<Longrightarrow> (k', v') = (k, v) \<or> (k', v') \<in> set d"
  by (induction d) (auto split: if_splits)

lemma dset_all:
  assumes "\<forall>p \<in> set d. P p" and "P (k, v)"
  shows "\<forall>p \<in> set (dset k v d). P p"
  using assms by (auto dest: dset_mem_imp)

section \<open>Files\<close>

text \<open>
  A file that holds one JSON document: absent, not JSON, JSON whose root is no object, or an
  object. Writes go to a temporary file that replaces the target in one step
  (\<^verbatim>\<open>tmp.replace(self.path)\<close>), so no other state of the file is visible.
\<close>

datatype 'a json_file = Missing | Invalid_JSON | Not_Object | Object 'a

text \<open>\<^verbatim>\<open>if not self.path.exists(): self._write({})\<close>, in the constructors of the stores.\<close>

fun init_file :: "('k \<times> 'v) list json_file \<Rightarrow> ('k \<times> 'v) list json_file" where
  "init_file Missing = Object []"
| "init_file f = f"

text \<open>A line of a JSON-lines file: white space, text that is no JSON, or one JSON value.\<close>

datatype 'a line = Blank string | Bad string | Good 'a

text \<open>
  \<^verbatim>\<open>[... json.loads(x) ... for x in text.splitlines() if x.strip()]\<close>: blank lines are
  skipped, the first bad line raises.
\<close>

fun read_lines :: "'a line list \<Rightarrow> 'a list result" where
  "read_lines [] = Inr []"
| "read_lines (Blank _ # ls) = read_lines ls"
| "read_lines (Bad _ # ls) = Inl (Exc JSONDecodeError ''invalid JSON line'')"
| "read_lines (Good x # ls) =
     (case read_lines ls of Inl e \<Rightarrow> Inl e | Inr xs \<Rightarrow> Inr (x # xs))"

lemma read_lines_Good [simp]: "read_lines (map Good xs) = Inr xs"
  by (induction xs) auto

lemma read_lines_snoc:
  "read_lines ls = Inr xs \<Longrightarrow> read_lines (ls @ [Good x]) = Inr (xs @ [x])"
  by (induction ls arbitrary: xs rule: read_lines.induct) (auto split: sum.splits)

section \<open>Time\<close>

text \<open>Instants are microseconds since the epoch, the resolution of \<^verbatim>\<open>datetime\<close>.\<close>

definition seconds :: "int \<Rightarrow> time" where
  "seconds n = n * 1000000"

lemma seconds_pos [simp]: "0 < seconds n \<longleftrightarrow> 0 < n"
  by (simp add: seconds_def)

section \<open>Text\<close>

text \<open>\<^verbatim>\<open>str(n)\<close> of an integer, and \<^verbatim>\<open>str(x)\<close> of an optional string.\<close>

fun str_nat :: "nat \<Rightarrow> string" where
  "str_nat n = (if n < 10 then [char_of (48 + n)] else str_nat (n div 10) @ [char_of (48 + n mod 10)])"

declare str_nat.simps [simp del]

definition str_int :: "int \<Rightarrow> string" where
  "str_int i = (if i < 0 then ''-'' @ str_nat (nat (- i)) else str_nat (nat i))"

definition str_opt :: "string option \<Rightarrow> string" where
  "str_opt x = (case x of None \<Rightarrow> ''None'' | Some s \<Rightarrow> s)"

text \<open>
  The library functions whose values the runtime only passes on: the hexadecimal SHA-256 digest of
  a text, the ISO text of an instant, and \<^verbatim>\<open>json.dumps(x, sort_keys=True, default=str)\<close>. The
  model takes them as a record of functions; nothing is assumed of them but where a theorem says so.
\<close>

record host =
  sha256_hex :: "string \<Rightarrow> string"
  isoformat :: "time \<Rightarrow> string"
  json_dumps :: "pyval \<Rightarrow> string"

section \<open>Runs\<close>

text \<open>Running a step function over a list of labels.\<close>

definition run :: "('s \<Rightarrow> 'l \<Rightarrow> 's) \<Rightarrow> 's \<Rightarrow> 'l list \<Rightarrow> 's" where
  "run step s ls = foldl step s ls"

lemma run_simps [simp]:
  "run step s [] = s" "run step s (l # ls) = run step (step s l) ls"
  by (simp_all add: run_def)

lemma run_append: "run step s (ls @ ls') = run step (run step s ls) ls'"
  by (simp add: run_def)

end
