(* ===== verification/Interfaces.thy ===== *)
theory Interfaces
  imports Prelude
begin

text \<open>
  The contracts by which the components of the runtime rely on each other, as locales: the
  \<open>fixes\<close> are the operations a client calls, the \<open>assumes\<close> what the provider promises.
  Each is interpreted on the model of the component that provides it, in that component's theory.
\<close>

section \<open>Step systems with an invariant\<close>

locale step_system =
  fixes step :: "'s \<Rightarrow> 'l \<Rightarrow> 's" and inv :: "'s \<Rightarrow> bool"
  assumes step_inv: "inv s \<Longrightarrow> inv (step s l)"
begin

lemma run_inv: "inv s \<Longrightarrow> inv (run step s ls)"
  by (induction ls arbitrary: s) (auto intro: step_inv)

end

section \<open>Write-once tables\<close>

text \<open>
  The first outcome recorded for a key wins: the tool result registry, the audit log and the
  intent ledger rely on it for exactly-once effects.
\<close>

locale write_once =
  fixes look :: "'s \<Rightarrow> 'k \<Rightarrow> 'v option"
    and put :: "'s \<Rightarrow> 'k \<times> 'v \<Rightarrow> 's"
    and ok :: "'s \<Rightarrow> bool"
    and fits :: "'k \<Rightarrow> 'v \<Rightarrow> bool"
  assumes put_ok: "ok s \<Longrightarrow> fits k v \<Longrightarrow> ok (put s (k, v))"
    and look_put: "ok s \<Longrightarrow> fits k v \<Longrightarrow> look (put s (k, v)) k' =
      (if k' = k then Some (case look s k of None \<Rightarrow> v | Some w \<Rightarrow> w) else look s k')"
begin

lemma first_put_wins:
  assumes "ok s" and "look s k = Some v" and "\<forall>(k', v') \<in> set ps. fits k' v'"
  shows "look (run put s ps) k = Some v"
  using assms
proof (induction ps arbitrary: s)
  case Nil
  then show ?case by simp
next
  case (Cons p ps)
  obtain k' v' where p: "p = (k', v')" by (cases p)
  with Cons.prems have fit: "fits k' v'" by auto
  with Cons.prems(1) have "ok (put s p)" by (simp add: p put_ok)
  moreover from Cons.prems(1,2) fit have "look (put s p) k = Some v"
    by (auto simp: p look_put)
  ultimately show ?case using Cons.IH Cons.prems(3) by simp
qed

lemma run_ok:
  assumes "ok s" and "\<forall>(k', v') \<in> set ps. fits k' v'"
  shows "ok (run put s ps)"
  using assms by (induction ps arbitrary: s) (auto intro: put_ok)

lemma first_of_run:
  assumes "ok s" and "look s k = None" and "fits k v" and "\<forall>(k', v') \<in> set ps. fits k' v'"
  shows "look (run put s ((k, v) # ps)) k = Some v"
  using assms by (auto intro!: first_put_wins simp: look_put put_ok)

end

section \<open>Versioned stores\<close>

text \<open>
  Optimistic concurrency: a compare-and-set names the version it read, succeeds only on that
  version, and moves the version of that key alone by one; no operation lowers a version.
\<close>

locale versioned_store = step_system step ok
  for step :: "'s \<Rightarrow> 'l \<Rightarrow> 's" and ok :: "'s \<Rightarrow> bool" +
  fixes ver :: "'s \<Rightarrow> 'k \<Rightarrow> int"
    and cas :: "'s \<Rightarrow> 'k \<Rightarrow> int \<Rightarrow> 'v \<Rightarrow> 's option"
  assumes ver_mono: "ok s \<Longrightarrow> ver s k \<le> ver (step s l) k"
    and cas_ok: "ok s \<Longrightarrow> cas s k n v = Some s' \<Longrightarrow> ok s'"
    and cas_expected: "ok s \<Longrightarrow> cas s k n v = Some s' \<Longrightarrow> ver s k = n"
    and cas_version: "ok s \<Longrightarrow> cas s k n v = Some s' \<Longrightarrow>
      ver s' k' = (if k' = k then n + 1 else ver s k')"
begin

lemma run_ver_mono: "ok s \<Longrightarrow> ver s k \<le> ver (run step s ls) k"
  by (induction ls arbitrary: s) (auto intro: order_trans [OF ver_mono] step_inv)

text \<open>A version that was once overwritten can never be written from again: no update is lost.\<close>

lemma no_lost_update:
  assumes "ok s" and "cas s k n v = Some s'"
  shows "cas (run step s' ls) k n w = None"
proof (rule ccontr)
  assume "cas (run step s' ls) k n w \<noteq> None"
  then obtain s'' where s'': "cas (run step s' ls) k n w = Some s''" by blast
  from assms have ok: "ok s'" and ver: "ver s' k = n + 1"
    using cas_ok cas_version [of s k n v s' k] by auto
  from ok have "ver (run step s' ls) k = n" using s'' cas_expected run_inv by blast
  with ver run_ver_mono [OF ok, of k ls] show False by simp
qed

end

section \<open>Fencing authorities\<close>

text \<open>
  A lease provider: \<open>valid s k o t now\<close> says that owner \<open>o\<close> holds the lease of \<open>k\<close>
  with fencing token \<open>t\<close>. Tokens never go down, and a valid claim carries the current token.
\<close>

locale fencing_authority = step_system step inv
  for step :: "'s \<Rightarrow> 'l \<Rightarrow> 's" and inv :: "'s \<Rightarrow> bool" +
  fixes tok :: "'s \<Rightarrow> 'k \<Rightarrow> int"
    and valid :: "'s \<Rightarrow> 'k \<Rightarrow> 'o \<Rightarrow> int \<Rightarrow> time \<Rightarrow> bool"
  assumes tok_mono: "inv s \<Longrightarrow> tok s k \<le> tok (step s l) k"
    and valid_tok: "inv s \<Longrightarrow> valid s k owner t now \<Longrightarrow> tok s k = t"
    and valid_owner: "inv s \<Longrightarrow> valid s k owner t now \<Longrightarrow> valid s k owner' t' now' \<Longrightarrow> owner = owner'"
begin

lemma run_tok_mono: "inv s \<Longrightarrow> tok s k \<le> tok (run step s ls) k"
  by (induction ls arbitrary: s) (auto intro: order_trans [OF tok_mono] step_inv)

text \<open>Once the token has moved past \<open>t\<close>, no holder of \<open>t\<close> is ever valid again.\<close>

lemma stale_forever:
  assumes "inv s" and "t < tok s k"
  shows "\<not> valid (run step s ls) k owner t now"
proof
  assume "valid (run step s ls) k owner t now"
  with run_inv [OF assms(1)] have "tok (run step s ls) k = t" by (rule valid_tok)
  with run_tok_mono [OF assms(1)] assms(2) show False by (metis leD)
qed

end

end
