(* ===== verification/State_Machine.thy ===== *)
theory State_Machine
  imports Interfaces
begin

text \<open>
  \<^verbatim>\<open>runtime/execution_state_machine.py\<close>: the lifecycle graph of an execution. A machine is
  its \<^verbatim>\<open>transitions\<close> mapping; the frozensets of targets are lists of which only
  membership is read.
\<close>

type_synonym state_machine = "(string \<times> string list) list"

definition DEFAULT_TRANSITIONS :: state_machine where
  "DEFAULT_TRANSITIONS =
     [(''pending'', [''running'']),
      (''running'', [''retrying'', ''completed'', ''failed'']),
      (''retrying'', [''running'', ''failed'']),
      (''completed'', []),
      (''failed'', [''retrying''])]"

definition sm_targets :: "state_machine \<Rightarrow> string list" where
  "sm_targets m = concat (map snd m)"

text \<open>\<^verbatim>\<open>normalized.setdefault(target, DEFAULT_TRANSITIONS.get(target, frozenset()))\<close>\<close>

definition sm_setdefault :: "state_machine \<Rightarrow> string \<Rightarrow> state_machine" where
  "sm_setdefault m t =
     (case map_of m t of Some _ \<Rightarrow> m | None \<Rightarrow> dset t (dget DEFAULT_TRANSITIONS t []) m)"

text \<open>\<^verbatim>\<open>__post_init__\<close>: reject targets that are no state at all, then close the graph.\<close>

definition mk_machine :: "state_machine \<Rightarrow> state_machine result" where
  "mk_machine m =
     (let unknown = filter (\<lambda>t. map_of m t = None \<and> map_of DEFAULT_TRANSITIONS t = None)
                      (sm_targets m)
      in if unknown \<noteq> [] then Inl (Exc ValueError ''transitions reference unknown states'')
         else Inr (foldl sm_setdefault m (sm_targets m)))"

definition sm_states :: "state_machine \<Rightarrow> string list" where
  "sm_states m = map fst m"

definition can_transition :: "state_machine \<Rightarrow> string \<Rightarrow> string \<Rightarrow> bool" where
  "can_transition m current target =
     (case map_of m current of
        None \<Rightarrow> False
      | Some targets \<Rightarrow>
          (if map_of m target = None then False
           else current = target \<or> List.member targets target))"

definition validate :: "state_machine \<Rightarrow> string \<Rightarrow> string \<Rightarrow> unit result" where
  "validate m current target =
     (if map_of m current = None then
        Inl (Exc InvalidExecutionTransition (''unknown execution state: '' @ current))
      else if map_of m target = None then
        Inl (Exc InvalidExecutionTransition (''unknown execution state: '' @ target))
      else if \<not> can_transition m current target then
        Inl (Exc InvalidExecutionTransition
               (''invalid execution transition: '' @ current @ '' -> '' @ target))
      else Inr ())"

section \<open>The guard decides exactly the edges of the graph\<close>

lemma can_transition_known:
  "can_transition m c t \<Longrightarrow> map_of m c \<noteq> None \<and> map_of m t \<noteq> None"
  by (auto simp: can_transition_def split: option.splits if_splits)

lemma validate_iff: "validate m c t = Inr () \<longleftrightarrow> can_transition m c t"
  using can_transition_known by (auto simp: validate_def)

lemma validate_raises:
  "validate m c t = Inl e \<Longrightarrow> exc_class e = InvalidExecutionTransition"
  by (auto simp: validate_def split: if_splits)

lemma validate_cases:
  obtains (Valid) "validate m c t = Inr ()" "can_transition m c t"
    | (Refused) msg where "validate m c t = Inl (Exc InvalidExecutionTransition msg)"
        "\<not> can_transition m c t"
  using validate_iff [of m c t] validate_raises [of m c t]
  by (cases "validate m c t") (auto, metis exc.collapse)

section \<open>Closing a custom graph\<close>

lemma map_of_setdefault:
  "map_of (sm_setdefault m t) k =
     (if k = t \<and> map_of m t = None then Some (dget DEFAULT_TRANSITIONS t []) else map_of m k)"
  by (auto simp: sm_setdefault_def split: option.splits)

lemma setdefault_keeps1: "map_of m k = Some ts \<Longrightarrow> map_of (sm_setdefault m t) k = Some ts"
  by (auto simp: map_of_setdefault)

lemma setdefault_keeps: "map_of m k = Some ts \<Longrightarrow> map_of (foldl sm_setdefault m us) k = Some ts"
  by (induction us arbitrary: m) (simp_all add: setdefault_keeps1)

lemma setdefault_adds: "k \<in> set us \<Longrightarrow> map_of (foldl sm_setdefault m us) k \<noteq> None"
proof (induction us arbitrary: m)
  case Nil
  then show ?case by simp
next
  case (Cons u us)
  show ?case
  proof (cases "k \<in> set us")
    case True
    then show ?thesis using Cons.IH by simp
  next
    case False
    with Cons.prems have "k = u" by simp
    then have "map_of (sm_setdefault m u) k \<noteq> None"
      by (simp add: map_of_setdefault)
    then show ?thesis using setdefault_keeps by fastforce
  qed
qed

section \<open>The lifecycle\<close>

text \<open>Statuses reachable from a status by accepted transitions.\<close>

inductive lifecycle :: "state_machine \<Rightarrow> string \<Rightarrow> string \<Rightarrow> bool" for m where
  lc_refl: "lifecycle m s s"
| lc_step: "lifecycle m s t \<Longrightarrow> can_transition m t u \<Longrightarrow> lifecycle m s u"

inductive_cases lifecycleE: "lifecycle m s t"

lemma lifecycle_trans: "lifecycle m t u \<Longrightarrow> lifecycle m s t \<Longrightarrow> lifecycle m s u"
  by (induction rule: lifecycle.induct) (auto intro: lifecycle.intros)

definition default_states :: "string list" where
  "default_states = [''pending'', ''running'', ''retrying'', ''completed'', ''failed'']"

lemma default_states_eq: "sm_states DEFAULT_TRANSITIONS = default_states"
  by (simp add: sm_states_def DEFAULT_TRANSITIONS_def default_states_def)

text \<open>The table of the seven documented edges, for stating what the guard accepts.\<close>

definition default_edge :: "string \<Rightarrow> string \<Rightarrow> bool" where
  "default_edge c t \<longleftrightarrow>
     (if c = ''pending'' then t = ''running''
      else if c = ''running'' then t = ''retrying'' \<or> t = ''completed'' \<or> t = ''failed''
      else if c = ''retrying'' then t = ''running'' \<or> t = ''failed''
      else if c = ''failed'' then t = ''retrying''
      else False)"

lemma default_at:
  "map_of DEFAULT_TRANSITIONS ''pending'' = Some [''running'']"
  "map_of DEFAULT_TRANSITIONS ''running'' = Some [''retrying'', ''completed'', ''failed'']"
  "map_of DEFAULT_TRANSITIONS ''retrying'' = Some [''running'', ''failed'']"
  "map_of DEFAULT_TRANSITIONS ''completed'' = Some []"
  "map_of DEFAULT_TRANSITIONS ''failed'' = Some [''retrying'']"
  by (simp_all add: DEFAULT_TRANSITIONS_def)

lemma default_unknown:
  "map_of DEFAULT_TRANSITIONS c = None \<longleftrightarrow> \<not> List.member default_states c"
  by (simp add: DEFAULT_TRANSITIONS_def default_states_def)

lemma default_state_cases:
  obtains "c = ''pending''" | "c = ''running''" | "c = ''retrying''" | "c = ''completed''"
    | "c = ''failed''" | "\<not> List.member default_states c"
  by (auto simp: default_states_def)

lemma default_edge_states:
  "default_edge c t \<Longrightarrow> List.member default_states c \<and> List.member default_states t"
  unfolding default_edge_def default_states_def
  by (simp split: if_splits) (elim disjE; simp)+

lemma default_guard_table:
  "\<forall>c \<in> set default_states. \<forall>t \<in> set default_states.
     can_transition DEFAULT_TRANSITIONS c t = (default_edge c t \<or> c = t)"
  by code_simp

lemma default_can_transition:
  "can_transition DEFAULT_TRANSITIONS c t \<longleftrightarrow>
     default_edge c t \<or> (c = t \<and> List.member default_states c)"
proof (cases "List.member default_states c \<and> List.member default_states t")
  case True
  then show ?thesis using default_guard_table by (simp add: List.member_iff)
next
  case False
  then have "map_of DEFAULT_TRANSITIONS c = None \<or> map_of DEFAULT_TRANSITIONS t = None"
    by (simp add: default_unknown)
  then have "\<not> can_transition DEFAULT_TRANSITIONS c t"
    using can_transition_known by blast
  with False show ?thesis using default_edge_states by blast
qed

text \<open>
  Under the default graph the guard accepts exactly the seven documented edges and the
  five self-loops, and raises \<^verbatim>\<open>InvalidExecutionTransition\<close> for every other pair.
\<close>

theorem default_guard:
  "(validate DEFAULT_TRANSITIONS c t = Inr () \<longleftrightarrow>
      default_edge c t \<or> (c = t \<and> List.member (sm_states DEFAULT_TRANSITIONS) c))
   \<and> (\<forall>e. validate DEFAULT_TRANSITIONS c t = Inl e \<longrightarrow> exc_class e = InvalidExecutionTransition)"
  using validate_raises unfolding default_states_eq validate_iff default_can_transition by blast

theorem default_guard_witness:
  "exc_class (Exc InvalidExecutionTransition ''invalid execution transition: completed -> running'')
     = InvalidExecutionTransition
   \<and> validate DEFAULT_TRANSITIONS ''running'' ''failed'' = Inr ()"
proof -
  have "validate DEFAULT_TRANSITIONS ''completed'' ''running'' =
      Inl (Exc InvalidExecutionTransition ''invalid execution transition: completed -> running'')"
    by (simp add: validate_def can_transition_def default_at)
  moreover have "default_edge ''running'' ''failed''" by (simp add: default_edge_def)
  ultimately show ?thesis
    using default_guard [of "''completed''" "''running''"] default_guard [of "''running''" "''failed''"]
    by blast
qed

text \<open>
  A completed execution never leaves the status, and nothing returns to the initial
  status: along any sequence of accepted transitions of the default graph,
  \<open>completed\<close> is followed by \<open>completed\<close> only and only \<open>pending\<close> leads to
  \<open>pending\<close>.
\<close>

theorem completed_is_final:
  assumes "lifecycle DEFAULT_TRANSITIONS s t"
  shows "(s = ''completed'' \<longrightarrow> t = ''completed'') \<and> (t = ''pending'' \<longrightarrow> s = ''pending'')"
  using assms
proof (induction rule: lifecycle.induct)
  case (lc_refl s)
  then show ?case by simp
next
  case (lc_step s t u)
  have "t = ''completed'' \<Longrightarrow> u = ''completed''" and "u = ''pending'' \<Longrightarrow> t = ''pending''"
    using lc_step.hyps(2) by (simp_all add: default_can_transition default_edge_def split: if_splits)
  with lc_step.IH show ?case by blast
qed

theorem completed_is_final_witness:
  "lifecycle DEFAULT_TRANSITIONS ''running'' ''completed'' \<and> ''running'' \<noteq> ''pending''"
proof -
  have l: "lifecycle DEFAULT_TRANSITIONS ''running'' ''completed''"
    by (rule lc_step [OF lc_refl]) (simp add: default_can_transition default_edge_def)
  show ?thesis using l completed_is_final [OF l] by simp
qed

text \<open>
  The constructor of a custom machine either raises \<^verbatim>\<open>ValueError\<close>, exactly when some
  target is neither a declared nor a canonical state, or returns a graph that keeps every
  declared state with its declared targets and in which every declared target is a state.
\<close>

theorem machine_closed:
  "(\<exists>e. mk_machine m = Inl e \<and> exc_class e = ValueError \<and>
      (\<exists>t \<in> set (sm_targets m). map_of m t = None \<and> map_of DEFAULT_TRANSITIONS t = None))
   \<or> (\<exists>m'. mk_machine m = Inr m' \<and>
        (\<forall>t \<in> set (sm_targets m). map_of m t = None \<longrightarrow> map_of DEFAULT_TRANSITIONS t \<noteq> None) \<and>
        (\<forall>k ts. map_of m k = Some ts \<longrightarrow> map_of m' k = Some ts) \<and>
        (\<forall>t \<in> set (sm_targets m). map_of m' t \<noteq> None))"
proof (cases "filter (\<lambda>t. map_of m t = None \<and> map_of DEFAULT_TRANSITIONS t = None) (sm_targets m) = []")
  case True
  then have "mk_machine m = Inr (foldl sm_setdefault m (sm_targets m))"
    by (simp add: mk_machine_def)
  moreover from True
  have "\<forall>t \<in> set (sm_targets m). map_of m t = None \<longrightarrow> map_of DEFAULT_TRANSITIONS t \<noteq> None"
    by (auto simp: filter_empty_conv)
  ultimately show ?thesis using setdefault_keeps setdefault_adds by blast
next
  case False
  then show ?thesis by (fastforce simp: mk_machine_def filter_empty_conv)
qed

theorem machine_closed_witness:
  "mk_machine [(''a'', [''zombie''])] = Inl (Exc ValueError ''transitions reference unknown states'')"
  using machine_closed [of "[(''a'', [''zombie''])]"]
  by (simp add: mk_machine_def sm_targets_def DEFAULT_TRANSITIONS_def)

end
