(* ===== verification/Protocol.thy ===== *)
theory Protocol
  imports Prelude
begin

text \<open>
  The typed objects that cross component boundaries: execution contexts
  (\<^verbatim>\<open>runtime/execution_context.py\<close>), events (\<^verbatim>\<open>runtime/execution_events.py\<close>,
  \<^verbatim>\<open>runtime/event_types.py\<close>), and tool calls and results
  (\<^verbatim>\<open>runtime/tool_protocol.py\<close>).
\<close>

section \<open>Execution contexts and events\<close>

record exec_context =
  ctx_execution_id :: string
  ctx_agent_id :: string
  ctx_goal :: string
  ctx_metadata :: pydict
  ctx_parent_id :: "string option"
  ctx_events :: "pyval list"

definition ctx_add_event :: "exec_context \<Rightarrow> pyval \<Rightarrow> exec_context" where
  "ctx_add_event c e = c\<lparr>ctx_events := ctx_events c @ [e]\<rparr>"

text \<open>
  \<^verbatim>\<open>child\<close>: the metadata is copied and updated, the fresh identity \<open>uid\<close> is
  \<^verbatim>\<open>uuid4().hex\<close>, and the event list starts empty.
\<close>

definition merge_metadata :: "pydict \<Rightarrow> pydict \<Rightarrow> pydict" where
  "merge_metadata old new = foldl (\<lambda>d (k, v). dset k v d) old new"

definition ctx_child :: "string \<Rightarrow> exec_context \<Rightarrow> pydict \<Rightarrow> exec_context" where
  "ctx_child uid c metadata =
     \<lparr>ctx_execution_id = uid, ctx_agent_id = ctx_agent_id c, ctx_goal = ctx_goal c,
      ctx_metadata = merge_metadata (ctx_metadata c) metadata,
      ctx_parent_id = Some (ctx_execution_id c), ctx_events = []\<rparr>"

record exec_event =
  ev_type :: string
  ev_context :: exec_context
  ev_data :: pydict

definition EXECUTION_STARTED :: string where "EXECUTION_STARTED = ''execution.started''"
definition EXECUTION_COMPLETED :: string where "EXECUTION_COMPLETED = ''execution.completed''"
definition EXECUTION_FAILED :: string where "EXECUTION_FAILED = ''execution.failed''"
definition PLAN_CREATED :: string where "PLAN_CREATED = ''planner.plan.created''"
definition TOOL_STARTED :: string where "TOOL_STARTED = ''tool.execution.started''"
definition TOOL_COMPLETED :: string where "TOOL_COMPLETED = ''tool.execution.completed''"
definition TOOL_FAILED :: string where "TOOL_FAILED = ''tool.execution.failed''"
definition REFLECTION_STARTED :: string where "REFLECTION_STARTED = ''reflection.started''"
definition REFLECTION_COMPLETED :: string where "REFLECTION_COMPLETED = ''reflection.completed''"
definition REPLAN_REQUESTED :: string where "REPLAN_REQUESTED = ''replan.requested''"
definition REPLAN_COMPLETED :: string where "REPLAN_COMPLETED = ''replan.completed''"
definition MEMORY_UPDATED :: string where "MEMORY_UPDATED = ''memory.updated''"

text \<open>
  The event bus (\<^verbatim>\<open>runtime/event_bus.py\<close>): subscribers by event type, in the order of their
  subscription. \<^verbatim>\<open>publish\<close> runs the subscribers of the type and drops whatever they raise, so
  all that is left of it is what they do to the environment \<open>'s\<close>. (They run concurrently; the
  model runs them in order.)
\<close>

type_synonym 's subscriber = "exec_event \<Rightarrow> 's \<Rightarrow> unit result \<times> 's"
type_synonym 's bus = "(string \<times> 's subscriber) list"

definition subscribe :: "string \<Rightarrow> 's subscriber \<Rightarrow> 's bus \<Rightarrow> 's bus" where
  "subscribe event_type subscriber b = b @ [(event_type, subscriber)]"

definition publish :: "'s bus \<Rightarrow> string \<Rightarrow> exec_event \<Rightarrow> 's \<Rightarrow> 's" where
  "publish b event_type e s =
     foldl (\<lambda>s (ty, subscriber). if ty = event_type then snd (subscriber e s) else s) s b"

text \<open>\<^verbatim>\<open>if self.event_bus: await self.event_bus.publish(event_type, ExecutionEvent(...))\<close>\<close>

definition publish_opt :: "'s bus option \<Rightarrow> string \<Rightarrow> exec_context \<Rightarrow> pydict \<Rightarrow> 's \<Rightarrow> 's" where
  "publish_opt b event_type context data s =
     (case b of None \<Rightarrow> s
      | Some b \<Rightarrow> publish b event_type \<lparr>ev_type = event_type, ev_context = context, ev_data = data\<rparr> s)"

definition new_context :: "string \<Rightarrow> string \<Rightarrow> string \<Rightarrow> pydict \<Rightarrow> exec_context" where
  "new_context uid agent_id goal metadata =
     \<lparr>ctx_execution_id = uid, ctx_agent_id = agent_id, ctx_goal = goal, ctx_metadata = metadata,
      ctx_parent_id = None, ctx_events = []\<rparr>"

section \<open>Tool calls and results\<close>

text \<open>A timeout is a number of microseconds; the code's \<^verbatim>\<open>float\<close> seconds are not modelled.\<close>

record tool_call =
  tc_tool :: string
  tc_arguments :: pydict
  tc_call_id :: string
  tc_timeout :: "time option"
  tc_idempotency_key :: "string option"

record tool_result =
  tr_call_id :: string
  tr_tool :: string
  tr_ok :: bool
  tr_value :: pyval
  tr_error :: "string option"
  tr_retryable :: bool
  tr_idempotency_key :: "string option"
  tr_ambiguous :: bool

definition tool_success :: "tool_call \<Rightarrow> pyval \<Rightarrow> tool_result" where
  "tool_success call v =
     \<lparr>tr_call_id = tc_call_id call, tr_tool = tc_tool call, tr_ok = True, tr_value = v,
      tr_error = None, tr_retryable = False,
      tr_idempotency_key = tc_idempotency_key call, tr_ambiguous = False\<rparr>"

definition tool_failure :: "tool_call \<Rightarrow> exc \<Rightarrow> bool \<Rightarrow> bool \<Rightarrow> tool_result" where
  "tool_failure call err retryable ambiguous =
     \<lparr>tr_call_id = tc_call_id call, tr_tool = tc_tool call, tr_ok = False, tr_value = VNone,
      tr_error = Some (exc_msg err), tr_retryable = retryable,
      tr_idempotency_key = tc_idempotency_key call, tr_ambiguous = ambiguous\<rparr>"

text \<open>A result as the Python object it is, inside other values.\<close>

definition tool_value :: "tool_result \<Rightarrow> pyval" where
  "tool_value r =
     VTool (VStr (tr_call_id r)) (VStr (tr_tool r)) (tr_ok r) (tr_value r) (opt_str (tr_error r))
       (tr_retryable r) (opt_str (tr_idempotency_key r)) (tr_ambiguous r)"

lemma opt_str_eq [simp]: "opt_str a = opt_str b \<longleftrightarrow> a = b"
  by (cases a; cases b) auto

lemma tool_value_inj [simp]: "tool_value r = tool_value r' \<longleftrightarrow> r = r'"
  by (auto simp: tool_value_def intro: tool_result.equality)

lemma map_of_merge_metadata:
  "map_of (merge_metadata old new) = map_of old ++ map_of (rev new)"
  by (induction new arbitrary: old) (auto simp: merge_metadata_def fun_eq_iff map_add_def split: option.splits)

end
