(* ===== verification/Audit_Log.thy ===== *)
theory Audit_Log
  imports Interfaces Protocol
begin

text \<open>
  \<^verbatim>\<open>runtime/execution_audit.py\<close>: the persistent log of execution transitions
  (\<^verbatim>\<open>ExecutionAuditLog\<close>, a JSON-lines file that only grows) and the in-memory trail of agent
  events (\<^verbatim>\<open>ExecutionAudit\<close>). The log file is its list of lines; an absent file reads as no
  lines, exactly as the code treats it.
\<close>

record audit_event =
  ae_execution_id :: string
  ae_from_status :: string
  ae_to_status :: string
  ae_attempt :: int
  ae_reason :: "string option"
  ae_timestamp :: time
  ae_event_id :: string
  ae_correlation_id :: "string option"

type_synonym audit_file = "audit_event line list"

definition ae_payload :: "host \<Rightarrow> audit_event \<Rightarrow> string" where
  "ae_payload h e =
     ae_execution_id e @ ''|'' @ ae_from_status e @ ''|'' @ ae_to_status e @ ''|'' @
     str_int (ae_attempt e) @ ''|'' @ str_opt (ae_reason e) @ ''|'' @
     isoformat h (ae_timestamp e) @ ''|'' @ str_opt (ae_correlation_id e)"

definition with_identity :: "host \<Rightarrow> audit_event \<Rightarrow> audit_event" where
  "with_identity h e =
     (if ae_event_id e \<noteq> [] then e else e\<lparr>ae_event_id := sha256_hex h (ae_payload h e)\<rparr>)"

definition audit_events :: "string option \<Rightarrow> audit_file \<Rightarrow> audit_event list result" where
  "audit_events execution_id f =
     (case read_lines f of
        Inl e \<Rightarrow> Inl e
      | Inr es \<Rightarrow> Inr (filter (\<lambda>e. execution_id = None \<or> Some (ae_execution_id e) = execution_id) es))"

definition audit_append :: "host \<Rightarrow> audit_event \<Rightarrow> audit_file \<Rightarrow> audit_event result \<times> audit_file" where
  "audit_append h e0 f =
     (let e = with_identity h e0 in
      case audit_events None f of
        Inl err \<Rightarrow> (Inl err, f)
      | Inr es \<Rightarrow>
          (case List.find (\<lambda>x. ae_event_id x = ae_event_id e) es of
             Some existing \<Rightarrow> (Inr existing, f)
           | None \<Rightarrow> (Inr e, f @ [Good e])))"

section \<open>The in-memory trail\<close>

record agent_event =
  av_event :: string
  av_agent_id :: string
  av_tool :: "string option"
  av_status :: string
  av_metadata :: pydict
  av_timestamp :: time
  av_execution_id :: "string option"
  av_correlation_id :: "string option"

record exec_audit =
  ea_events :: "agent_event list"
  ea_log :: "audit_file option"

definition ea_record ::
    "string \<Rightarrow> string \<Rightarrow> string option \<Rightarrow> string \<Rightarrow> exec_context option \<Rightarrow> string option \<Rightarrow> pydict \<Rightarrow>
     time \<Rightarrow> exec_audit \<Rightarrow> agent_event \<times> exec_audit" where
  "ea_record event agent_id tool status context correlation_id metadata now a =
     (let item = \<lparr>av_event = event, av_agent_id = agent_id, av_tool = tool, av_status = status,
                  av_metadata = metadata, av_timestamp = now,
                  av_execution_id = map_option ctx_execution_id context,
                  av_correlation_id = correlation_id\<rparr>
      in (item, a\<lparr>ea_events := ea_events a @ [item]\<rparr>))"

text \<open>
  \<^verbatim>\<open>record_event\<close> spreads the event's data over the keyword arguments of
  \<^verbatim>\<open>record\<close>. A key that names one of the arguments already given (\<^verbatim>\<open>event\<close>,
  \<^verbatim>\<open>agent_id\<close>, \<^verbatim>\<open>context\<close>, or \<^verbatim>\<open>self\<close>) makes the call raise
  \<^verbatim>\<open>TypeError\<close>; \<^verbatim>\<open>tool\<close>, \<^verbatim>\<open>status\<close> and
  \<^verbatim>\<open>correlation_id\<close> go to those parameters, the rest is metadata. Values that are no
  strings in the three named parameters are outside the model and read as absent.
\<close>

fun str_arg :: "pyval option \<Rightarrow> string option" where
  "str_arg (Some (VStr s)) = Some s"
| "str_arg _ = None"

definition ea_record_event :: "exec_event \<Rightarrow> time \<Rightarrow> exec_audit \<Rightarrow> agent_event result \<times> exec_audit" where
  "ea_record_event e now a =
     (if list_ex (\<lambda>k. map_of (ev_data e) k \<noteq> None) [''self'', ''event'', ''agent_id'', ''context''] then
        (Inl (Exc TypeError ''record() got multiple values for argument''), a)
      else
        (let (item, a') = ea_record (ev_type e) (ctx_agent_id (ev_context e))
              (str_arg (map_of (ev_data e) ''tool''))
              (case str_arg (map_of (ev_data e) ''status'') of None \<Rightarrow> ''ok'' | Some s \<Rightarrow> s)
              (Some (ev_context e))
              (str_arg (map_of (ev_data e) ''correlation_id''))
              (filter (\<lambda>(k, _). \<not> List.member [''tool'', ''status'', ''correlation_id''] k) (ev_data e))
              now a
         in (Inr item, a')))"

definition ea_snapshot :: "exec_audit \<Rightarrow> agent_event list" where
  "ea_snapshot a = ea_events a"

definition ea_record_transition ::
    "host \<Rightarrow> string \<Rightarrow> string \<Rightarrow> string \<Rightarrow> string \<Rightarrow> int \<Rightarrow> string option \<Rightarrow> string option \<Rightarrow> time \<Rightarrow>
     exec_audit \<Rightarrow> audit_event option result \<times> exec_audit" where
  "ea_record_transition h execution_id agent_id from_status to_status attempt reason correlation_id now a =
     (case ea_log a of
        None \<Rightarrow> (Inr None, a)
      | Some f \<Rightarrow>
          (let (r, f') = audit_append h
                 \<lparr>ae_execution_id = execution_id, ae_from_status = from_status, ae_to_status = to_status,
                  ae_attempt = attempt, ae_reason = reason, ae_timestamp = now, ae_event_id = [],
                  ae_correlation_id = correlation_id\<rparr> f
           in (map_sum id Some r, a\<lparr>ea_log := Some f'\<rparr>)))"

definition ea_load :: "string option \<Rightarrow> exec_audit \<Rightarrow> audit_event list result" where
  "ea_load execution_id a = (case ea_log a of None \<Rightarrow> Inr [] | Some f \<Rightarrow> audit_events execution_id f)"

section \<open>The log is write-once\<close>

text \<open>A sound log: every line is readable and no two events share an identity.\<close>

definition audit_ok :: "audit_file \<Rightarrow> bool" where
  "audit_ok f \<longleftrightarrow> (case read_lines f of Inl _ \<Rightarrow> False | Inr es \<Rightarrow> distinct (map ae_event_id es))"

lemma audit_ok_empty [simp]: "audit_ok []"
  by (simp add: audit_ok_def)

lemma audit_events_all: "audit_events None f = read_lines f"
  by (simp add: audit_events_def split: sum.splits)

definition audit_find :: "audit_file \<Rightarrow> string \<Rightarrow> audit_event option" where
  "audit_find f i =
     (case read_lines f of Inl _ \<Rightarrow> None | Inr es \<Rightarrow> List.find (\<lambda>x. ae_event_id x = i) es)"

definition audit_put :: "host \<Rightarrow> audit_file \<Rightarrow> string \<times> audit_event \<Rightarrow> audit_file" where
  "audit_put h f p = snd (audit_append h (snd p) f)"

lemma with_identity_id [simp]: "ae_event_id e \<noteq> [] \<Longrightarrow> with_identity h e = e"
  by (simp add: with_identity_def)

lemma audit_append_find:
  assumes "audit_ok f" and "ae_event_id (with_identity h e) = i"
  shows "audit_append h e f =
    (case audit_find f i of
       Some x \<Rightarrow> (Inr x, f)
     | None \<Rightarrow> (Inr (with_identity h e), f @ [Good (with_identity h e)]))"
  using assms
  by (auto simp: audit_append_def audit_events_all audit_find_def audit_ok_def Let_def
      split: sum.splits option.splits)

lemma find_snoc: "List.find P (xs @ [x]) = (case List.find P xs of Some y \<Rightarrow> Some y | None \<Rightarrow> if P x then Some x else None)"
  by (induction xs) auto

lemma audit_append_ok:
  assumes "audit_ok f"
  shows "audit_ok (snd (audit_append h e f))"
proof -
  obtain es where es: "read_lines f = Inr es" "distinct (map ae_event_id es)"
    using assms by (auto simp: audit_ok_def split: sum.splits)
  show ?thesis
  proof (cases "audit_find f (ae_event_id (with_identity h e))")
    case None
    with es(1) have "\<forall>x \<in> set es. ae_event_id x \<noteq> ae_event_id (with_identity h e)"
      by (simp add: audit_find_def find_None_iff)
    with es None assms show ?thesis
      by (auto simp: audit_append_find audit_ok_def read_lines_snoc)
  next
    case (Some x)
    with assms show ?thesis by (simp add: audit_append_find)
  qed
qed

lemma audit_find_append:
  assumes "audit_ok f" and "ae_event_id (with_identity h e) = i"
  shows "audit_find (snd (audit_append h e f)) j =
    (if j = i then Some (case audit_find f i of None \<Rightarrow> with_identity h e | Some x \<Rightarrow> x)
     else audit_find f j)"
proof -
  obtain es where es: "read_lines f = Inr es"
    using assms by (auto simp: audit_ok_def split: sum.splits)
  show ?thesis
  proof (cases "audit_find f i")
    case None
    with es assms show ?thesis
      by (auto simp: audit_append_find audit_find_def read_lines_snoc find_snoc split: option.splits)
  next
    case (Some x)
    with assms show ?thesis by (simp add: audit_append_find)
  qed
qed

text \<open>Events that already carry their identity: the table maps an identity to its event.\<close>

definition audit_fits :: "host \<Rightarrow> string \<Rightarrow> audit_event \<Rightarrow> bool" where
  "audit_fits h i e \<longleftrightarrow> ae_event_id (with_identity h e) = i \<and> with_identity h e = e"

interpretation audit_table: write_once audit_find "audit_put h" audit_ok "audit_fits h" for h
  by unfold_locales (auto simp: audit_put_def audit_fits_def audit_append_ok audit_find_append split: option.splits)

text \<open>What an append leaves in the file, whatever the state of the file.\<close>

lemma audit_append_lines:
  "snd (audit_append h e f) = f \<or> snd (audit_append h e f) = f @ [Good (with_identity h e)]"
  by (auto simp: audit_append_def Let_def split: sum.splits option.splits)

lemma audit_append_returns:
  assumes "audit_ok f"
  shows "\<exists>x. fst (audit_append h e f) = Inr x \<and> ae_event_id x = ae_event_id (with_identity h e)"
  using assms by (auto simp: audit_append_find audit_find_def split: option.splits sum.splits
      dest!: find_Some_iff [THEN iffD1])

text \<open>
  The audit log is exactly-once by event identity. On a readable log without duplicates,
  appending returns the event recorded under that identity (the new one, or the one that was
  there first), keeps every line that was there as a prefix, leaves no duplicates, and a second
  append of the same event changes nothing.
\<close>

theorem audit_exactly_once:
  assumes "audit_ok f"
  shows "\<exists>x f'. audit_append h e f = (Inr x, f')
    \<and> ae_event_id x = ae_event_id (with_identity h e)
    \<and> audit_find f' (ae_event_id (with_identity h e)) = Some x
    \<and> (f' = f \<or> f' = f @ [Good x]) \<and> audit_ok f'
    \<and> audit_append h e f' = (Inr x, f')"
proof -
  let ?i = "ae_event_id (with_identity h e)"
  obtain x f' where xf: "audit_append h e f = (Inr x, f')" and id: "ae_event_id x = ?i"
    using audit_append_returns [OF assms] by (metis prod.collapse)
  then have ok: "audit_ok f'" using audit_append_ok [OF assms, of h e] by simp
  have found: "audit_find f' ?i = Some x"
    using xf audit_find_append [OF assms refl, of h e ?i] assms
    by (auto simp: audit_append_find split: option.splits)
  moreover have "f' = f \<or> f' = f @ [Good x]"
    using xf assms by (auto simp: audit_append_find split: option.splits)
  ultimately show ?thesis using xf id ok by (auto simp: audit_append_find)
qed

text \<open>
  Whatever is appended later, the event first recorded under an identity stays the one the
  log holds for it: no sequence of appends overwrites or removes it.
\<close>

theorem audit_never_overwrites:
  assumes "audit_ok f" and "audit_find f i = Some e"
    and "\<forall>(j, x) \<in> set ps. ae_event_id x = j \<and> j \<noteq> []"
  shows "audit_find (run (audit_put h) f ps) i = Some e"
  using assms(3) by (intro audit_table.first_put_wins [OF assms(1,2)]) (auto simp: audit_fits_def)

definition sample_event :: "string \<Rightarrow> string \<Rightarrow> audit_event" where
  "sample_event i t =
     \<lparr>ae_execution_id = ''e1'', ae_from_status = ''pending'', ae_to_status = t, ae_attempt = 1,
      ae_reason = None, ae_timestamp = 0, ae_event_id = i, ae_correlation_id = None\<rparr>"

definition sample_host :: host where
  "sample_host = \<lparr>sha256_hex = (\<lambda>s. ''#'' @ s), isoformat = str_int, json_dumps = (\<lambda>_. ''{}'')\<rparr>"

theorem audit_exactly_once_witness:
  "audit_append sample_host (sample_event ''c1'' ''running'') [Good (sample_event ''c0'' ''running'')] =
     (Inr (sample_event ''c1'' ''running''),
      [Good (sample_event ''c0'' ''running''), Good (sample_event ''c1'' ''running'')])
   \<and> audit_find [Good (sample_event ''c0'' ''running''), Good (sample_event ''c1'' ''running'')] ''c1'' =
      Some (sample_event ''c1'' ''running'')"
proof -
  let ?f = "[Good (sample_event ''c0'' ''running'')]" and ?e = "sample_event ''c1'' ''running''"
  have ok: "audit_ok ?f" by (simp add: audit_ok_def)
  have "audit_append sample_host ?e ?f = (Inr ?e, ?f @ [Good ?e])"
    by (simp add: audit_append_def audit_events_def with_identity_def sample_event_def Let_def)
  then show ?thesis
    using audit_exactly_once [OF ok, of sample_host ?e] by (auto simp: with_identity_def sample_event_def)
qed

theorem audit_never_overwrites_witness:
  "audit_find (run (audit_put sample_host) [Good (sample_event ''c0'' ''running'')]
     [(''c0'', sample_event ''c0'' ''failed''), (''c1'', sample_event ''c1'' ''failed'')]) ''c0'' =
   Some (sample_event ''c0'' ''running'')"
  by (rule audit_never_overwrites)
    (auto simp: audit_ok_def audit_find_def sample_event_def)

end
