(* ===== verification/Values.thy ===== *)
theory Values
  imports Protocol
begin

text \<open>
  How values go into the execution store's file and come back: \<^verbatim>\<open>dataclasses.asdict\<close>
  turns every dataclass instance inside a value into a dictionary, JSON keeps dictionaries, lists
  and scalars, and \<^verbatim>\<open>ExecutionStore._decode_value\<close> turns the dictionaries that look like a
  \<^verbatim>\<open>ToolResult\<close> back into one (\<^verbatim>\<open>runtime/execution_store.py\<close>).
\<close>

primrec asdict_val :: "pyval \<Rightarrow> pyval" where
  "asdict_val VNone = VNone"
| "asdict_val (VBool b) = VBool b"
| "asdict_val (VInt i) = VInt i"
| "asdict_val (VStr s) = VStr s"
| "asdict_val (VStamp t) = VStamp t"
| "asdict_val (VList xs) = VList (map asdict_val xs)"
| "asdict_val (VDict d) = VDict (map (map_prod id asdict_val) d)"
| "asdict_val (VTool c t ok v e r k a) =
     VDict [(''call_id'', asdict_val c), (''tool'', asdict_val t), (''ok'', VBool ok),
            (''value'', asdict_val v), (''error'', asdict_val e), (''retryable'', VBool r),
            (''idempotency_key'', asdict_val k), (''ambiguous'', VBool a)]"

text \<open>\<^verbatim>\<open>{"call_id","tool","ok"}.issubset(value)\<close>\<close>

definition looks_like_tool :: "pydict \<Rightarrow> bool" where
  "looks_like_tool d \<longleftrightarrow>
     map_of d ''call_id'' \<noteq> None \<and> map_of d ''tool'' \<noteq> None \<and> map_of d ''ok'' \<noteq> None"

text \<open>
  \<open>d'\<close> is the dictionary with every value decoded; the code decodes the entry
  \<^verbatim>\<open>value\<close> of a look-alike and keeps its other entries as they are.
\<close>

primrec decode_val :: "pyval \<Rightarrow> pyval" where
  "decode_val VNone = VNone"
| "decode_val (VBool b) = VBool b"
| "decode_val (VInt i) = VInt i"
| "decode_val (VStr s) = VStr s"
| "decode_val (VStamp t) = VStamp t"
| "decode_val (VList xs) = VList (map decode_val xs)"
| "decode_val (VDict d) =
     (let d' = map (map_prod id decode_val) d in
      if looks_like_tool d
      then VTool (dget d ''call_id'' VNone) (dget d ''tool'' VNone) (truthy (dget d ''ok'' VNone))
             (dget d' ''value'' VNone) (dget d ''error'' VNone)
             (truthy (dget d ''retryable'' (VBool False))) (dget d ''idempotency_key'' VNone) False
      else VDict d')"
| "decode_val (VTool c t ok v e r k a) = VTool c t ok v e r k a"

text \<open>Values without dataclass instances, the ones JSON holds.\<close>

primrec json_val :: "pyval \<Rightarrow> bool" where
  "json_val VNone = True"
| "json_val (VBool b) = True"
| "json_val (VInt i) = True"
| "json_val (VStr s) = True"
| "json_val (VStamp t) = True"
| "json_val (VList xs) = list_all id (map json_val xs)"
| "json_val (VDict d) = list_all snd (map (map_prod id json_val) d)"
| "json_val (VTool c t ok v e r k a) = False"

text \<open>
  Values the codec preserves: tool results whose own fields are JSON values and which are not
  ambiguous, and dictionaries that do not look like a tool result.
\<close>

primrec plain_val :: "pyval \<Rightarrow> bool" where
  "plain_val VNone = True"
| "plain_val (VBool b) = True"
| "plain_val (VInt i) = True"
| "plain_val (VStr s) = True"
| "plain_val (VStamp t) = True"
| "plain_val (VList xs) = list_all id (map plain_val xs)"
| "plain_val (VDict d) = (\<not> looks_like_tool d \<and> list_all snd (map (map_prod id plain_val) d))"
| "plain_val (VTool c t ok v e r k a) =
     (json_val c \<and> json_val t \<and> plain_val v \<and> json_val e \<and> json_val k \<and> \<not> a)"

lemma map_of_map_prod: "map_of (map (map_prod id f) d) k = map_option f (map_of d k)"
  by (induction d) auto

lemma looks_like_map [simp]: "looks_like_tool (map (map_prod id f) d) = looks_like_tool d"
  by (simp add: looks_like_tool_def map_of_map_prod)

lemma json_asdict: "json_val (asdict_val v)"
  by (induction v) (auto simp: list_all_iff)

lemma asdict_json: "json_val v \<Longrightarrow> asdict_val v = v"
proof (induction v)
  case (VList xs)
  then show ?case by (auto simp: list_all_iff intro: map_idI)
next
  case (VDict d)
  have "map_prod id asdict_val (k, x) = (k, x)" if "(k, x) \<in> set d" for k x
    using that VDict.IH [of "(k, x)" x] VDict.prems by (fastforce simp: list_all_iff)
  then have "map_prod id asdict_val p = p" if "p \<in> set d" for p
    using that by (metis surj_pair)
  then show ?case by (simp add: map_idI)
qed auto

lemma decode_asdict_plain: "plain_val v \<Longrightarrow> decode_val (asdict_val v) = v"
proof (induction v)
  case (VList xs)
  then show ?case by (auto simp: list_all_iff intro: map_idI)
next
  case (VDict d)
  have "map_prod id (decode_val \<circ> asdict_val) (k, x) = (k, x)" if "(k, x) \<in> set d" for k x
    using that VDict.IH [of "(k, x)" x] VDict.prems by (fastforce simp: list_all_iff)
  then have "map_prod id (decode_val \<circ> asdict_val) p = p" if "p \<in> set d" for p
    using that by (metis surj_pair)
  then show ?case using VDict.prems by (simp add: map_idI prod.map_comp)
next
  case (VTool c t ok v e r k a)
  then show ?case by (simp add: looks_like_tool_def dget_def asdict_json)
qed auto

text \<open>
  C40. Persistence round trip. A value survives the store's encoding and decoding unchanged when
  it holds no ambiguous tool result and no dictionary that mimics one: nested lists,
  dictionaries and tool results come back as they were written.
\<close>

theorem value_roundtrip:
  assumes "plain_val v"
  shows "decode_val (asdict_val v) = v \<and> json_val (asdict_val v)"
  using assms by (simp add: decode_asdict_plain json_asdict)

definition sample_tool_result :: tool_result where
  "sample_tool_result =
     \<lparr>tr_call_id = ''c1'', tr_tool = ''search'', tr_ok = True, tr_value = VList [VInt 7, VNone],
      tr_error = None, tr_retryable = False, tr_idempotency_key = Some ''k1'', tr_ambiguous = False\<rparr>"

theorem value_roundtrip_witness:
  "decode_val (asdict_val (VDict [(''steps'', VList [tool_value sample_tool_result, VStr ''ok''])])) =
     VDict [(''steps'', VList [tool_value sample_tool_result, VStr ''ok''])]"
  by (rule value_roundtrip [THEN conjunct1])
    (simp add: sample_tool_result_def tool_value_def looks_like_tool_def)

text \<open>
  What the codec loses, exactly: a tool result comes back with its JSON-valued fields
  intact but never ambiguous. The marker that an outcome is unknown does not survive persistence.
\<close>

theorem ambiguity_lost_in_storage:
  "decode_val (asdict_val (tool_value r)) =
     tool_value (r\<lparr>tr_ambiguous := False, tr_value := decode_val (asdict_val (tr_value r))\<rparr>)"
proof -
  have "asdict_val (opt_str x) = opt_str x" for x by (cases x) auto
  then show ?thesis by (simp add: tool_value_def looks_like_tool_def dget_def)
qed


section \<open>Equality of Python values\<close>

text \<open>
  \<^verbatim>\<open>==\<close>: dictionaries compare by their entries in any order, booleans are the numbers 0 and
  1, instances of the dataclass compare field by field. A time stamp, being a string, is compared
  only with other time stamps in the model.
\<close>

primrec eq_val :: "pyval \<Rightarrow> pyval \<Rightarrow> bool" where
  "eq_val VNone = (\<lambda>w. w = VNone)"
| "eq_val (VBool b) = (\<lambda>w. case w of VBool c \<Rightarrow> b = c | VInt n \<Rightarrow> n = of_bool b | _ \<Rightarrow> False)"
| "eq_val (VInt n) = (\<lambda>w. case w of VInt m \<Rightarrow> n = m | VBool c \<Rightarrow> n = of_bool c | _ \<Rightarrow> False)"
| "eq_val (VStr s) = (\<lambda>w. w = VStr s)"
| "eq_val (VStamp t) = (\<lambda>w. w = VStamp t)"
| "eq_val (VList xs) =
     (\<lambda>w. case w of VList ys \<Rightarrow> list_all2 (\<lambda>f y. f y) (map eq_val xs) ys | _ \<Rightarrow> False)"
| "eq_val (VDict d) =
     (\<lambda>w. case w of
        VDict e \<Rightarrow> length d = length e \<and>
          list_all (\<lambda>(k, f). case map_of e k of None \<Rightarrow> False | Some y \<Rightarrow> f y) (map (map_prod id eq_val) d)
      | _ \<Rightarrow> False)"
| "eq_val (VTool c t ok v e r k a) =
     (\<lambda>w. case w of
        VTool c' t' ok' v' e' r' k' a' \<Rightarrow>
          eq_val c c' \<and> eq_val t t' \<and> ok = ok' \<and> eq_val v v' \<and> eq_val e e' \<and> r = r' \<and> eq_val k k' \<and> a = a'
      | _ \<Rightarrow> False)"

text \<open>A Python dictionary has each key once.\<close>

primrec wf_val :: "pyval \<Rightarrow> bool" where
  "wf_val VNone = True"
| "wf_val (VBool b) = True"
| "wf_val (VInt i) = True"
| "wf_val (VStr s) = True"
| "wf_val (VStamp t) = True"
| "wf_val (VList xs) = list_all id (map wf_val xs)"
| "wf_val (VDict d) = (distinct (map fst d) \<and> list_all snd (map (map_prod id wf_val) d))"
| "wf_val (VTool c t ok v e r k a) = (wf_val c \<and> wf_val t \<and> wf_val v \<and> wf_val e \<and> wf_val k)"

lemma eq_val_refl: "wf_val v \<Longrightarrow> eq_val v v"
proof (induction v)
  case (VList xs)
  then show ?case by (auto simp: list_all2_conv_all_nth list_all_iff)
next
  case (VDict d)
  have "case map_of d k of None \<Rightarrow> False | Some y \<Rightarrow> eq_val x y" if "(k, x) \<in> set d" for k x
  proof -
    from VDict.prems have "distinct (map fst d)" by simp
    then have "map_of d k = Some x" using that by (rule map_of_is_SomeI)
    moreover have "eq_val x x"
      using that VDict.IH [of "(k, x)" x] VDict.prems by (fastforce simp: list_all_iff)
    ultimately show ?thesis by simp
  qed
  then show ?case by (auto simp: list_all_iff)
qed auto

end
