(* ===== verification/Execution_Store.thy ===== *)
theory Execution_Store
  imports State_Machine Audit_Log Values
begin

text \<open>
  \<^verbatim>\<open>runtime/execution_store.py\<close>: execution states in a JSON file, written by optimistic
  compare-and-set under the store's lock. The file holds raw JSON records, since the code checks
  their shape (\<^verbatim>\<open>_version\<close>, \<^verbatim>\<open>_decode_state\<close>). One locked section is one step and
  reads one instant \<open>now\<close>. The flag \<^verbatim>\<open>lock_held\<close> only chooses who takes the lock, so
  it is no argument here.
\<close>

record exec_state =
  es_execution_id :: string
  es_status :: string
  es_goal :: string
  es_attempt :: int
  es_plan :: pyval
  es_result :: pyval
  es_error :: "string option"
  es_updated_at :: time
  es_correlation_id :: "string option"
  es_version :: int

type_synonym store_file = "pydict json_file"
type_synonym validator = "string \<Rightarrow> int option \<Rightarrow> bool result"

text \<open>The store object: its file, its state machine and its optional audit log.\<close>

record exec_store =
  st_file :: store_file
  st_machine :: state_machine
  st_audit :: "audit_file option"

definition new_state :: "string \<Rightarrow> time \<Rightarrow> exec_state" where
  "new_state x now =
     \<lparr>es_execution_id = x, es_status = ''pending'', es_goal = [], es_attempt = 0, es_plan = VNone,
      es_result = VNone, es_error = None, es_updated_at = now, es_correlation_id = None,
      es_version = 0\<rparr>"

definition asdict_state :: "exec_state \<Rightarrow> pydict" where
  "asdict_state s =
     [(''execution_id'', VStr (es_execution_id s)), (''status'', VStr (es_status s)),
      (''goal'', VStr (es_goal s)), (''attempt'', VInt (es_attempt s)),
      (''plan'', asdict_val (es_plan s)), (''result'', asdict_val (es_result s)),
      (''error'', opt_str (es_error s)), (''updated_at'', VStamp (es_updated_at s)),
      (''correlation_id'', opt_str (es_correlation_id s)), (''version'', VInt (es_version s))]"

section \<open>Reading\<close>

definition read_store :: "store_file \<Rightarrow> pydict result" where
  "read_store f =
     (case f of
        Missing \<Rightarrow> Inr []
      | Invalid_JSON \<Rightarrow>
          Inl (Exc ExecutionStoreCorruptionError ''execution store contains invalid JSON'')
      | Not_Object \<Rightarrow>
          Inl (Exc ExecutionStoreCorruptionError ''execution store root must be an object'')
      | Object d \<Rightarrow> Inr d)"

text \<open>\<^verbatim>\<open>_version\<close>: booleans are integers in Python.\<close>

definition raw_version :: "pyval option \<Rightarrow> int result" where
  "raw_version raw =
     (let bad = Inl (Exc ExecutionStoreCorruptionError ''execution state has invalid version'') in
      case raw of
        None \<Rightarrow> Inr 0
      | Some (VDict d) \<Rightarrow>
          (case dget d ''version'' (VInt 0) of
             VInt n \<Rightarrow> if n < 0 then bad else Inr n
           | VBool b \<Rightarrow> Inr (if b then 1 else 0)
           | _ \<Rightarrow> bad)
      | Some VNone \<Rightarrow> Inr 0
      | Some _ \<Rightarrow> Inl (Exc AttributeError ''no attribute get''))"

text \<open>
  \<^verbatim>\<open>ExecutionState(**value)\<close>: unknown keys and a missing identity raise
  \<^verbatim>\<open>TypeError\<close>. Dataclasses do not check the types of their fields; the model's state is
  typed, so a record with a field of another type than declared is rejected the same way here.
\<close>

definition state_fields :: "string list" where
  "state_fields =
     [''execution_id'', ''status'', ''goal'', ''attempt'', ''plan'', ''result'', ''error'',
      ''updated_at'', ''correlation_id'', ''version'']"

fun as_str :: "pyval \<Rightarrow> string option" where
  "as_str (VStr s) = Some s"
| "as_str _ = None"

fun as_int :: "pyval \<Rightarrow> int option" where
  "as_int (VInt n) = Some n"
| "as_int (VBool b) = Some (if b then 1 else 0)"
| "as_int _ = None"

fun as_opt_str :: "pyval \<Rightarrow> string option option" where
  "as_opt_str VNone = Some None"
| "as_opt_str (VStr s) = Some (Some s)"
| "as_opt_str _ = None"

fun as_time :: "pyval \<Rightarrow> time option" where
  "as_time (VStamp t) = Some t"
| "as_time _ = None"

lemma as_opt_str [simp]: "as_opt_str (opt_str x) = Some x"
  by (cases x) auto

lemma VStr_opt_str [simp]: "VStr a = opt_str x \<longleftrightarrow> Some a = x"
  by (cases x) auto

definition construct_state :: "time \<Rightarrow> pydict \<Rightarrow> exec_state result" where
  "construct_state now d =
     (if \<not> list_all (List.member state_fields) (map fst d) \<or> map_of d ''execution_id'' = None then
        Inl (Exc TypeError ''ExecutionState() arguments'')
      else
        case (as_str (dget d ''execution_id'' VNone), as_str (dget d ''status'' (VStr ''pending'')),
              as_str (dget d ''goal'' (VStr [])), as_int (dget d ''attempt'' (VInt 0)),
              as_opt_str (dget d ''error'' VNone), as_time (dget d ''updated_at'' (VStamp now)),
              as_opt_str (dget d ''correlation_id'' VNone), as_int (dget d ''version'' (VInt 0))) of
          (Some x, Some s, Some g, Some a, Some e, Some u, Some c, Some v) \<Rightarrow>
            Inr \<lparr>es_execution_id = x, es_status = s, es_goal = g, es_attempt = a,
                 es_plan = dget d ''plan'' VNone, es_result = dget d ''result'' VNone,
                 es_error = e, es_updated_at = u, es_correlation_id = c, es_version = v\<rparr>
        | _ \<Rightarrow> Inl (Exc TypeError ''ExecutionState() field types''))"

definition decode_state :: "time \<Rightarrow> pyval \<Rightarrow> exec_state option result" where
  "decode_state now raw =
     (if \<not> truthy raw then Inr None
      else case raw of
        VDict d \<Rightarrow>
          (let value = dset ''result'' (decode_val (dget d ''result'' VNone)) d
           in map_sum id Some (construct_state now value))
      | _ \<Rightarrow> Inl (Exc ValueError ''record is not a dictionary''))"

definition get_unlocked :: "time \<Rightarrow> string \<Rightarrow> store_file \<Rightarrow> exec_state option result" where
  "get_unlocked now x f =
     (case read_store f of
        Inl e \<Rightarrow> Inl e
      | Inr d \<Rightarrow> (case map_of d x of None \<Rightarrow> Inr None | Some raw \<Rightarrow> decode_state now raw))"

definition get_state :: "time \<Rightarrow> string \<Rightarrow> exec_store \<Rightarrow> exec_state option result" where
  "get_state now x st = get_unlocked now x (st_file st)"

definition execution_ids :: "exec_store \<Rightarrow> string list result" where
  "execution_ids st = map_sum id (map fst) (read_store (st_file st))"

section \<open>Writing\<close>

text \<open>\<^verbatim>\<open>(previous or {}).get("status","pending")\<close>\<close>

definition raw_status :: "pyval option \<Rightarrow> pyval" where
  "raw_status previous =
     (case previous of Some (VDict d) \<Rightarrow> dget d ''status'' (VStr ''pending'') | _ \<Rightarrow> VStr ''pending'')"

definition raw_truthy :: "pyval option \<Rightarrow> bool" where
  "raw_truthy previous = (case previous of None \<Rightarrow> False | Some v \<Rightarrow> truthy v)"

text \<open>
  The validation of a transition from a raw status. A status that is a list or a dictionary cannot
  be looked up (\<^verbatim>\<open>TypeError\<close>); any other value but a string is an unknown state.
\<close>

definition validate_raw :: "state_machine \<Rightarrow> pyval \<Rightarrow> string \<Rightarrow> unit result" where
  "validate_raw m current target =
     (case current of
        VStr s \<Rightarrow> validate m s target
      | VList _ \<Rightarrow> Inl (Exc TypeError ''unhashable type'')
      | VDict _ \<Rightarrow> Inl (Exc TypeError ''unhashable type'')
      | _ \<Rightarrow> Inl (Exc InvalidExecutionTransition ''unknown execution state''))"

text \<open>
  The guards of \<^verbatim>\<open>_save_unlocked\<close>, in its order. On success: the data read, the previous
  raw record and the current version.
\<close>

definition save_guard ::
    "exec_state \<Rightarrow> int option \<Rightarrow> bool \<Rightarrow> string option \<Rightarrow> int option \<Rightarrow> validator option \<Rightarrow>
     exec_store \<Rightarrow> (pydict \<times> pyval option \<times> int) result" where
  "save_guard s expected_version validate_transition expected_status fencing_token fencing_validator st =
     (if es_execution_id s = [] then Inl (Exc ValueError ''execution_id must be a non-empty string'')
      else case read_store (st_file st) of
        Inl e \<Rightarrow> Inl e
      | Inr data \<Rightarrow>
         (let previous = map_of data (es_execution_id s) in
          case raw_version previous of
            Inl e \<Rightarrow> Inl e
          | Inr current_version \<Rightarrow>
             (if expected_version \<noteq> None \<and> Some current_version \<noteq> expected_version then
                Inl (Exc ExecutionVersionConflictError ''version changed'')
              else if expected_status \<noteq> None \<and> raw_status previous \<noteq> opt_str expected_status then
                Inl (Exc ExecutionVersionConflictError ''status changed'')
              else if fencing_token \<noteq> None \<and> fencing_validator = None then
                Inl (Exc ExecutionFencingConflictError ''fencing token supplied without a validator'')
              else case (case fencing_validator of None \<Rightarrow> Inr True
                         | Some v \<Rightarrow> v (es_execution_id s) fencing_token) of
                Inl e \<Rightarrow> Inl e
              | Inr False \<Rightarrow> Inl (Exc ExecutionFencingConflictError ''fencing token is stale'')
              | Inr True \<Rightarrow>
                 (case (if raw_truthy previous \<and> validate_transition
                        then validate_raw (st_machine st) (raw_status previous) (es_status s)
                        else Inr ()) of
                    Inl e \<Rightarrow> Inl e
                  | Inr _ \<Rightarrow> Inr (data, previous, current_version)))))"

text \<open>
  \<^verbatim>\<open>old_status or "new"\<close>, as the audit event names it. (A previous status that is no string
  is outside the model of audit events and reads as \<^verbatim>\<open>new\<close>.)
\<close>

definition audit_from :: "pyval option \<Rightarrow> string" where
  "audit_from previous =
     (if raw_truthy previous then
        (case raw_status previous of VStr s \<Rightarrow> (if s = [] then ''new'' else s) | _ \<Rightarrow> ''new'')
      else ''new'')"

definition status_changed :: "pyval option \<Rightarrow> exec_state \<Rightarrow> bool" where
  "status_changed previous s =
     (\<not> raw_truthy previous \<or> raw_status previous \<noteq> VStr (es_status s))"

text \<open>
  \<^verbatim>\<open>_save_unlocked\<close>: after the guards, bump the version, stamp the time, replace the file,
  and then append the audit event if the status changed. When the audit log cannot be read the call
  raises although the file is already replaced.
\<close>

definition save_unlocked ::
    "host \<Rightarrow> time \<Rightarrow> exec_state \<Rightarrow> int option \<Rightarrow> bool \<Rightarrow> string option \<Rightarrow> int option \<Rightarrow>
     validator option \<Rightarrow> exec_store \<Rightarrow> exec_state result \<times> exec_store" where
  "save_unlocked h now s expected_version validate_transition expected_status fencing_token fencing_validator st =
     (case save_guard s expected_version validate_transition expected_status fencing_token fencing_validator st of
        Inl e \<Rightarrow> (Inl e, st)
      | Inr (data, previous, current_version) \<Rightarrow>
         (let s' = s\<lparr>es_version := current_version + 1, es_updated_at := now\<rparr>;
              st' = st\<lparr>st_file := Object (dset (es_execution_id s) (VDict (asdict_state s')) data)\<rparr>
          in case st_audit st of
               None \<Rightarrow> (Inr s', st')
             | Some log \<Rightarrow>
                 (if status_changed previous s' then
                    (let (r, log') = audit_append h
                           \<lparr>ae_execution_id = es_execution_id s', ae_from_status = audit_from previous,
                            ae_to_status = es_status s', ae_attempt = es_attempt s',
                            ae_reason = es_error s', ae_timestamp = now, ae_event_id = [],
                            ae_correlation_id = es_correlation_id s'\<rparr> log
                     in (map_sum id (\<lambda>_. s') r, st'\<lparr>st_audit := Some log'\<rparr>))
                  else (Inr s', st'))))"

definition save :: "host \<Rightarrow> time \<Rightarrow> exec_state \<Rightarrow> exec_store \<Rightarrow> exec_state result \<times> exec_store" where
  "save h now s st = save_unlocked h now s None False None None None st"

definition compare_and_set ::
    "host \<Rightarrow> time \<Rightarrow> exec_state \<Rightarrow> int \<Rightarrow> string option \<Rightarrow> int option \<Rightarrow> validator option \<Rightarrow>
     exec_store \<Rightarrow> exec_state result \<times> exec_store" where
  "compare_and_set h now s expected_version expected_status fencing_token fencing_validator st =
     (if expected_version < 0 then
        (Inl (Exc ValueError ''expected_version must be a non-negative integer''), st)
      else save_unlocked h now s (Some expected_version) True expected_status fencing_token
             fencing_validator st)"

text \<open>
  The keyword arguments \<^verbatim>\<open>**updates\<close> of a transition: assignments to the fields of the
  state other than its identity and status, in their order.
\<close>

datatype state_update =
    Set_Goal string
  | Set_Attempt int
  | Set_Plan pyval
  | Set_Result pyval
  | Set_Error "string option"
  | Set_Updated_At time
  | Set_Correlation_Id "string option"
  | Set_Version int

fun apply_update :: "exec_state \<Rightarrow> state_update \<Rightarrow> exec_state" where
  "apply_update s (Set_Goal g) = s\<lparr>es_goal := g\<rparr>"
| "apply_update s (Set_Attempt a) = s\<lparr>es_attempt := a\<rparr>"
| "apply_update s (Set_Plan p) = s\<lparr>es_plan := p\<rparr>"
| "apply_update s (Set_Result r) = s\<lparr>es_result := r\<rparr>"
| "apply_update s (Set_Error e) = s\<lparr>es_error := e\<rparr>"
| "apply_update s (Set_Updated_At t) = s\<lparr>es_updated_at := t\<rparr>"
| "apply_update s (Set_Correlation_Id c) = s\<lparr>es_correlation_id := c\<rparr>"
| "apply_update s (Set_Version v) = s\<lparr>es_version := v\<rparr>"

definition transition ::
    "host \<Rightarrow> time \<Rightarrow> string \<Rightarrow> string \<Rightarrow> state_update list \<Rightarrow> exec_store \<Rightarrow>
     exec_state result \<times> exec_store" where
  "transition h now x status updates st =
     (case get_unlocked now x (st_file st) of
        Inl e \<Rightarrow> (Inl e, st)
      | Inr None \<Rightarrow>
          (if status \<noteq> ''pending'' then (Inl (Exc KeyError x), st)
           else (let s = foldl apply_update ((new_state x now)\<lparr>es_status := status\<rparr>) updates
                 in save_unlocked h now s (Some (es_version s)) True None None None st))
      | Inr (Some s0) \<Rightarrow>
          (let s = foldl apply_update (s0\<lparr>es_status := status\<rparr>) updates
           in save_unlocked h now s (Some (es_version s)) True None None None st))"

definition transition_fenced ::
    "host \<Rightarrow> time \<Rightarrow> string \<Rightarrow> string \<Rightarrow> int \<Rightarrow> string option \<Rightarrow> int option \<Rightarrow> validator option \<Rightarrow>
     state_update list \<Rightarrow> exec_store \<Rightarrow> exec_state result \<times> exec_store" where
  "transition_fenced h now x status expected_version expected_status fencing_token fencing_validator updates st =
     (if expected_version < 0 then
        (Inl (Exc ValueError ''expected_version must be a non-negative integer''), st)
      else case get_unlocked now x (st_file st) of
        Inl e \<Rightarrow> (Inl e, st)
      | Inr None \<Rightarrow> (Inl (Exc KeyError x), st)
      | Inr (Some s0) \<Rightarrow>
          (if es_version s0 \<noteq> expected_version then
             (Inl (Exc ExecutionVersionConflictError ''version changed''), st)
           else if expected_status \<noteq> None \<and> Some (es_status s0) \<noteq> expected_status then
             (Inl (Exc ExecutionVersionConflictError ''status changed''), st)
           else (let s = foldl apply_update (s0\<lparr>es_status := status\<rparr>) updates
                 in save_unlocked h now s (Some expected_version) True expected_status fencing_token
                      fencing_validator st)))"

section \<open>Resumable executions\<close>

definition raw_resumable :: "pyval \<Rightarrow> bool result" where
  "raw_resumable raw =
     (case raw of
        VDict d \<Rightarrow>
          (case dget d ''status'' VNone of
             VStr s \<Rightarrow>
               (if s = ''running'' \<or> s = ''retrying'' then Inr True
                else if s = ''pending'' then
                  (case as_int (dget d ''attempt'' (VInt 0)) of
                     Some n \<Rightarrow> Inr (n > 0)
                   | None \<Rightarrow> Inl (Exc TypeError ''attempt is no number''))
                else Inr False)
           | VList _ \<Rightarrow> Inl (Exc TypeError ''unhashable type'')
           | VDict _ \<Rightarrow> Inl (Exc TypeError ''unhashable type'')
           | _ \<Rightarrow> Inr False)
      | _ \<Rightarrow> Inl (Exc AttributeError ''no attribute get''))"

fun resume_raws :: "time \<Rightarrow> pyval list \<Rightarrow> exec_state list result" where
  "resume_raws now [] = Inr []"
| "resume_raws now (raw # raws) =
     (case raw_resumable raw of
        Inl e \<Rightarrow> Inl e
      | Inr False \<Rightarrow> resume_raws now raws
      | Inr True \<Rightarrow>
          (case raw of
             VDict d \<Rightarrow>
               (case construct_state now (dset ''result'' (decode_val (dget d ''result'' VNone)) d) of
                  Inl e \<Rightarrow> Inl e
                | Inr s \<Rightarrow> map_sum id (Cons s) (resume_raws now raws))
           | _ \<Rightarrow> Inl (Exc AttributeError ''no attribute get'')))"

definition resumable :: "time \<Rightarrow> exec_store \<Rightarrow> exec_state list result" where
  "resumable now st =
     (case read_store (st_file st) of Inl e \<Rightarrow> Inl e | Inr d \<Rightarrow> resume_raws now (map snd d))"

end
