(* ===== verification/Store_Spec.thy ===== *)
theory Store_Spec
  imports Execution_Store
begin

text \<open>
  What the execution store promises, over a plain map from executions to states, and the proof
  that the file operations of \<^verbatim>\<open>Execution_Store\<close> implement it: the abstraction \<open>view\<close>
  reads the file as that map.
\<close>

section \<open>Well-formed files and their view\<close>

text \<open>Every record was written by the store itself, under its own identity.\<close>

definition record_ok :: "string \<times> pyval \<Rightarrow> bool" where
  "record_ok p \<longleftrightarrow> (\<exists>s. snd p = VDict (asdict_state s) \<and> es_execution_id s = fst p
     \<and> fst p \<noteq> [] \<and> 1 \<le> es_version s)"

definition store_ok :: "store_file \<Rightarrow> bool" where
  "store_ok f \<longleftrightarrow> (case f of Object d \<Rightarrow> distinct (map fst d) \<and> (\<forall>p \<in> set d. record_ok p) | _ \<Rightarrow> False)"

text \<open>A state as it comes back from the file: nested tool results decoded in the result only.\<close>

definition norm_state :: "exec_state \<Rightarrow> exec_state" where
  "norm_state s = s\<lparr>es_plan := asdict_val (es_plan s), es_result := decode_val (asdict_val (es_result s))\<rparr>"

lemma norm_state_fields [simp]:
  "es_execution_id (norm_state s) = es_execution_id s" "es_status (norm_state s) = es_status s"
  "es_version (norm_state s) = es_version s" "es_attempt (norm_state s) = es_attempt s"
  "es_error (norm_state s) = es_error s" "es_goal (norm_state s) = es_goal s"
  "es_correlation_id (norm_state s) = es_correlation_id s" "es_updated_at (norm_state s) = es_updated_at s"
  by (simp_all add: norm_state_def)

definition view :: "store_file \<Rightarrow> string \<Rightarrow> exec_state option" where
  "view f x =
     (case f of
        Object d \<Rightarrow>
          (case map_of d x of
             None \<Rightarrow> None
           | Some raw \<Rightarrow> (case decode_state 0 raw of Inr s \<Rightarrow> s | Inl _ \<Rightarrow> None))
      | _ \<Rightarrow> None)"

section \<open>The codec of a record\<close>

lemma construct_asdict:
  "construct_state now (dset ''result'' r (asdict_state s)) =
     Inr (s\<lparr>es_plan := asdict_val (es_plan s), es_result := r\<rparr>)"
  by (simp add: construct_state_def asdict_state_def state_fields_def dget_def)

lemma dget_result: "dget (asdict_state s) ''result'' VNone = asdict_val (es_result s)"
  by (simp add: asdict_state_def dget_def)

lemma decode_asdict_state [simp]:
  "decode_state now (VDict (asdict_state s)) = Inr (Some (norm_state s))"
proof -
  have "asdict_state s \<noteq> []" by (simp add: asdict_state_def)
  then show ?thesis
    by (simp add: decode_state_def Let_def dget_result construct_asdict norm_state_def)
qed

lemma raw_asdict [simp]:
  "raw_truthy (Some (VDict (asdict_state s)))"
  "raw_status (Some (VDict (asdict_state s))) = VStr (es_status s)"
  "0 \<le> es_version s \<Longrightarrow> raw_version (Some (VDict (asdict_state s))) = Inr (es_version s)"
  by (simp_all add: raw_truthy_def raw_status_def raw_version_def asdict_state_def dget_def)

lemma raw_none [simp]:
  "\<not> raw_truthy None" "raw_status None = VStr ''pending''" "raw_version None = Inr 0"
  by (simp_all add: raw_truthy_def raw_status_def raw_version_def)

text \<open>The two shapes a lookup in a well-formed file can have.\<close>

lemma store_lookup:
  assumes "store_ok f"
  obtains (Absent) d where "f = Object d" "map_of d x = None" "view f x = None"
    | (Present) d s where "f = Object d" "map_of d x = Some (VDict (asdict_state s))"
        "view f x = Some (norm_state s)" "es_execution_id s = x" "1 \<le> es_version s" "x \<noteq> []"
proof -
  obtain d where d: "f = Object d" "\<forall>p \<in> set d. record_ok p"
    using assms by (auto simp: store_ok_def split: json_file.splits)
  show thesis
  proof (cases "map_of d x")
    case None
    with d Absent show thesis by (simp add: view_def)
  next
    case (Some raw)
    with d(2) have "record_ok (x, raw)" by (auto dest: map_of_SomeD)
    with Some d Present show thesis by (auto simp: record_ok_def view_def)
  qed
qed

lemma get_unlocked_view: "store_ok f \<Longrightarrow> get_unlocked now x f = Inr (view f x)"
  by (cases rule: store_lookup [of f x]) (auto simp: get_unlocked_def read_store_def)

lemma view_id: "store_ok f \<Longrightarrow> view f x = Some s \<Longrightarrow> es_execution_id s = x \<and> 1 \<le> es_version s"
  by (cases rule: store_lookup [of f x]) auto

lemma store_ok_write:
  assumes "store_ok (Object d)" and "es_execution_id s \<noteq> []" and "1 \<le> es_version s"
  shows "store_ok (Object (dset (es_execution_id s) (VDict (asdict_state s)) d))"
    and "view (Object (dset (es_execution_id s) (VDict (asdict_state s)) d)) =
      (view (Object d))(es_execution_id s \<mapsto> norm_state s)"
proof -
  have "record_ok (es_execution_id s, VDict (asdict_state s))"
    using assms by (auto simp: record_ok_def)
  then show "store_ok (Object (dset (es_execution_id s) (VDict (asdict_state s)) d))"
    using assms(1) dset_all [of d record_ok] by (auto simp: store_ok_def)
  show "view (Object (dset (es_execution_id s) (VDict (asdict_state s)) d)) =
      (view (Object d))(es_execution_id s \<mapsto> norm_state s)"
    by (auto simp: view_def)
qed

section \<open>The specification\<close>

type_synonym state_map = "string \<Rightarrow> exec_state option"

definition map_version :: "state_map \<Rightarrow> string \<Rightarrow> int" where
  "map_version A x = (case A x of None \<Rightarrow> 0 | Some s \<Rightarrow> es_version s)"

definition map_status :: "state_map \<Rightarrow> string \<Rightarrow> string" where
  "map_status A x = (case A x of None \<Rightarrow> ''pending'' | Some s \<Rightarrow> es_status s)"

text \<open>Which writes are accepted, and the state they leave.\<close>

definition spec_save ::
    "state_machine \<Rightarrow> state_map \<Rightarrow> time \<Rightarrow> exec_state \<Rightarrow> int option \<Rightarrow> bool \<Rightarrow> string option \<Rightarrow>
     int option \<Rightarrow> validator option \<Rightarrow> exec_state result" where
  "spec_save m A now s n check est tok val =
     (let x = es_execution_id s in
      if x = [] then Inl (Exc ValueError ''execution_id must be a non-empty string'')
      else if n \<noteq> None \<and> Some (map_version A x) \<noteq> n then
        Inl (Exc ExecutionVersionConflictError ''version changed'')
      else if est \<noteq> None \<and> Some (map_status A x) \<noteq> est then
        Inl (Exc ExecutionVersionConflictError ''status changed'')
      else if tok \<noteq> None \<and> val = None then
        Inl (Exc ExecutionFencingConflictError ''fencing token supplied without a validator'')
      else case (case val of None \<Rightarrow> Inr True | Some v \<Rightarrow> v x tok) of
        Inl e \<Rightarrow> Inl e
      | Inr False \<Rightarrow> Inl (Exc ExecutionFencingConflictError ''fencing token is stale'')
      | Inr True \<Rightarrow>
          (case (if A x \<noteq> None \<and> check then validate m (map_status A x) (es_status s) else Inr ()) of
             Inl e \<Rightarrow> Inl e
           | Inr _ \<Rightarrow> Inr (s\<lparr>es_version := map_version A x + 1, es_updated_at := now\<rparr>)))"

text \<open>The audit event of a write, and the log after it.\<close>

definition save_event :: "state_map \<Rightarrow> exec_state \<Rightarrow> audit_event" where
  "save_event A s =
     \<lparr>ae_execution_id = es_execution_id s,
      ae_from_status = (case A (es_execution_id s) of None \<Rightarrow> ''new''
        | Some p \<Rightarrow> if es_status p = [] then ''new'' else es_status p),
      ae_to_status = es_status s, ae_attempt = es_attempt s, ae_reason = es_error s,
      ae_timestamp = es_updated_at s, ae_event_id = [],
      ae_correlation_id = es_correlation_id s\<rparr>"

definition spec_audit :: "host \<Rightarrow> state_map \<Rightarrow> exec_state \<Rightarrow> audit_file option \<Rightarrow> audit_file option" where
  "spec_audit h A s log =
     (if map_option es_status (A (es_execution_id s)) = Some (es_status s) then log
      else map_option (\<lambda>l. snd (audit_append h (save_event A s) l)) log)"

text \<open>A store object in order: its file well-formed, its log (if any) readable.\<close>

definition store_inv :: "exec_store \<Rightarrow> bool" where
  "store_inv st \<longleftrightarrow> store_ok (st_file st) \<and> (case st_audit st of None \<Rightarrow> True | Some l \<Rightarrow> audit_ok l)"

section \<open>The implementation refines the specification\<close>

text \<open>What the raw record says, read through the view.\<close>

lemma raw_view:
  assumes "store_ok f"
  obtains d where "f = Object d"
    "raw_version (map_of d x) = Inr (map_version (view f) x)"
    "raw_status (map_of d x) = VStr (map_status (view f) x)"
    "raw_truthy (map_of d x) \<longleftrightarrow> view f x \<noteq> None"
  using assms
  by (cases rule: store_lookup [of f x]) (auto simp: map_version_def map_status_def)

lemma save_guard_spec:
  assumes "store_ok (st_file st)"
  obtains d where "st_file st = Object d"
    "save_guard s n check est tok val st =
       map_sum id (\<lambda>_. (d, map_of d (es_execution_id s), map_version (view (st_file st)) (es_execution_id s)))
         (spec_save (st_machine st) (view (st_file st)) now s n check est tok val)"
proof -
  obtain d where d: "st_file st = Object d"
    "raw_version (map_of d (es_execution_id s)) = Inr (map_version (view (st_file st)) (es_execution_id s))"
    "raw_status (map_of d (es_execution_id s)) = VStr (map_status (view (st_file st)) (es_execution_id s))"
    "raw_truthy (map_of d (es_execution_id s)) \<longleftrightarrow> view (st_file st) (es_execution_id s) \<noteq> None"
    using raw_view [OF assms] by metis
  have read: "read_store (st_file st) = Inr d" by (simp add: d(1) read_store_def)
  have "save_guard s n check est tok val st =
       map_sum id (\<lambda>_. (d, map_of d (es_execution_id s), map_version (view (st_file st)) (es_execution_id s)))
         (spec_save (st_machine st) (view (st_file st)) now s n check est tok val)"
    unfolding save_guard_def spec_save_def Let_def read d(2,3,4)
    by (cases "view (st_file st) (es_execution_id s)")
      (simp_all add: validate_raw_def d(2,3,4) split: sum.split bool.split)
  with d(1) that show thesis by blast
qed

lemma spec_save_Inr:
  assumes "spec_save m A now s n check est tok val = Inr s'"
  shows "s' = s\<lparr>es_version := map_version A (es_execution_id s) + 1, es_updated_at := now\<rparr>"
    and "es_execution_id s \<noteq> []"
    and "n = None \<or> n = Some (map_version A (es_execution_id s))"
    and "check \<Longrightarrow> A (es_execution_id s) \<noteq> None \<Longrightarrow>
      can_transition m (map_status A (es_execution_id s)) (es_status s)"
    and "\<And>v. val = Some v \<Longrightarrow> v (es_execution_id s) tok = Inr True"
    and "tok \<noteq> None \<Longrightarrow> val \<noteq> None"
  using assms
  by (auto simp: spec_save_def Let_def validate_iff split: if_splits sum.splits bool.splits option.splits)

lemma map_version_nonneg: "store_ok f \<Longrightarrow> 0 \<le> map_version (view f) x"
  using view_id by (fastforce simp: map_version_def split: option.splits)

text \<open>The event the code builds from the raw record is the specification's.\<close>

lemma audit_event_view:
  assumes "store_ok (Object d)"
  shows "status_changed (map_of d (es_execution_id s)) s \<longleftrightarrow>
      map_option es_status (view (Object d) (es_execution_id s)) \<noteq> Some (es_status s)"
    and "audit_from (map_of d (es_execution_id s)) = ae_from_status (save_event (view (Object d)) s)"
  using assms
  by (cases rule: store_lookup [of "Object d" "es_execution_id s"];
      auto simp: status_changed_def audit_from_def save_event_def)+

lemma save_refines:
  assumes "store_inv st"
  shows "case spec_save (st_machine st) (view (st_file st)) now s n check est tok val of
      Inl e \<Rightarrow> save_unlocked h now s n check est tok val st = (Inl e, st)
    | Inr s' \<Rightarrow> \<exists>st'. save_unlocked h now s n check est tok val st = (Inr s', st')
        \<and> store_inv st' \<and> st_machine st' = st_machine st
        \<and> view (st_file st') = (view (st_file st))(es_execution_id s \<mapsto> norm_state s')
        \<and> st_audit st' = spec_audit h (view (st_file st)) s' (st_audit st)"
proof -
  have ok: "store_ok (st_file st)" using assms by (simp add: store_inv_def)
  obtain d where f: "st_file st = Object d" and guard: "save_guard s n check est tok val st =
       map_sum id (\<lambda>_. (d, map_of d (es_execution_id s), map_version (view (st_file st)) (es_execution_id s)))
         (spec_save (st_machine st) (view (st_file st)) now s n check est tok val)"
    by (rule save_guard_spec [OF ok])
  show ?thesis
  proof (cases "spec_save (st_machine st) (view (st_file st)) now s n check est tok val")
    case (Inl e)
    then show ?thesis using guard by (simp add: save_unlocked_def)
  next
    case (Inr s')
    note s' = spec_save_Inr [OF Inr]
    have same: "es_execution_id s' = es_execution_id s" by (simp add: s'(1))
    have ver: "1 \<le> es_version s'" using map_version_nonneg [OF ok] by (simp add: s'(1))
    note w = store_ok_write [OF ok [unfolded f], of s', unfolded same, OF s'(2) ver]
    have guard': "save_guard s n check est tok val st =
        Inr (d, map_of d (es_execution_id s), map_version (view (Object d)) (es_execution_id s))"
      using guard Inr by (simp add: f)
    have step: "save_unlocked h now s n check est tok val st =
        (let st' = st\<lparr>st_file := Object (dset (es_execution_id s) (VDict (asdict_state s')) d)\<rparr>
         in case st_audit st of None \<Rightarrow> (Inr s', st')
            | Some log \<Rightarrow> if status_changed (map_of d (es_execution_id s')) s'
                then let (r, log') = audit_append h (save_event (view (Object d)) s') log
                     in (map_sum id (\<lambda>_. s') r, st'\<lparr>st_audit := Some log'\<rparr>)
                else (Inr s', st'))"
      using audit_event_view(2) [OF ok [unfolded f], of s']
      unfolding save_unlocked_def guard' s'(1) f
      by (cases "st_audit st") (simp_all add: Let_def save_event_def)
    show ?thesis
    proof (cases "st_audit st")
      case None
      then show ?thesis
        using Inr w by (simp add: step store_inv_def spec_audit_def f)
    next
      case (Some log)
      then have log: "audit_ok log" using assms by (simp add: store_inv_def)
      obtain y log' where y: "audit_append h (save_event (view (Object d)) s') log = (Inr y, log')"
        using audit_append_returns [OF log] by (metis prod.collapse)
      then have "audit_ok log'" using audit_append_ok [OF log] by (metis snd_conv)
      then show ?thesis
        using Inr w Some y log
        by (auto simp: step store_inv_def spec_audit_def f same Let_def
            audit_event_view(1) [OF ok [unfolded f], of s', unfolded same])
    qed
  qed
qed

section \<open>Operations as labelled steps\<close>

datatype store_op =
    Do_Save exec_state
  | Do_CAS exec_state int "string option" "int option" "validator option"
  | Do_Transition string string "state_update list"
  | Do_Fenced string string int "string option" "int option" "validator option" "state_update list"

fun store_step :: "host \<Rightarrow> exec_store \<Rightarrow> time \<times> store_op \<Rightarrow> exec_store" where
  "store_step h st (now, Do_Save s) = snd (save h now s st)"
| "store_step h st (now, Do_CAS s n est tok val) = snd (compare_and_set h now s n est tok val st)"
| "store_step h st (now, Do_Transition x t ups) = snd (transition h now x t ups st)"
| "store_step h st (now, Do_Fenced x t n est tok val ups) =
     snd (transition_fenced h now x t n est tok val ups st)"

fun validated :: "store_op \<Rightarrow> bool" where
  "validated (Do_Save _) = False"
| "validated _ = True"

text \<open>Every operation is a refusal or one write, and only \<open>save\<close> skips the lifecycle check.\<close>

lemma store_step_cases:
  obtains (Refused) "store_step h st (now, e) = st"
    | (Written) s n check est tok val where
        "store_step h st (now, e) = snd (save_unlocked h now s n check est tok val st)"
        "validated e \<longrightarrow> check"
proof (cases e)
  case (Do_Save s)
  then show ?thesis using Written [of s None False None None None] by (simp add: save_def)
next
  case (Do_CAS s n est tok val)
  then show ?thesis
    using Refused Written [of s "Some n" True est tok val] by (cases "n < 0") (simp_all add: compare_and_set_def)
next
  case (Do_Transition x t ups)
  then show ?thesis
    using Refused Written
    by (fastforce simp: transition_def Let_def split: sum.splits option.splits if_splits)
next
  case (Do_Fenced x t n est tok val ups)
  then show ?thesis
    using Refused Written
    by (fastforce simp: transition_fenced_def Let_def split: sum.splits option.splits if_splits)
qed

text \<open>What one write does to the view, in the form the invariants need.\<close>

lemma write_effect:
  assumes "store_inv st"
    and st': "st' = snd (save_unlocked h now s n check est tok val st)"
  shows "store_inv st' \<and> st_machine st' = st_machine st
    \<and> map_version (view (st_file st)) x \<le> map_version (view (st_file st')) x
    \<and> (check \<longrightarrow> (\<forall>p. view (st_file st) x = Some p \<longrightarrow>
         (\<exists>q. view (st_file st') x = Some q \<and>
            (es_status p = es_status q \<or> can_transition (st_machine st) (es_status p) (es_status q)))))"
proof (cases "spec_save (st_machine st) (view (st_file st)) now s n check est tok val")
  case (Inl e)
  then have "st' = st" using save_refines [OF assms(1), of h now s n check est tok val] by (simp add: st')
  then show ?thesis using assms(1) by auto
next
  case (Inr s')
  then have ref: "store_inv st' \<and> st_machine st' = st_machine st
      \<and> view (st_file st') = (view (st_file st))(es_execution_id s \<mapsto> norm_state s')"
    using save_refines [OF assms(1), of h now s n check est tok val] by (auto simp: st')
  show ?thesis
    using ref spec_save_Inr(1,4) [OF Inr]
    by (auto simp: map_version_def map_status_def split: option.splits)
qed

lemma store_step_effect:
  assumes "store_inv st"
  shows "store_inv (store_step h st e) \<and> st_machine (store_step h st e) = st_machine st
    \<and> map_version (view (st_file st)) x \<le> map_version (view (st_file (store_step h st e))) x
    \<and> (validated (snd e) \<longrightarrow> (\<forall>p. view (st_file st) x = Some p \<longrightarrow>
         (\<exists>q. view (st_file (store_step h st e)) x = Some q \<and>
            (es_status p = es_status q \<or> can_transition (st_machine st) (es_status p) (es_status q)))))"
proof -
  obtain now e' where e: "e = (now, e')" by (cases e)
  show ?thesis
  proof (cases rule: store_step_cases [of h st now e'])
    case Refused
    then show ?thesis using assms by (auto simp: e)
  next
    case (Written s n check est tok val)
    then show ?thesis using write_effect [OF assms refl, of h now s n check est tok val x] by (auto simp: e)
  qed
qed

section \<open>The store as a versioned store\<close>

type_synonym cas_args = "time \<times> exec_state \<times> string option \<times> int option \<times> validator option"

definition store_version :: "exec_store \<Rightarrow> string \<Rightarrow> int" where
  "store_version st x = map_version (view (st_file st)) x"

definition store_cas :: "host \<Rightarrow> exec_store \<Rightarrow> string \<Rightarrow> int \<Rightarrow> cas_args \<Rightarrow> exec_store option" where
  "store_cas h st x n a =
     (case a of (now, s, est, tok, val) \<Rightarrow>
        if es_execution_id s \<noteq> x then None
        else case compare_and_set h now s n est tok val st of
          (Inl e, _) \<Rightarrow> None
        | (Inr _, st') \<Rightarrow> Some st')"

lemma store_cas_Some:
  assumes "store_inv st" and "store_cas h st x n a = Some st'"
  obtains now s est tok val s' where
    "a = (now, s, est, tok, val)" "es_execution_id s = x" "0 \<le> n"
    "compare_and_set h now s n est tok val st = (Inr s', st')"
    "spec_save (st_machine st) (view (st_file st)) now s (Some n) True est tok val = Inr s'"
    "store_inv st'"
    "view (st_file st') = (view (st_file st))(x \<mapsto> norm_state s')"
    "map_version (view (st_file st)) x = n" "es_version s' = n + 1"
proof -
  obtain now s est tok val where a: "a = (now, s, est, tok, val)" by (metis surj_pair)
  with assms(2) obtain s' where c: "es_execution_id s = x" "0 \<le> n"
      "compare_and_set h now s n est tok val st = (Inr s', st')"
    by (auto simp: store_cas_def compare_and_set_def split: if_splits prod.splits sum.splits)
  then have w: "save_unlocked h now s (Some n) True est tok val st = (Inr s', st')"
    by (simp add: compare_and_set_def)
  show thesis
  proof (cases "spec_save (st_machine st) (view (st_file st)) now s (Some n) True est tok val")
    case (Inl e)
    with save_refines [OF assms(1), of h now s "Some n" True est tok val] w show thesis by simp
  next
    case (Inr s2)
    with save_refines [OF assms(1), of h now s "Some n" True est tok val] w that [OF a c] c(1)
    show thesis using spec_save_Inr(1,3) [OF Inr] by auto
  qed
qed

interpretation store: versioned_store "store_step h" store_inv store_version "store_cas h" for h
proof unfold_locales
  fix st st' :: exec_store and e k and n :: int and a :: cas_args and k'
  show "store_inv st \<Longrightarrow> store_inv (store_step h st e)"
    using store_step_effect by blast
  show "store_inv st \<Longrightarrow> store_version st k \<le> store_version (store_step h st e) k"
    unfolding store_version_def using store_step_effect by blast
  assume st: "store_inv st" and cas: "store_cas h st k n a = Some st'"
  show "store_inv st'" using store_cas_Some [OF st cas] by blast
  show "store_version st k = n"
    using st cas by (rule store_cas_Some) (simp add: store_version_def)
  show "store_version st' k' = (if k' = k then n + 1 else store_version st k')"
    using st cas
    by (rule store_cas_Some)
      (simp add: store_version_def map_version_def)
qed

section \<open>Samples for the witnesses\<close>

definition run1 :: exec_state where
  "run1 = (new_state ''e1'' 5)\<lparr>es_status := ''running'', es_version := 1, es_attempt := 1\<rparr>"

definition sample_store :: exec_store where
  "sample_store =
     \<lparr>st_file = Object [(''e1'', VDict (asdict_state run1))], st_machine = DEFAULT_TRANSITIONS,
      st_audit = Some []\<rparr>"

lemma sample_store_inv: "store_inv sample_store"
  by (auto simp: store_inv_def sample_store_def store_ok_def record_ok_def run1_def new_state_def)

lemma norm_run1: "norm_state run1 = run1"
  by (simp add: norm_state_def run1_def new_state_def)

lemma sample_view: "view (st_file sample_store) = [''e1'' \<mapsto> run1]"
  by (auto simp: sample_store_def view_def norm_run1)

definition done1 :: exec_state where
  "done1 = run1\<lparr>es_status := ''completed'', es_version := 2, es_updated_at := 9\<rparr>"

lemma running_completed: "can_transition DEFAULT_TRANSITIONS ''running'' ''completed''"
  by (simp add: default_can_transition default_edge_def)

lemma sample_spec:
  "spec_save DEFAULT_TRANSITIONS [''e1'' \<mapsto> run1] 9 (run1\<lparr>es_status := ''completed''\<rparr>) (Some 1) True
     (Some ''running'') None None = Inr done1"
  using running_completed
  by (simp add: spec_save_def map_version_def map_status_def run1_def new_state_def done1_def
      validate_iff [THEN iffD2])

section \<open>Properties\<close>

text \<open>
  C3. The file-backed compare-and-set implements the specification over a plain map. On a
  well-formed store it either raises exactly the specified error and changes nothing (neither the
  file nor the audit log), or returns the specified state, whose stored form replaces the entry
  of that execution and of no other, and keeps the store well formed.
\<close>

theorem compare_and_set_refines:
  assumes "store_inv st" and "0 \<le> n"
  shows "case spec_save (st_machine st) (view (st_file st)) now s (Some n) True est tok val of
      Inl e \<Rightarrow> compare_and_set h now s n est tok val st = (Inl e, st)
    | Inr s' \<Rightarrow> \<exists>st'. compare_and_set h now s n est tok val st = (Inr s', st')
        \<and> store_inv st' \<and> view (st_file st') = (view (st_file st))(es_execution_id s \<mapsto> norm_state s')
        \<and> get_state t x st' = Inr (view (st_file st') x)"
proof (cases "spec_save (st_machine st) (view (st_file st)) now s (Some n) True est tok val")
  case (Inl e)
  then show ?thesis
    using save_refines [OF assms(1), of h now s "Some n" True est tok val] assms(2)
    by (simp add: compare_and_set_def)
next
  case (Inr s')
  then show ?thesis
    using save_refines [OF assms(1), of h now s "Some n" True est tok val] assms(2)
    by (auto simp: compare_and_set_def get_state_def get_unlocked_view store_inv_def)
qed

theorem compare_and_set_refines_witness:
  "\<exists>st'. compare_and_set sample_host 9 (run1\<lparr>es_status := ''completed''\<rparr>) 1 (Some ''running'') None None
      sample_store = (Inr done1, st') \<and> get_state 0 ''e2'' st' = Inr None"
proof -
  have m: "st_machine sample_store = DEFAULT_TRANSITIONS" by (simp add: sample_store_def)
  have id: "es_execution_id run1 = ''e1''" by (simp add: run1_def new_state_def)
  show ?thesis
    using compare_and_set_refines [OF sample_store_inv, where n = 1 and now = 9 and h = sample_host
        and s = "run1\<lparr>es_status := ''completed''\<rparr>" and est = "Some ''running''" and tok = None
        and val = None and t = 0 and x = "''e2''"]
    by (auto simp: m sample_view sample_spec id)
qed

text \<open>
  No lost update. After a compare-and-set from version \<open>n\<close> succeeded, no further
  compare-and-set of the same execution from version \<open>n\<close> can succeed: whatever operations of
  the store run in between (saves, transitions and compare-and-sets of any execution), the second
  writer is refused and must read again.
\<close>

theorem no_lost_update_in_store:
  assumes "store_inv st"
    and "compare_and_set h now s n est tok val st = (Inr s', st')"
    and "es_execution_id w = es_execution_id s"
  shows "\<exists>e. fst (compare_and_set h now2 w n est2 tok2 val2 (run (store_step h) st' es)) = Inl e"
proof -
  have "store_cas h st (es_execution_id s) n (now, s, est, tok, val) = Some st'"
    using assms(2) by (simp add: store_cas_def)
  from store.no_lost_update [OF assms(1) this, of es "(now2, w, est2, tok2, val2)"]
  show ?thesis using assms(3) by (auto simp: store_cas_def split: prod.splits sum.splits)
qed

theorem no_lost_update_in_store_witness:
  "\<exists>e. fst (compare_and_set sample_host 11 (run1\<lparr>es_status := ''failed''\<rparr>) 1 None None None
     (run (store_step sample_host) (snd (compare_and_set sample_host 9 (run1\<lparr>es_status := ''completed''\<rparr>) 1
        (Some ''running'') None None sample_store)) [(10, Do_Transition ''e1'' ''completed'' [])])) = Inl e"
proof -
  have m: "st_machine sample_store = DEFAULT_TRANSITIONS" by (simp add: sample_store_def)
  obtain st' where st': "compare_and_set sample_host 9 (run1\<lparr>es_status := ''completed''\<rparr>) 1
      (Some ''running'') None None sample_store = (Inr done1, st')"
    using save_refines [OF sample_store_inv, of sample_host 9 "run1\<lparr>es_status := ''completed''\<rparr>" "Some 1" True
        "Some ''running''" None None]
    by (auto simp: compare_and_set_def m sample_view sample_spec)
  show ?thesis
    unfolding st' snd_conv by (rule no_lost_update_in_store [OF sample_store_inv st']) simp
qed

text \<open>
  C39. Lifecycle safety. Through any sequence of validated operations (compare-and-set,
  \<^verbatim>\<open>transition\<close>, \<^verbatim>\<open>transition_fenced\<close>) an execution stays in the store and its status only
  moves along accepted transitions of the store's machine. Under the default machine a
  completed execution therefore stays completed.
\<close>

theorem status_follows_lifecycle:
  assumes "store_inv st" and "list_all (validated \<circ> snd) es" and "view (st_file st) x = Some p"
  shows "\<exists>q. view (st_file (run (store_step h) st es)) x = Some q
    \<and> lifecycle (st_machine st) (es_status p) (es_status q)"
  using assms
proof (induction es arbitrary: st p)
  case Nil
  then show ?case by (auto intro: lc_refl)
next
  case (Cons e es)
  note eff = store_step_effect [OF Cons.prems(1), of h e x]
  with Cons.prems(2,3) obtain q where q: "view (st_file (store_step h st e)) x = Some q"
      "es_status p = es_status q \<or> can_transition (st_machine st) (es_status p) (es_status q)"
    by auto
  then have "lifecycle (st_machine st) (es_status p) (es_status q)"
    by (metis lc_refl lc_step)
  with Cons.IH [of "store_step h st e" q] eff q(1) Cons.prems(2) show ?case
    by (auto intro: lifecycle_trans)
qed

theorem status_follows_lifecycle_witness:
  "\<exists>q. view (st_file (run (store_step sample_host) sample_store
      [(6, Do_Transition ''e1'' ''completed'' []), (7, Do_Transition ''e1'' ''running'' [])])) ''e1'' = Some q
     \<and> lifecycle (st_machine sample_store) (es_status run1) (es_status q)"
  by (rule status_follows_lifecycle [OF sample_store_inv]) (simp_all add: sample_view)

text \<open>
  Corruption fails closed. When the file is not JSON or its root is no object, every
  operation that names an execution raises \<^verbatim>\<open>ExecutionStoreCorruptionError\<close>, and none of
  them overwrites the file or writes an audit event.
\<close>

theorem corrupt_store_fails_closed:
  assumes "st_file st = Invalid_JSON \<or> st_file st = Not_Object"
    and "es_execution_id s \<noteq> []" and "0 \<le> n"
  shows "raises (save h now s st) ExecutionStoreCorruptionError \<and> snd (save h now s st) = st
    \<and> raises (compare_and_set h now s n est tok val st) ExecutionStoreCorruptionError
    \<and> snd (compare_and_set h now s n est tok val st) = st
    \<and> raises (transition h now x t ups st) ExecutionStoreCorruptionError
    \<and> snd (transition h now x t ups st) = st
    \<and> raises (transition_fenced h now x t n est tok val ups st) ExecutionStoreCorruptionError
    \<and> snd (transition_fenced h now x t n est tok val ups st) = st
    \<and> (\<exists>e. get_state now x st = Inl e \<and> exc_class e = ExecutionStoreCorruptionError)
    \<and> (\<exists>e. resumable now st = Inl e \<and> exc_class e = ExecutionStoreCorruptionError)"
  using assms
  by (auto simp: save_def compare_and_set_def transition_def transition_fenced_def save_unlocked_def
      save_guard_def get_state_def get_unlocked_def resumable_def read_store_def raises_def)

theorem corrupt_store_fails_closed_witness:
  "raises (transition sample_host 0 ''e1'' ''running'' [] (sample_store\<lparr>st_file := Invalid_JSON\<rparr>))
     ExecutionStoreCorruptionError"
  using corrupt_store_fails_closed [where st = "sample_store\<lparr>st_file := Invalid_JSON\<rparr>" and s = run1
      and n = 0 and h = sample_host and now = 0 and x = "''e1''" and t = "''running''" and ups = "[]"]
  by (simp add: run1_def new_state_def)

text \<open>
  One audit event per status change. A successful write appends to the store's log exactly
  when it changes the status of the execution (or creates it): the new line records the statuses
  before and after, the attempt and the error, under an identity of its own. A write that keeps
  the status leaves the log as it is. (The identity must be fresh in the log: it is a digest of
  the event with its time stamp.)
\<close>

theorem audit_records_status_changes:
  assumes "store_inv st" and "st_audit st = Some log"
    and "save_unlocked h now s n check est tok val st = (Inr s', st')"
    and "e = save_event (view (st_file st)) s'"
    and "audit_find log (ae_event_id (with_identity h e)) = None"
  shows "st_audit st' =
      Some (if map_option es_status (view (st_file st) (es_execution_id s)) = Some (es_status s) then log
            else log @ [Good (with_identity h e)])
    \<and> ae_to_status e = es_status s \<and> ae_attempt e = es_attempt s \<and> ae_reason e = es_error s
    \<and> ae_execution_id e = es_execution_id s
    \<and> (\<forall>p. view (st_file st) (es_execution_id s) = Some p \<and> es_status p \<noteq> [] \<longrightarrow>
          ae_from_status e = es_status p)"
proof (cases "spec_save (st_machine st) (view (st_file st)) now s n check est tok val")
  case (Inl err)
  then show ?thesis using save_refines [OF assms(1), of h now s n check est tok val] assms(3) by simp
next
  case (Inr s2)
  then have s2: "s2 = s'" and log': "st_audit st' = spec_audit h (view (st_file st)) s' (st_audit st)"
    using save_refines [OF assms(1), of h now s n check est tok val] assms(3) by auto
  have "audit_ok log" using assms(1,2) by (simp add: store_inv_def)
  then have "snd (audit_append h e log) = log @ [Good (with_identity h e)]"
    using assms(5) by (simp add: audit_append_find)
  then show ?thesis
    using log' assms(2) spec_save_Inr(1) [OF Inr] unfolding s2 assms(4)
    by (auto simp: spec_audit_def save_event_def)
qed

theorem audit_records_status_changes_witness:
  "st_audit (snd (save_unlocked sample_host 9 (run1\<lparr>es_status := ''completed''\<rparr>) (Some 1) True
      (Some ''running'') None None sample_store)) =
     Some [Good (with_identity sample_host (save_event [''e1'' \<mapsto> run1] done1))]"
proof -
  let ?s = "run1\<lparr>es_status := ''completed''\<rparr>"
  have m: "st_machine sample_store = DEFAULT_TRANSITIONS" and a: "st_audit sample_store = Some []"
    by (simp_all add: sample_store_def)
  obtain st' where st': "save_unlocked sample_host 9 ?s (Some 1) True (Some ''running'') None None
      sample_store = (Inr done1, st')"
    using save_refines [OF sample_store_inv, of sample_host 9 ?s "Some 1" True "Some ''running''" None None]
    by (auto simp: m sample_view sample_spec)
  have id: "es_execution_id run1 = ''e1''" "es_status run1 = ''running''" by (simp_all add: run1_def new_state_def)
  show ?thesis
    using audit_records_status_changes [OF sample_store_inv a st' refl]
    by (simp add: st' audit_find_def sample_view id)
qed

section \<open>Resumable executions\<close>

definition is_resumable :: "exec_state \<Rightarrow> bool" where
  "is_resumable s \<longleftrightarrow>
     es_status s = ''running'' \<or> es_status s = ''retrying'' \<or> (es_status s = ''pending'' \<and> 0 < es_attempt s)"

lemma raw_resumable_asdict: "raw_resumable (VDict (asdict_state s)) = Inr (is_resumable s)"
proof -
  have "dget (asdict_state s) ''status'' VNone = VStr (es_status s)"
    and "dget (asdict_state s) ''attempt'' (VInt 0) = VInt (es_attempt s)"
    by (simp_all add: asdict_state_def dget_def)
  then show ?thesis by (simp add: raw_resumable_def is_resumable_def)
qed

lemma resume_raws_states:
  "resume_raws now (map (\<lambda>s. VDict (asdict_state s)) ss) = Inr (map norm_state (filter is_resumable ss))"
  by (induction ss)
    (simp_all add: raw_resumable_asdict dget_result construct_asdict norm_state_def split: bool.split)

lemma records_are_states:
  "\<forall>p \<in> set d. record_ok p \<Longrightarrow>
     \<exists>ss. d = map (\<lambda>s. (es_execution_id s, VDict (asdict_state s))) ss"
proof (induction d)
  case Nil
  then show ?case by simp
next
  case (Cons p d)
  then obtain ss s where "d = map (\<lambda>s. (es_execution_id s, VDict (asdict_state s))) ss"
    and "p = (es_execution_id s, VDict (asdict_state s))"
    by (auto simp: record_ok_def) (metis prod.collapse)
  then show ?case by (intro exI [of _ "s # ss"]) simp
qed

lemma view_of_states:
  assumes "distinct (map es_execution_id ss)"
  shows "view (Object (map (\<lambda>s. (es_execution_id s, VDict (asdict_state s))) ss)) x = Some t
    \<longleftrightarrow> (\<exists>s \<in> set ss. es_execution_id s = x \<and> norm_state s = t)"
proof -
  let ?d = "map (\<lambda>s. (es_execution_id s, VDict (asdict_state s))) ss"
  have d: "distinct (map fst ?d)" using assms by (simp add: o_def)
  have there: "map_of ?d (es_execution_id s) = Some (VDict (asdict_state s))" if "s \<in> set ss" for s
    using that by (intro map_of_is_SomeI [OF d]) auto
  show ?thesis
  proof
    assume v: "view (Object ?d) x = Some t"
    then obtain raw where raw: "map_of ?d x = Some raw" by (auto simp: view_def split: option.splits)
    then obtain s where s: "s \<in> set ss" "es_execution_id s = x" "raw = VDict (asdict_state s)"
      using map_of_SomeD [OF raw] by auto
    with v raw have "norm_state s = t" by (simp add: view_def)
    with s show "\<exists>s \<in> set ss. es_execution_id s = x \<and> norm_state s = t" by blast
  next
    assume "\<exists>s \<in> set ss. es_execution_id s = x \<and> norm_state s = t"
    then obtain s where "s \<in> set ss" "es_execution_id s = x" "norm_state s = t" by blast
    with there [of s] show "view (Object ?d) x = Some t" by (simp add: view_def)
  qed
qed

lemma resumable_spec:
  assumes "store_ok (st_file st)"
  shows "\<exists>ss. resumable now st = Inr ss \<and> distinct (map es_execution_id ss)
    \<and> (\<forall>s. s \<in> set ss \<longleftrightarrow> is_resumable s \<and> view (st_file st) (es_execution_id s) = Some s)"
proof -
  obtain d where f: "st_file st = Object d" and d: "distinct (map fst d)" "\<forall>p \<in> set d. record_ok p"
    using assms by (auto simp: store_ok_def split: json_file.splits)
  obtain ss where ss: "d = map (\<lambda>s. (es_execution_id s, VDict (asdict_state s))) ss"
    using records_are_states [OF d(2)] by blast
  have dist: "distinct (map es_execution_id ss)" using d(1) by (simp add: ss o_def)
  have nr: "is_resumable (norm_state s) = is_resumable s" for s by (simp add: is_resumable_def)
  have "resumable now st = Inr (map norm_state (filter is_resumable ss))"
    using resume_raws_states [of now ss] by (simp add: resumable_def read_store_def f ss o_def)
  moreover have "distinct (map es_execution_id (map norm_state (filter is_resumable ss)))"
    using dist by (simp add: o_def distinct_map_filter)
  moreover have "s \<in> set (map norm_state (filter is_resumable ss)) \<longleftrightarrow>
      is_resumable s \<and> view (st_file st) (es_execution_id s) = Some s" for s
    unfolding f ss view_of_states [OF dist] by (auto simp: nr)
  ultimately show ?thesis by blast
qed

lemma resumable_states:
  assumes "store_ok (st_file st)" and "resumable now st = Inr ss"
  shows "distinct (map es_execution_id ss)"
    and "s \<in> set ss \<longleftrightarrow> is_resumable s \<and> view (st_file st) (es_execution_id s) = Some s"
  using resumable_spec [OF assms(1), of now] assms(2) by auto

text \<open>
  Recovery finds exactly the interrupted work. On a well-formed store \<open>resumable\<close> never
  raises and returns, each once, the stored states that are running or retrying, or pending after
  a first attempt; completed, failed and untouched executions are never returned.
\<close>

theorem resumable_exact:
  assumes "store_ok (st_file st)"
  shows "\<exists>ss. resumable now st = Inr ss \<and> distinct (map es_execution_id ss)
    \<and> (\<forall>s. s \<in> set ss \<longleftrightarrow> is_resumable s \<and> view (st_file st) (es_execution_id s) = Some s)"
  by (rule resumable_spec [OF assms])

theorem resumable_exact_witness:
  "\<exists>ss. resumable 0 sample_store = Inr ss \<and> run1 \<in> set ss"
proof -
  have "store_ok (st_file sample_store)" using sample_store_inv by (simp add: store_inv_def)
  from resumable_exact [OF this, of 0]
  show ?thesis by (auto simp: sample_view run1_def new_state_def is_resumable_def)
qed

end
