(* ===== verification/Lease.thy ===== *)
theory Lease
  imports Interfaces
begin

text \<open>
  \<^verbatim>\<open>runtime/execution_lease.py\<close>: execution leases with fencing tokens, in a JSON file that
  maps an execution to its lease. Every public operation runs under the lease lock and is one step
  here; the argument \<open>now\<close> is the instant it reads from the clock.
\<close>

record lease =
  ls_execution_id :: string
  ls_owner_id :: string
  ls_expires_at :: time
  ls_fencing_token :: int

type_synonym lease_table = "(string \<times> lease) list"
type_synonym lease_file = "lease_table json_file"

definition read_leases :: "lease_file \<Rightarrow> lease_table result" where
  "read_leases f =
     (case f of
        Missing \<Rightarrow> Inl (Exc LeaseCorruptionError ''invalid execution lease store'')
      | Invalid_JSON \<Rightarrow> Inl (Exc LeaseCorruptionError ''invalid execution lease store'')
      | Not_Object \<Rightarrow> Inl (Exc LeaseCorruptionError ''execution lease store must contain an object'')
      | Object d \<Rightarrow> Inr d)"

text \<open>\<^verbatim>\<open>self.ttl_seconds=max(1,ttl_seconds)\<close>\<close>

definition lease_ttl :: "int \<Rightarrow> int" where
  "lease_ttl ttl = max 1 ttl"

definition lease_store ::
    "int \<Rightarrow> string \<Rightarrow> string \<Rightarrow> lease_table \<Rightarrow> time \<Rightarrow> int \<Rightarrow> lease \<times> lease_file" where
  "lease_store ttl x owner d now tok =
     (let l = \<lparr>ls_execution_id = x, ls_owner_id = owner,
               ls_expires_at = now + seconds ttl, ls_fencing_token = tok\<rparr>
      in (l, Object (dset x l d)))"

definition acquire ::
    "int \<Rightarrow> string \<Rightarrow> string \<Rightarrow> time \<Rightarrow> lease_file \<Rightarrow> lease option result \<times> lease_file" where
  "acquire ttl x owner now f =
     (if x = [] \<or> owner = [] then
        (Inl (Exc ValueError ''execution_id and owner_id are required''), f)
      else case read_leases f of
        Inl e \<Rightarrow> (Inl e, f)
      | Inr d \<Rightarrow>
          (case map_of d x of
             Some cur \<Rightarrow>
               if ls_expires_at cur > now \<and> ls_owner_id cur \<noteq> owner then (Inr None, f)
               else (let (l, f') = lease_store ttl x owner d now (ls_fencing_token cur + 1)
                     in (Inr (Some l), f'))
           | None \<Rightarrow> (let (l, f') = lease_store ttl x owner d now 1 in (Inr (Some l), f'))))"

text \<open>\<open>token_matches\<close>: \<^verbatim>\<open>fencing_token is None or current["fencing_token"]==fencing_token\<close>\<close>

definition token_matches :: "int option \<Rightarrow> lease \<Rightarrow> bool" where
  "token_matches tok cur = (case tok of None \<Rightarrow> True | Some t \<Rightarrow> ls_fencing_token cur = t)"

definition renew ::
    "int \<Rightarrow> string \<Rightarrow> string \<Rightarrow> int option \<Rightarrow> time \<Rightarrow> lease_file \<Rightarrow> lease option result \<times> lease_file" where
  "renew ttl x owner tok now f =
     (case read_leases f of
        Inl e \<Rightarrow> (Inl e, f)
      | Inr d \<Rightarrow>
          (case map_of d x of
             None \<Rightarrow> (Inr None, f)
           | Some cur \<Rightarrow>
               if ls_owner_id cur \<noteq> owner \<or> \<not> token_matches tok cur \<or> ls_expires_at cur \<le> now
               then (Inr None, f)
               else (let (l, f') = lease_store ttl x owner d now (ls_fencing_token cur)
                     in (Inr (Some l), f'))))"

definition is_owner_unlocked :: "string \<Rightarrow> string \<Rightarrow> int option \<Rightarrow> time \<Rightarrow> lease_file \<Rightarrow> bool result" where
  "is_owner_unlocked x owner tok now f =
     (case read_leases f of
        Inl e \<Rightarrow> Inl e
      | Inr d \<Rightarrow> Inr (case map_of d x of
          None \<Rightarrow> False
        | Some cur \<Rightarrow> ls_owner_id cur = owner \<and> token_matches tok cur \<and> ls_expires_at cur > now))"

definition is_owner :: "string \<Rightarrow> string \<Rightarrow> int option \<Rightarrow> time \<Rightarrow> lease_file \<Rightarrow> bool result" where
  "is_owner x owner tok now f = is_owner_unlocked x owner tok now f"

definition release ::
    "string \<Rightarrow> string \<Rightarrow> int option \<Rightarrow> time \<Rightarrow> lease_file \<Rightarrow> bool result \<times> lease_file" where
  "release x owner tok now f =
     (case read_leases f of
        Inl e \<Rightarrow> (Inl e, f)
      | Inr d \<Rightarrow>
          (case map_of d x of
             None \<Rightarrow> (Inr False, f)
           | Some cur \<Rightarrow>
               if ls_owner_id cur \<noteq> owner \<or> \<not> token_matches tok cur then (Inr False, f)
               else (Inr True, Object (dset x (cur\<lparr>ls_owner_id := [], ls_expires_at := now\<rparr>) d))))"

section \<open>Operations as labelled steps\<close>

datatype lease_op =
    Op_Acquire string string
  | Op_Renew string string "int option"
  | Op_Release string string "int option"

fun lease_step :: "int \<Rightarrow> lease_file \<Rightarrow> time \<times> lease_op \<Rightarrow> lease_file" where
  "lease_step ttl f (now, Op_Acquire x owner) = snd (acquire ttl x owner now f)"
| "lease_step ttl f (now, Op_Renew x owner tok) = snd (renew ttl x owner tok now f)"
| "lease_step ttl f (now, Op_Release x owner tok) = snd (release x owner tok now f)"

text \<open>
  The invariant of the file: an object whose entries carry the key they are stored under, with
  tokens from 1 up.
\<close>

definition lease_inv :: "lease_file \<Rightarrow> bool" where
  "lease_inv f \<longleftrightarrow>
     (case f of Object d \<Rightarrow>
        (\<forall>x l. map_of d x = Some l \<longrightarrow> ls_execution_id l = x \<and> 1 \<le> ls_fencing_token l)
      | _ \<Rightarrow> False)"

text \<open>\<open>lease_of\<close> reads the record of an execution, \<open>token_of\<close> its token (0 before the first lease).\<close>

definition lease_of :: "lease_file \<Rightarrow> string \<Rightarrow> lease option" where
  "lease_of f x = (case f of Object d \<Rightarrow> map_of d x | _ \<Rightarrow> None)"

definition token_of :: "lease_file \<Rightarrow> string \<Rightarrow> int" where
  "token_of f x = (case lease_of f x of None \<Rightarrow> 0 | Some l \<Rightarrow> ls_fencing_token l)"

definition holds :: "lease_file \<Rightarrow> string \<Rightarrow> string \<Rightarrow> int \<Rightarrow> time \<Rightarrow> bool" where
  "holds f x owner t now \<longleftrightarrow> is_owner x owner (Some t) now f = Inr True \<and> owner \<noteq> []"

lemmas lease_ops = acquire_def renew_def release_def lease_store_def read_leases_def Let_def

lemma lease_inv_Object: "lease_inv f \<Longrightarrow> \<exists>d. f = Object d"
  by (cases f) (auto simp: lease_inv_def)

lemma lease_step_inv: "lease_inv f \<Longrightarrow> lease_inv (lease_step ttl f l)"
  by (cases "(ttl, f, l)" rule: lease_step.cases)
    (fastforce simp: lease_ops lease_inv_def split: json_file.splits option.splits if_splits)+

text \<open>What one operation does to the record of any execution.\<close>

fun op_key :: "lease_op \<Rightarrow> string" where
  "op_key (Op_Acquire x _) = x"
| "op_key (Op_Renew x _ _) = x"
| "op_key (Op_Release x _ _) = x"

fun op_owner :: "lease_op \<Rightarrow> string" where
  "op_owner (Op_Acquire _ w) = w"
| "op_owner (Op_Renew _ w _) = w"
| "op_owner (Op_Release _ w _) = w"

lemma lease_step_other: "x \<noteq> op_key l \<Longrightarrow> lease_of (lease_step ttl f (now, l)) x = lease_of f x"
  by (cases l) (auto simp: lease_ops lease_of_def split: json_file.splits option.splits)

lemma lease_step_token_mono:
  assumes "lease_inv f"
  shows "token_of f x \<le> token_of (lease_step ttl f (now, l)) x"
proof -
  obtain d where "f = Object d" using assms lease_inv_Object by blast
  with assms show ?thesis
    by (cases l) (auto simp: lease_ops token_of_def lease_of_def lease_inv_def split: option.splits)
qed

lemma holds_iff:
  "holds f x w t now \<longleftrightarrow>
     (\<exists>l. lease_of f x = Some l \<and> ls_owner_id l = w \<and> ls_fencing_token l = t \<and> now < ls_expires_at l)
     \<and> w \<noteq> [] \<and> (\<exists>d. f = Object d)"
  by (auto simp: holds_def is_owner_def is_owner_unlocked_def read_leases_def lease_of_def
      token_matches_def split: json_file.splits option.splits)

interpretation leases: fencing_authority "lease_step ttl" lease_inv token_of holds for ttl
proof unfold_locales
  fix f l k
  show "lease_inv f \<Longrightarrow> lease_inv (lease_step ttl f l)" by (rule lease_step_inv)
  show "lease_inv f \<Longrightarrow> token_of f k \<le> token_of (lease_step ttl f l) k"
    using lease_step_token_mono by (cases l) simp
qed (auto simp: holds_iff token_of_def)

section \<open>Behaviour of acquire\<close>

lemma acquire_granted:
  assumes "lease_inv f" and "acquire ttl x w now f = (Inr (Some l), f')"
  shows "lease_of f' x = Some l \<and> ls_owner_id l = w \<and> ls_fencing_token l = token_of f x + 1
    \<and> ls_expires_at l = now + seconds ttl \<and> w \<noteq> [] \<and> lease_inv f'"
proof -
  obtain d where d: "f = Object d" using assms lease_inv_Object by blast
  have "lease_inv f'"
    using lease_step_inv [OF assms(1), of ttl "(now, Op_Acquire x w)"] assms(2) by simp
  then show ?thesis
    using assms(2) unfolding d
    by (auto simp: lease_ops lease_of_def token_of_def split: if_splits option.splits)
qed

lemma holds_acquired:
  assumes "lease_inv f" and "acquire ttl x w now f = (Inr (Some l), f')" and "0 < ttl"
    and "now' < now + seconds ttl"
  shows "holds f' x w (ls_fencing_token l) now'"
  using acquire_granted [OF assms(1,2)] lease_inv_Object assms(4) by (auto simp: holds_iff)

lemma lease_step_foreign:
  assumes "lease_of f x = Some l" and "now < ls_expires_at l" and "op_owner e \<noteq> ls_owner_id l"
  shows "lease_of (lease_step ttl f (now, e)) x = Some l"
proof (cases "x = op_key e")
  case True
  with assms show ?thesis
    by (cases e) (auto simp: lease_ops lease_of_def split: json_file.splits)
next
  case False
  with assms(1) show ?thesis by (simp add: lease_step_other)
qed

lemma run_foreign:
  assumes "lease_of f x = Some l"
    and "\<forall>(now, e) \<in> set es. op_owner e \<noteq> ls_owner_id l \<and> now < ls_expires_at l"
  shows "lease_of (run (lease_step ttl) f es) x = Some l"
  using assms
proof (induction es arbitrary: f)
  case Nil
  then show ?case by simp
next
  case (Cons p es)
  obtain now e where "p = (now, e)" by (cases p)
  with Cons show ?case by (simp add: lease_step_foreign)
qed

lemma acquire_refused:
  assumes "lease_inv f" and "lease_of f x = Some l" and "now < ls_expires_at l" and "w \<noteq> ls_owner_id l"
    and "x \<noteq> []" and "w \<noteq> []"
  shows "acquire ttl x w now f = (Inr None, f)"
  using assms lease_inv_Object [OF assms(1)] by (auto simp: lease_ops lease_of_def)

lemma acquire_free:
  assumes "lease_inv f" and "x \<noteq> []" and "w \<noteq> []"
    and "\<forall>l. lease_of f x = Some l \<longrightarrow> ls_expires_at l \<le> now \<or> ls_owner_id l = w"
  shows "\<exists>l f'. acquire ttl x w now f = (Inr (Some l), f')"
  using assms lease_inv_Object [OF assms(1)]
  by (auto simp: lease_ops lease_of_def split: option.splits)

lemma release_expires:
  assumes "release x w tok now f = (Inr True, f')"
  shows "\<exists>l. lease_of f' x = Some l \<and> ls_owner_id l = [] \<and> ls_expires_at l = now
    \<and> token_of f' x = token_of f x"
  using assms
  by (auto simp: lease_ops lease_of_def token_of_def split: json_file.splits option.splits if_splits)

section \<open>Sample leases for the witnesses\<close>

definition lease_a :: lease where
  "lease_a = \<lparr>ls_execution_id = ''e1'', ls_owner_id = ''a'', ls_expires_at = 60000000,
              ls_fencing_token = 1\<rparr>"

definition lease_b :: lease where
  "lease_b = \<lparr>ls_execution_id = ''e1'', ls_owner_id = ''b'', ls_expires_at = 130000000,
              ls_fencing_token = 2\<rparr>"

lemma sample_lease_inv: "lease_inv (Object [(''e1'', lease_a)])"
  by (simp add: lease_inv_def lease_a_def)

lemma sample_lease_of: "lease_of (Object [(''e1'', lease_a)]) ''e1'' = Some lease_a"
  by (simp add: lease_of_def)

lemma sample_acquire:
  "acquire 60 ''e1'' ''b'' 70000000 (Object [(''e1'', lease_a)]) =
     (Inr (Some lease_b), Object [(''e1'', lease_b)])"
  by (simp add: lease_ops lease_a_def lease_b_def seconds_def)

section \<open>Properties\<close>

text \<open>
  C6. Fencing. Once a lease has been granted with token \<open>t\<close>, a smaller token never validates
  again: whatever operations any owners run afterwards, at whatever instants (clocks may even go
  back), no owner holds the execution with that smaller token.
\<close>

theorem stale_token_fenced_forever:
  assumes "lease_inv f" and "acquire ttl x w now f = (Inr (Some l), f')" and "t < ls_fencing_token l"
  shows "\<not> holds (run (lease_step ttl') f' es) x w' t now'"
proof -
  have "lease_inv f'" and "token_of f' x = ls_fencing_token l"
    using acquire_granted [OF assms(1,2)] by (auto simp: token_of_def)
  with assms(3) show ?thesis by (simp add: leases.stale_forever)
qed

theorem stale_token_fenced_forever_witness:
  "\<not> holds (run (lease_step 60) (Object [(''e1'', lease_b)])
      [(71000000, Op_Renew ''e1'' ''a'' (Some 1)), (140000000, Op_Acquire ''e1'' ''a'')]) ''e1'' ''a'' 1 140000001"
  by (rule stale_token_fenced_forever [OF sample_lease_inv sample_acquire]) (simp add: lease_b_def)

text \<open>
  No theft. While a lease has not expired, the operations of other owners cannot change it:
  after any number of them, at instants before the expiry, the record is the same, the owner still
  holds it, and an acquire by another owner is refused without touching the file.
\<close>

theorem live_lease_protected:
  assumes "lease_inv f" and "lease_of f x = Some l" and "x \<noteq> []" and "ls_owner_id l \<noteq> []"
    and "\<forall>(t, e) \<in> set es. op_owner e \<noteq> ls_owner_id l \<and> t < ls_expires_at l"
    and "now < ls_expires_at l" and "w \<noteq> ls_owner_id l" and "w \<noteq> []"
    and "f' = run (lease_step ttl) f es"
  shows "lease_of f' x = Some l \<and> holds f' x (ls_owner_id l) (ls_fencing_token l) now
    \<and> acquire ttl x w now f' = (Inr None, f')"
proof -
  have rec: "lease_of f' x = Some l" unfolding assms(9) by (rule run_foreign [OF assms(2,5)])
  have inv: "lease_inv f'" unfolding assms(9) by (rule leases.run_inv [OF assms(1)])
  show ?thesis
    using rec acquire_refused [OF inv rec assms(6,7,3,8)] assms(4,6) lease_inv_Object [OF inv]
    by (simp add: holds_iff)
qed

theorem live_lease_protected_witness:
  "acquire 60 ''e1'' ''b'' 59999999 (run (lease_step 60) (Object [(''e1'', lease_a)])
     [(1, Op_Acquire ''e1'' ''b''), (2, Op_Release ''e1'' ''c'' None)]) =
   (Inr None, run (lease_step 60) (Object [(''e1'', lease_a)])
     [(1, Op_Acquire ''e1'' ''b''), (2, Op_Release ''e1'' ''c'' None)])"
  using live_lease_protected [OF sample_lease_inv sample_lease_of,
      of "[(1, Op_Acquire ''e1'' ''b''), (2, Op_Release ''e1'' ''c'' None)]" 59999999 "''b''" _ 60]
  by (simp add: lease_a_def)

text \<open>
  Tokens identify grants. Two grants of the same execution, with any operations in
  between, carry different tokens: the later one is strictly larger. A grant is for the asking
  owner, holds until its expiry and not from then on.
\<close>

theorem grants_strictly_ordered:
  assumes "lease_inv f" and "acquire ttl x w now f = (Inr (Some l), f')"
    and "acquire ttl x w2 now2 (run (lease_step ttl') f' es) = (Inr (Some l2), f'')"
  shows "ls_fencing_token l < ls_fencing_token l2 \<and> ls_owner_id l = w
    \<and> (holds f' x w (ls_fencing_token l) t \<longleftrightarrow> t < now + seconds ttl)"
proof -
  note g = acquire_granted [OF assms(1,2)]
  have "token_of f' x = ls_fencing_token l" using g by (simp add: token_of_def)
  moreover have "lease_inv (run (lease_step ttl') f' es)" using g leases.run_inv by blast
  ultimately have "ls_fencing_token l < ls_fencing_token l2"
    using acquire_granted [OF _ assms(3)] leases.run_tok_mono [of f' x ttl' es] g by auto
  with g show ?thesis using lease_inv_Object by (auto simp: holds_iff)
qed

theorem grants_strictly_ordered_witness:
  "ls_fencing_token lease_b < 3
   \<and> (holds (Object [(''e1'', lease_b)]) ''e1'' ''b'' 2 129999999)"
proof -
  let ?l = "\<lparr>ls_execution_id = ''e1'', ls_owner_id = ''b'', ls_expires_at = 140000000, ls_fencing_token = 3\<rparr>"
  have "acquire 60 ''e1'' ''b'' 80000000 (run (lease_step 60) (Object [(''e1'', lease_b)]) []) =
      (Inr (Some ?l), Object [(''e1'', ?l)])"
    by (simp add: lease_ops lease_b_def seconds_def)
  from grants_strictly_ordered [OF sample_lease_inv sample_acquire this, of 129999999]
  show ?thesis by (simp add: lease_b_def seconds_def)
qed

text \<open>
  Availability. An execution whose lease is absent, expired, released or already the
  caller's can be acquired: \<open>acquire\<close> then always grants a lease, which the caller holds at
  once when the time to live is positive (the store's is at least one second). In particular a
  successful release frees the execution, and the freed lease has no holder.
\<close>

theorem free_lease_acquirable:
  assumes "lease_inv f" and "x \<noteq> []" and "w \<noteq> []"
    and "(\<forall>l. lease_of f x = Some l \<longrightarrow> ls_expires_at l \<le> now \<or> ls_owner_id l = w)
       \<or> (\<exists>g w0 tok t0. release x w0 tok t0 g = (Inr True, f) \<and> t0 \<le> now)"
  shows "\<exists>l f'. acquire (lease_ttl n) x w now f = (Inr (Some l), f') \<and> holds f' x w (ls_fencing_token l) now"
proof -
  have "\<forall>l. lease_of f x = Some l \<longrightarrow> ls_expires_at l \<le> now \<or> ls_owner_id l = w"
    using assms(4) release_expires by fastforce
  then obtain l f' where "acquire (lease_ttl n) x w now f = (Inr (Some l), f')"
    using acquire_free [OF assms(1-3)] by blast
  then show ?thesis
    using holds_acquired [OF assms(1)] by (auto simp: lease_ttl_def)
qed

theorem free_lease_acquirable_witness:
  "\<exists>l f'. acquire (lease_ttl 0) ''e1'' ''b'' 60000000 (Object [(''e1'', lease_a)]) = (Inr (Some l), f')
     \<and> holds f' ''e1'' ''b'' (ls_fencing_token l) 60000000"
  by (rule free_lease_acquirable [OF sample_lease_inv]) (simp_all add: sample_lease_of, simp add: lease_a_def)

end
