(* ===== verification/Journal.thy ===== *)
theory Journal
  imports Execution_Store Lease
begin

text \<open>
  The commit journal of \<^verbatim>\<open>runtime/execution_commit.py\<close>: intended transitions, one JSON object
  per line, with a sequence number and a checksum. Unreadable lines are copied to a quarantine file
  while reading. Each operation here runs under the journal lock. A line stands for its text: two
  lines are the same text exactly when they are the same value of the model.
\<close>

record exec_commit =
  cm_commit_id :: string
  cm_execution_id :: string
  cm_from_status :: string
  cm_to_status :: string
  cm_attempt :: int
  cm_checkpoint :: pyval
  cm_reason :: "string option"
  cm_created_at :: time
  cm_correlation_id :: "string option"
  cm_status :: string
  cm_sequence :: int
  cm_checksum :: string

type_synonym journal_line = "pyval line"
type_synonym journal_file = "journal_line list"

record quarantine_entry =
  q_reason :: string
  q_line :: journal_line
  q_at :: time

type_synonym quarantine_file = "quarantine_entry line list"

definition commit_payload :: "exec_commit \<Rightarrow> pydict" where
  "commit_payload c =
     [(''commit_id'', VStr (cm_commit_id c)), (''execution_id'', VStr (cm_execution_id c)),
      (''from_status'', VStr (cm_from_status c)), (''to_status'', VStr (cm_to_status c)),
      (''attempt'', VInt (cm_attempt c)), (''checkpoint'', asdict_val (cm_checkpoint c)),
      (''reason'', opt_str (cm_reason c)), (''created_at'', VStamp (cm_created_at c)),
      (''correlation_id'', opt_str (cm_correlation_id c)), (''status'', VStr (cm_status c)),
      (''sequence'', VInt (cm_sequence c))]"

definition asdict_commit :: "exec_commit \<Rightarrow> pydict" where
  "asdict_commit c = commit_payload c @ [(''checksum'', VStr (cm_checksum c))]"

text \<open>A commit rebuilt from its dictionary: nested dataclasses in the checkpoint become dictionaries.\<close>

definition rebuilt :: "exec_commit \<Rightarrow> exec_commit" where
  "rebuilt c = c\<lparr>cm_checkpoint := asdict_val (cm_checkpoint c)\<rparr>"

definition with_integrity :: "host \<Rightarrow> exec_commit \<Rightarrow> exec_commit" where
  "with_integrity h c =
     (if cm_checksum c \<noteq> [] then c
      else (rebuilt c)\<lparr>cm_checksum := sha256_hex h (json_dumps h (VDict (commit_payload c)))\<rparr>)"

section \<open>Decoding\<close>

text \<open>
  \<^verbatim>\<open>int(x)\<close>: of a string, its decimal digits after an optional sign (white space and
  underscores, which Python allows, are not modelled).
\<close>

definition is_digit :: "char \<Rightarrow> bool" where
  "is_digit c \<longleftrightarrow> 48 \<le> (of_char c :: nat) \<and> (of_char c :: nat) \<le> 57"

definition parse_nat :: "string \<Rightarrow> int option" where
  "parse_nat s =
     (if s \<noteq> [] \<and> list_all is_digit s
      then Some (foldl (\<lambda>n c. 10 * n + int (of_char c) - 48) 0 s) else None)"

fun parse_int :: "string \<Rightarrow> int option" where
  "parse_int (c # s) =
     (if c = CHR ''-'' then map_option uminus (parse_nat s)
      else if c = CHR ''+'' then parse_nat s else parse_nat (c # s))"
| "parse_int [] = None"

fun py_int :: "pyval \<Rightarrow> int result" where
  "py_int (VInt n) = Inr n"
| "py_int (VBool b) = Inr (if b then 1 else 0)"
| "py_int (VStr s) =
     (case parse_int s of Some n \<Rightarrow> Inr n | None \<Rightarrow> Inl (Exc ValueError ''invalid literal for int()''))"
| "py_int (VStamp t) = Inl (Exc ValueError ''invalid literal for int()'')"
| "py_int _ = Inl (Exc TypeError ''int() argument'')"

definition commit_fields :: "string list" where
  "commit_fields =
     [''commit_id'', ''execution_id'', ''from_status'', ''to_status'', ''attempt'', ''checkpoint'',
      ''reason'', ''created_at'', ''correlation_id'', ''status'', ''sequence'', ''checksum'']"

definition commit_required :: "string list" where
  "commit_required = [''commit_id'', ''execution_id'', ''from_status'', ''to_status'', ''attempt'']"

text \<open>
  \<^verbatim>\<open>ExecutionCommit(**raw)\<close>. As for execution states, a field of another type than declared
  is rejected with \<^verbatim>\<open>TypeError\<close> by the typed model.
\<close>

definition construct_commit :: "time \<Rightarrow> pydict \<Rightarrow> exec_commit result" where
  "construct_commit now d =
     (if \<not> list_all (List.member commit_fields) (map fst d)
         \<or> list_ex (\<lambda>k. map_of d k = None) commit_required then
        Inl (Exc TypeError ''ExecutionCommit() arguments'')
      else
        case (as_str (dget d ''commit_id'' VNone), as_str (dget d ''execution_id'' VNone),
              as_str (dget d ''from_status'' VNone), as_str (dget d ''to_status'' VNone),
              as_int (dget d ''attempt'' VNone), as_opt_str (dget d ''reason'' VNone),
              as_time (dget d ''created_at'' (VStamp now)), as_opt_str (dget d ''correlation_id'' VNone),
              as_str (dget d ''status'' (VStr ''pending'')), as_int (dget d ''sequence'' (VInt 0)),
              as_str (dget d ''checksum'' (VStr []))) of
          (Some i, Some x, Some f, Some t, Some a, Some r, Some u, Some c, Some s, Some n, Some k) \<Rightarrow>
            Inr \<lparr>cm_commit_id = i, cm_execution_id = x, cm_from_status = f, cm_to_status = t,
                 cm_attempt = a, cm_checkpoint = dget d ''checkpoint'' VNone, cm_reason = r,
                 cm_created_at = u, cm_correlation_id = c, cm_status = s, cm_sequence = n,
                 cm_checksum = k\<rparr>
        | _ \<Rightarrow> Inl (Exc TypeError ''ExecutionCommit() field types''))"

definition setdefault :: "string \<Rightarrow> pyval \<Rightarrow> pydict \<Rightarrow> pydict" where
  "setdefault k v d = (case map_of d k of None \<Rightarrow> dset k v d | Some _ \<Rightarrow> d)"

section \<open>Quarantine\<close>

fun same_entry :: "journal_line \<Rightarrow> string \<Rightarrow> quarantine_entry line \<Rightarrow> bool" where
  "same_entry ln reason (Good r) = (q_line r = ln \<and> q_reason r = reason)"
| "same_entry ln reason _ = False"

definition quarantine :: "time \<Rightarrow> journal_line \<Rightarrow> string \<Rightarrow> quarantine_file \<Rightarrow> quarantine_file" where
  "quarantine now ln reason q =
     (if list_ex (same_entry ln reason) q then q
      else q @ [Good \<lparr>q_reason = reason, q_line = ln, q_at = now\<rparr>])"

section \<open>Reading the journal\<close>

text \<open>
  What one line that is not blank amounts to, when \<open>expected\<close> is the next sequence number:
  a commit; a line to quarantine, with the reason and the next expected number; or an exception
  that leaves the loop, with the reason quarantined before it (if any). The last case is a line
  that is JSON but no object (\<^verbatim>\<open>raw.get\<close> raises \<^verbatim>\<open>AttributeError\<close>, which is not
  caught) and an object whose \<^verbatim>\<open>sequence\<close> is no integer (\<^verbatim>\<open>int\<close> raises again inside
  the handler).
\<close>

datatype line_outcome =
    Accept exec_commit
  | Skip string int
  | Abort exc "string option"

definition read_line :: "host \<Rightarrow> time \<Rightarrow> int \<Rightarrow> journal_line \<Rightarrow> line_outcome" where
  "read_line h now expected ln =
     (case ln of
        Good (VDict d) \<Rightarrow>
          (case py_int (dget d ''sequence'' (VInt expected)) of
             Inl e \<Rightarrow> Abort e (Some (exc_msg e))
           | Inr sequence \<Rightarrow>
               (let raw = setdefault ''sequence'' (VInt sequence) (setdefault ''status'' (VStr ''pending'') d);
                    next = max (expected + 1) (sequence + 1)
                in case construct_commit now raw of
                     Inl e \<Rightarrow> Skip (exc_msg e) next
                   | Inr c \<Rightarrow>
                       (if cm_sequence c \<noteq> expected \<or> cm_checksum (with_integrity h c) \<noteq> cm_checksum c
                        then Skip (''invalid journal integrity at sequence '' @ str_int expected) next
                        else Accept c)))
      | Good _ \<Rightarrow> Abort (Exc AttributeError ''no attribute get'') None
      | _ \<Rightarrow> Skip ''invalid JSON'' (max (expected + 1) 1))"

fun read_journal_from ::
    "host \<Rightarrow> time \<Rightarrow> int \<Rightarrow> journal_file \<Rightarrow> quarantine_file \<Rightarrow> exec_commit list result \<times> quarantine_file" where
  "read_journal_from h now expected [] q = (Inr [], q)"
| "read_journal_from h now expected (Blank t # ls) q = read_journal_from h now expected ls q"
| "read_journal_from h now expected (ln # ls) q =
     (case read_line h now expected ln of
        Abort e None \<Rightarrow> (Inl e, q)
      | Abort e (Some reason) \<Rightarrow> (Inl e, quarantine now ln reason q)
      | Skip reason next \<Rightarrow> read_journal_from h now next ls (quarantine now ln reason q)
      | Accept c \<Rightarrow>
          (let (r, q') = read_journal_from h now (cm_sequence c + 1) ls q
           in (map_sum id (Cons c) r, q')))"

definition read_journal ::
    "host \<Rightarrow> time \<Rightarrow> journal_file \<Rightarrow> quarantine_file \<Rightarrow> exec_commit list result \<times> quarantine_file" where
  "read_journal h now j q = read_journal_from h now 1 j q"

definition pending_commits ::
    "host \<Rightarrow> time \<Rightarrow> bool \<Rightarrow> journal_file \<Rightarrow> quarantine_file \<Rightarrow> exec_commit list result \<times> quarantine_file" where
  "pending_commits h now all_statuses j q =
     (let (r, q') = read_journal h now j q
      in (map_sum id (\<lambda>cs. if all_statuses then cs else filter (\<lambda>c. cm_status c = ''pending'') cs) r, q'))"

section \<open>Writing the journal\<close>

text \<open>\<^verbatim>\<open>_next_sequence_unlocked\<close>: lines that give no number are passed over.\<close>

definition line_sequence :: "journal_line \<Rightarrow> int" where
  "line_sequence ln =
     (case ln of
        Good (VDict d) \<Rightarrow> (case py_int (dget d ''sequence'' (VInt 0)) of Inr n \<Rightarrow> n | Inl _ \<Rightarrow> 0)
      | _ \<Rightarrow> 0)"

definition next_sequence :: "journal_file \<Rightarrow> int" where
  "next_sequence j = foldl (\<lambda>m ln. max m (line_sequence ln)) 0 j + 1"

definition commit_line :: "exec_commit \<Rightarrow> journal_line" where
  "commit_line c = Good (VDict (asdict_commit c))"

definition append_journal :: "host \<Rightarrow> exec_commit \<Rightarrow> journal_file \<Rightarrow> exec_commit \<times> journal_file" where
  "append_journal h c j =
     (let c' = with_integrity h ((rebuilt c)\<lparr>cm_sequence := next_sequence j\<rparr>)
      in (c', j @ [commit_line c']))"

text \<open>The first commit with the identity gets the status; all others are written back as read.\<close>

fun mark_first :: "host \<Rightarrow> string \<Rightarrow> string \<Rightarrow> exec_commit list \<Rightarrow> exec_commit list" where
  "mark_first h i status [] = []"
| "mark_first h i status (c # cs) =
     (if cm_commit_id c = i then with_integrity h ((rebuilt c)\<lparr>cm_status := status\<rparr>) # cs
      else c # mark_first h i status cs)"

definition mark ::
    "host \<Rightarrow> time \<Rightarrow> string \<Rightarrow> string \<Rightarrow> journal_file \<Rightarrow> quarantine_file \<Rightarrow>
     unit result \<times> journal_file \<times> quarantine_file" where
  "mark h now i status j q =
     (case read_journal h now j q of
        (Inl e, q') \<Rightarrow> (Inl e, j, q')
      | (Inr cs, q') \<Rightarrow>
          (Inr (), map (\<lambda>c. commit_line (with_integrity h c)) (mark_first h i status cs), q'))"

section \<open>Journals the coordinator writes\<close>

text \<open>
  A sound journal: commits numbered \<open>1, 2, \<dots>\<close>, each with a checksum, checkpoints in JSON form,
  and no identity twice.
\<close>

definition commit_ok :: "exec_commit \<Rightarrow> bool" where
  "commit_ok c \<longleftrightarrow> cm_checksum c \<noteq> [] \<and> json_val (cm_checkpoint c)"

fun numbered :: "int \<Rightarrow> exec_commit list \<Rightarrow> bool" where
  "numbered n [] = True"
| "numbered n (c # cs) = (cm_sequence c = n \<and> numbered (n + 1) cs)"

definition commits_ok :: "exec_commit list \<Rightarrow> bool" where
  "commits_ok cs \<longleftrightarrow> list_all commit_ok cs \<and> numbered 1 cs \<and> distinct (map cm_commit_id cs)"

definition journal_of :: "exec_commit list \<Rightarrow> journal_file" where
  "journal_of cs = map commit_line cs"

definition digest_ok :: "host \<Rightarrow> bool" where
  "digest_ok h \<longleftrightarrow> (\<forall>s. sha256_hex h s \<noteq> [])"

lemma numbered_append: "numbered n (cs @ [c]) \<longleftrightarrow> numbered n cs \<and> cm_sequence c = n + int (length cs)"
  by (induction cs arbitrary: n) (simp_all add: algebra_simps)

lemma construct_asdict_commit:
  "json_val (cm_checkpoint c) \<Longrightarrow> construct_commit now (asdict_commit c) = Inr c"
  by (simp add: construct_commit_def asdict_commit_def commit_payload_def commit_fields_def
      commit_required_def dget_def asdict_json)

lemma setdefault_asdict:
  "setdefault ''sequence'' v (setdefault ''status'' w (asdict_commit c)) = asdict_commit c"
  by (simp add: setdefault_def asdict_commit_def commit_payload_def)

lemma asdict_sequence: "dget (asdict_commit c) ''sequence'' v = VInt (cm_sequence c)"
  by (simp add: asdict_commit_def commit_payload_def dget_def)

lemma with_integrity_id [simp]: "cm_checksum c \<noteq> [] \<Longrightarrow> with_integrity h c = c"
  by (simp add: with_integrity_def)

lemma read_line_ok:
  "commit_ok c \<Longrightarrow> cm_sequence c = n \<Longrightarrow> read_line h now n (commit_line c) = Accept c"
  by (simp add: read_line_def commit_line_def asdict_sequence setdefault_asdict commit_ok_def
      construct_asdict_commit Let_def)

lemma read_journal_from_line:
  "read_journal_from h now n (commit_line c # ls) q =
     (case read_line h now n (commit_line c) of
        Abort e None \<Rightarrow> (Inl e, q)
      | Abort e (Some reason) \<Rightarrow> (Inl e, quarantine now (commit_line c) reason q)
      | Skip reason next \<Rightarrow> read_journal_from h now next ls (quarantine now (commit_line c) reason q)
      | Accept c \<Rightarrow>
          (let (r, q') = read_journal_from h now (cm_sequence c + 1) ls q
           in (map_sum id (Cons c) r, q')))"
  by (simp only: commit_line_def read_journal_from.simps)

lemma read_journal_from_ok:
  "list_all commit_ok cs \<Longrightarrow> numbered n cs \<Longrightarrow>
     read_journal_from h now n (journal_of cs) q = (Inr cs, q)"
  by (induction cs arbitrary: n)
    (simp_all add: journal_of_def read_journal_from_line read_line_ok)

lemma read_journal_ok [simp]: "commits_ok cs \<Longrightarrow> read_journal h now (journal_of cs) q = (Inr cs, q)"
  by (simp add: read_journal_def commits_ok_def read_journal_from_ok)

lemma line_sequence_commit [simp]: "line_sequence (commit_line c) = cm_sequence c"
  by (simp add: line_sequence_def commit_line_def asdict_sequence)

lemma next_sequence_snoc: "next_sequence (j @ [ln]) = max (next_sequence j - 1) (line_sequence ln) + 1"
  by (simp add: next_sequence_def)

lemma next_sequence_ok: "numbered 1 cs \<Longrightarrow> next_sequence (journal_of cs) = int (length cs) + 1"
proof (induction cs rule: rev_induct)
  case Nil
  then show ?case by (simp add: next_sequence_def journal_of_def)
next
  case (snoc c cs)
  then show ?case by (simp add: numbered_append journal_of_def next_sequence_snoc)
qed

lemma append_journal_ok:
  assumes "commits_ok cs" and "digest_ok h" and "cm_commit_id c \<notin> cm_commit_id ` set cs"
  obtains c' where "append_journal h c (journal_of cs) = (c', journal_of (cs @ [c']))"
    "commits_ok (cs @ [c'])" "cm_commit_id c' = cm_commit_id c" "cm_execution_id c' = cm_execution_id c"
    "cm_from_status c' = cm_from_status c" "cm_to_status c' = cm_to_status c"
    "cm_attempt c' = cm_attempt c" "cm_checkpoint c' = asdict_val (cm_checkpoint c)"
    "cm_reason c' = cm_reason c" "cm_correlation_id c' = cm_correlation_id c"
    "cm_status c' = cm_status c"
proof -
  let ?c = "with_integrity h ((rebuilt c)\<lparr>cm_sequence := next_sequence (journal_of cs)\<rparr>)"
  have ok: "commits_ok (cs @ [?c])"
    using assms next_sequence_ok [of cs]
    by (auto simp: commits_ok_def commit_ok_def numbered_append with_integrity_def rebuilt_def
        digest_ok_def json_asdict asdict_json)
  show thesis
    by (rule that [of ?c])
      (use ok in \<open>simp_all add: append_journal_def Let_def journal_of_def with_integrity_def rebuilt_def
        asdict_json json_asdict\<close>)
qed

definition with_status :: "string \<Rightarrow> string \<Rightarrow> exec_commit \<Rightarrow> exec_commit" where
  "with_status i s c = (if cm_commit_id c = i then c\<lparr>cm_status := s\<rparr> else c)"

lemma with_status_other: "\<forall>c \<in> set cs. cm_commit_id c \<noteq> i \<Longrightarrow> map (with_status i s) cs = cs"
  by (auto simp: with_status_def intro: map_idI)

lemma mark_first_eq:
  "list_all commit_ok cs \<Longrightarrow> distinct (map cm_commit_id cs) \<Longrightarrow>
     mark_first h i s cs = map (with_status i s) cs"
proof (induction cs)
  case Nil
  then show ?case by simp
next
  case (Cons c cs)
  show ?case
  proof (cases "cm_commit_id c = i")
    case True
    with Cons.prems have "\<forall>d \<in> set cs. cm_commit_id d \<noteq> i" by (auto simp: image_iff)
    then have "map (with_status i s) cs = cs" by (rule with_status_other)
    moreover have "with_status i s c = c\<lparr>cm_status := s\<rparr>" using True by (simp add: with_status_def)
    ultimately show ?thesis
      using True Cons.prems by (simp add: rebuilt_def commit_ok_def asdict_json)
  next
    case False
    with Cons show ?thesis by (simp add: with_status_def)
  qed
qed

lemma with_status_simps [simp]:
  "cm_commit_id (with_status i s c) = cm_commit_id c"
  "cm_sequence (with_status i s c) = cm_sequence c"
  "cm_checksum (with_status i s c) = cm_checksum c"
  "commit_ok (with_status i s c) = commit_ok c"
  "cm_status (with_status i s c) = (if cm_commit_id c = i then s else cm_status c)"
  by (simp_all add: with_status_def commit_ok_def)

lemma numbered_with_status [simp]: "numbered n (map (with_status i s) cs) = numbered n cs"
  by (induction cs arbitrary: n) simp_all

lemma commits_ok_with_status [simp]: "commits_ok (map (with_status i s) cs) = commits_ok cs"
  by (simp add: commits_ok_def list_all_iff o_def)

text \<open>Marking a commit of a sound journal changes its status and nothing else.\<close>

lemma mark_ok:
  assumes "commits_ok cs"
  shows "mark h now i s (journal_of cs) q = (Inr (), journal_of (map (with_status i s) cs), q)"
proof -
  have "commit_line (with_integrity h (with_status i s c)) = commit_line (with_status i s c)"
    if "c \<in> set cs" for c
    using that assms by (simp add: commits_ok_def list_all_iff commit_ok_def)
  then have lines: "map (\<lambda>c. commit_line (with_integrity h c)) (map (with_status i s) cs) =
      journal_of (map (with_status i s) cs)"
    by (simp add: journal_of_def)
  have "mark_first h i s cs = map (with_status i s) cs"
    using assms by (simp add: commits_ok_def mark_first_eq)
  then show ?thesis using assms lines by (simp add: mark_def)
qed

lemma pending_commits_ok:
  "commits_ok cs \<Longrightarrow> pending_commits h now all (journal_of cs) q =
     (Inr (if all then cs else filter (\<lambda>c. cm_status c = ''pending'') cs), q)"
  by (simp add: pending_commits_def)

end
