(* ===== verification/Commit.thy ===== *)
theory Commit
  imports Store_Spec Journal
begin

text \<open>
  \<^verbatim>\<open>ExecutionCommitCoordinator\<close> of \<^verbatim>\<open>runtime/execution_commit.py\<close>: a transition is
  journaled, applied to the store by compare-and-set under the execution lock (with the lease
  checked again under the same lock), audited, and marked in the journal; \<open>reconcile\<close> finishes
  commits that stayed pending. \<open>clk i\<close> is the instant of the \<open>i\<close>-th locked section.
\<close>

record coord =
  co_store :: exec_store
  co_leases :: lease_file
  co_journal :: journal_file
  co_quarantine :: quarantine_file
  co_audit :: audit_file

record coord_cfg =
  cc_has_leases :: bool
  cc_owner :: "string option"
  cc_token :: "int option"

definition lease_valid :: "coord_cfg \<Rightarrow> time \<Rightarrow> lease_file \<Rightarrow> string \<Rightarrow> bool result" where
  "lease_valid cfg now leases x =
     (if \<not> cc_has_leases cfg then Inr True
      else case cc_owner cfg of
        None \<Rightarrow> Inr False
      | Some owner \<Rightarrow>
          (if owner = [] \<or> cc_token cfg = None then Inr False
           else is_owner_unlocked x owner (cc_token cfg) now leases))"

definition fencing_validator :: "coord_cfg \<Rightarrow> time \<Rightarrow> lease_file \<Rightarrow> validator" where
  "fencing_validator cfg now leases x tok =
     (if tok = cc_token cfg then lease_valid cfg now leases x else Inr False)"

text \<open>\<^verbatim>\<open>_next_state\<close>: the plan passes through \<^verbatim>\<open>asdict\<close>, the result does not.\<close>

definition next_state :: "exec_state \<Rightarrow> string \<Rightarrow> pyval \<Rightarrow> string option \<Rightarrow> exec_state" where
  "next_state s status checkpoint reason =
     s\<lparr>es_status := status, es_plan := asdict_val (es_plan s),
       es_result := (if status = ''completed'' then checkpoint else es_result s),
       es_error := (if status = ''failed'' then reason else es_error s)\<rparr>"

definition commit_id_of :: "exec_state \<Rightarrow> string \<Rightarrow> string" where
  "commit_id_of s to_status =
     es_execution_id s @ '':'' @ str_int (es_attempt s) @ '':'' @ to_status @ '':'' @
     opt_list (es_correlation_id s)"

definition new_commit :: "time \<Rightarrow> exec_state \<Rightarrow> string \<Rightarrow> pyval \<Rightarrow> string option \<Rightarrow> exec_commit" where
  "new_commit now s to_status checkpoint reason =
     \<lparr>cm_commit_id = commit_id_of s to_status, cm_execution_id = es_execution_id s,
      cm_from_status = es_status s, cm_to_status = to_status, cm_attempt = es_attempt s,
      cm_checkpoint = checkpoint, cm_reason = reason, cm_created_at = now,
      cm_correlation_id = es_correlation_id s, cm_status = ''pending'', cm_sequence = 0,
      cm_checksum = []\<rparr>"

definition coord_cas ::
    "host \<Rightarrow> coord_cfg \<Rightarrow> time \<Rightarrow> exec_state \<Rightarrow> string \<Rightarrow> string \<Rightarrow> pyval \<Rightarrow> string option \<Rightarrow> coord \<Rightarrow>
     exec_state result \<times> coord" where
  "coord_cas h cfg now s expected_status to_status checkpoint reason w =
     (let (r, st') = compare_and_set h now (next_state s to_status checkpoint reason) (es_version s)
            (Some expected_status) (cc_token cfg) (Some (fencing_validator cfg now (co_leases w)))
            (co_store w)
      in (r, w\<lparr>co_store := st'\<rparr>))"

text \<open>The audit event of a commit carries the commit's identity.\<close>

definition coord_audit :: "host \<Rightarrow> audit_event \<Rightarrow> coord \<Rightarrow> audit_event result \<times> coord" where
  "coord_audit h e w = (let (r, f) = audit_append h e (co_audit w) in (r, w\<lparr>co_audit := f\<rparr>))"

definition coord_mark :: "host \<Rightarrow> time \<Rightarrow> string \<Rightarrow> string \<Rightarrow> coord \<Rightarrow> unit result \<times> coord" where
  "coord_mark h now i status w =
     (let (r, j, q) = mark h now i status (co_journal w) (co_quarantine w)
      in (r, w\<lparr>co_journal := j, co_quarantine := q\<rparr>))"

text \<open>\<^verbatim>\<open>except (ExecutionFencingConflictError, ExecutionVersionConflictError, PermissionError)\<close>\<close>

definition tolerated :: "exc \<Rightarrow> bool" where
  "tolerated e = isinst e [ExecutionFencingConflictError, ExecutionVersionConflictError, PermissionError]"

definition commit_event :: "exec_state \<Rightarrow> string \<Rightarrow> string option \<Rightarrow> string \<Rightarrow> time \<Rightarrow> audit_event" where
  "commit_event cur to_status reason i now =
     \<lparr>ae_execution_id = es_execution_id cur, ae_from_status = es_status cur, ae_to_status = to_status,
      ae_attempt = es_attempt cur, ae_reason = reason, ae_timestamp = now, ae_event_id = i,
      ae_correlation_id = es_correlation_id cur\<rparr>"

definition commit ::
    "host \<Rightarrow> coord_cfg \<Rightarrow> (nat \<Rightarrow> time) \<Rightarrow> exec_state \<Rightarrow> string \<Rightarrow> pyval \<Rightarrow> string option \<Rightarrow> coord \<Rightarrow>
     exec_commit result \<times> coord" where
  "commit h cfg clk s to_status checkpoint reason w =
     (case pending_commits h (clk 0) True (co_journal w) (co_quarantine w) of
        (Inl e, q) \<Rightarrow> (Inl e, w\<lparr>co_quarantine := q\<rparr>)
      | (Inr cs, q) \<Rightarrow>
         (let w0 = w\<lparr>co_quarantine := q\<rparr>; i = commit_id_of s to_status in
          case map_of (rev (map (\<lambda>c. (cm_commit_id c, c)) cs)) i of
            Some existing \<Rightarrow> (Inr existing, w0)
          | None \<Rightarrow>
             (let (c, j) = append_journal h (new_commit (clk 1) s to_status checkpoint reason) (co_journal w0);
                  w1 = w0\<lparr>co_journal := j\<rparr> in
              case get_unlocked (clk 2) (es_execution_id s) (st_file (co_store w1)) of
                Inl e \<Rightarrow> (Inl e, w1)
              | Inr None \<Rightarrow> (Inr c, w1)
              | Inr (Some cur) \<Rightarrow>
                 (case lease_valid cfg (clk 2) (co_leases w1) (es_execution_id cur) of
                    Inl e \<Rightarrow> (Inl e, w1)
                  | Inr False \<Rightarrow> (Inr c, w1)
                  | Inr True \<Rightarrow>
                     (case coord_cas h cfg (clk 2) cur (es_status cur) to_status checkpoint reason w1 of
                        (Inl e, w2) \<Rightarrow> if tolerated e then (Inr c, w2) else (Inl e, w2)
                      | (Inr _, w2) \<Rightarrow>
                         (case coord_audit h (commit_event cur to_status reason i (clk 2)) w2 of
                            (Inl e, w3) \<Rightarrow> (Inl e, w3)
                          | (Inr _, w3) \<Rightarrow>
                             (case coord_mark h (clk 2) i ''applied'' w3 of
                                (Inl e, w4) \<Rightarrow> (Inl e, w4)
                              | (Inr _, w4) \<Rightarrow> (Inr c, w4))))))))"

section \<open>Reconciliation\<close>

definition commit_audit_event :: "exec_commit \<Rightarrow> time \<Rightarrow> audit_event" where
  "commit_audit_event c now =
     \<lparr>ae_execution_id = cm_execution_id c, ae_from_status = cm_from_status c,
      ae_to_status = cm_to_status c, ae_attempt = cm_attempt c, ae_reason = cm_reason c,
      ae_timestamp = now, ae_event_id = cm_commit_id c, ae_correlation_id = cm_correlation_id c\<rparr>"

text \<open>Audit the commit and mark it \<^verbatim>\<open>reconciled\<close>; the result says it was repaired.\<close>

definition finish_commit :: "host \<Rightarrow> time \<Rightarrow> exec_commit \<Rightarrow> coord \<Rightarrow> bool result \<times> coord" where
  "finish_commit h now c w =
     (case coord_audit h (commit_audit_event c now) w of
        (Inl e, w1) \<Rightarrow> (Inl e, w1)
      | (Inr _, w1) \<Rightarrow>
          (case coord_mark h now (cm_commit_id c) ''reconciled'' w1 of
             (Inl e, w2) \<Rightarrow> (Inl e, w2)
           | (Inr _, w2) \<Rightarrow> (Inr True, w2)))"

definition reconcile_one :: "host \<Rightarrow> coord_cfg \<Rightarrow> time \<Rightarrow> exec_commit \<Rightarrow> coord \<Rightarrow> bool result \<times> coord" where
  "reconcile_one h cfg now c w =
     (case get_unlocked now (cm_execution_id c) (st_file (co_store w)) of
        Inl e \<Rightarrow> (Inl e, w)
      | Inr None \<Rightarrow> (Inr False, w)
      | Inr (Some s) \<Rightarrow>
         (case lease_valid cfg now (co_leases w) (cm_execution_id c) of
            Inl e \<Rightarrow> (Inl e, w)
          | Inr False \<Rightarrow> (Inr False, w)
          | Inr True \<Rightarrow>
             (if es_status s = cm_to_status c then finish_commit h now c w
              else if es_status s \<noteq> cm_from_status c then (Inr False, w)
              else case coord_cas h cfg now s (cm_from_status c) (cm_to_status c) (cm_checkpoint c)
                          (cm_reason c) w of
                (Inl e, w1) \<Rightarrow> if tolerated e then (Inr False, w1) else (Inl e, w1)
              | (Inr _, w1) \<Rightarrow> finish_commit h now c w1)))"

fun reconcile_all ::
    "host \<Rightarrow> coord_cfg \<Rightarrow> (nat \<Rightarrow> time) \<Rightarrow> nat \<Rightarrow> exec_commit list \<Rightarrow> coord \<Rightarrow> string list result \<times> coord" where
  "reconcile_all h cfg clk n [] w = (Inr [], w)"
| "reconcile_all h cfg clk n (c # cs) w =
     (case reconcile_one h cfg (clk n) c w of
        (Inl e, w1) \<Rightarrow> (Inl e, w1)
      | (Inr repaired, w1) \<Rightarrow>
          (let (r, w2) = reconcile_all h cfg clk (Suc n) cs w1
           in (map_sum id (\<lambda>is. if repaired then cm_commit_id c # is else is) r, w2)))"

definition reconcile ::
    "host \<Rightarrow> coord_cfg \<Rightarrow> (nat \<Rightarrow> time) \<Rightarrow> coord \<Rightarrow> string list result \<times> coord" where
  "reconcile h cfg clk w =
     (case pending_commits h (clk 0) False (co_journal w) (co_quarantine w) of
        (Inl e, q) \<Rightarrow> (Inl e, w\<lparr>co_quarantine := q\<rparr>)
      | (Inr cs, q) \<Rightarrow> reconcile_all h cfg clk 1 cs (w\<lparr>co_quarantine := q\<rparr>))"

section \<open>Crashes\<close>

text \<open>
  A crash of the process inside \<open>commit\<close> leaves the files as they are after some of its durable
  writes: the journal append, the replacement of the state file, the audit append, the rewrite of
  the journal. \<open>commit_upto k\<close> is \<open>commit\<close> stopped after its \<open>k\<close>-th write.
\<close>

definition commit_upto ::
    "nat \<Rightarrow> host \<Rightarrow> coord_cfg \<Rightarrow> (nat \<Rightarrow> time) \<Rightarrow> exec_state \<Rightarrow> string \<Rightarrow> pyval \<Rightarrow> string option \<Rightarrow> coord \<Rightarrow> coord" where
  "commit_upto k h cfg clk s to_status checkpoint reason w =
     (case pending_commits h (clk 0) True (co_journal w) (co_quarantine w) of
        (Inl e, q) \<Rightarrow> w\<lparr>co_quarantine := q\<rparr>
      | (Inr cs, q) \<Rightarrow>
         (let w0 = w\<lparr>co_quarantine := q\<rparr>; i = commit_id_of s to_status in
          if map_of (rev (map (\<lambda>c. (cm_commit_id c, c)) cs)) i \<noteq> None \<or> k < 1 then w0
          else let w1 = w0\<lparr>co_journal := snd (append_journal h
                      (new_commit (clk 1) s to_status checkpoint reason) (co_journal w0))\<rparr> in
            case get_unlocked (clk 2) (es_execution_id s) (st_file (co_store w1)) of
              Inr (Some cur) \<Rightarrow>
               (if lease_valid cfg (clk 2) (co_leases w1) (es_execution_id cur) \<noteq> Inr True \<or> k < 2 then w1
                else case coord_cas h cfg (clk 2) cur (es_status cur) to_status checkpoint reason w1 of
                  (Inl e, w2) \<Rightarrow> w2
                | (Inr _, w2) \<Rightarrow>
                    (if k < 3 then w2
                     else case coord_audit h (commit_event cur to_status reason i (clk 2)) w2 of
                       (Inl e, w3) \<Rightarrow> w3
                     | (Inr _, w3) \<Rightarrow>
                         (if k < 4 then w3 else snd (coord_mark h (clk 2) i ''applied'' w3))))
            | _ \<Rightarrow> w1))"

text \<open>Four writes are the whole commit.\<close>

lemma commit_upto_complete:
  assumes "4 \<le> k"
  shows "commit_upto k h cfg clk s to_status checkpoint reason w =
     snd (commit h cfg clk s to_status checkpoint reason w)"
proof (cases "pending_commits h (clk 0) True (co_journal w) (co_quarantine w)" rule: result_cases_pair)
  case (Raised e q)
  then show ?thesis by (simp add: commit_upto_def commit_def)
next
  case (Returned cs q)
  let ?i = "commit_id_of s to_status"
  let ?w0 = "w\<lparr>co_quarantine := q\<rparr>"
  obtain c j where cj: "append_journal h (new_commit (clk 1) s to_status checkpoint reason) (co_journal w) = (c, j)"
    by fastforce
  let ?w1 = "?w0\<lparr>co_journal := j\<rparr>"
  show ?thesis
  proof (cases "map_of (rev (map (\<lambda>c. (cm_commit_id c, c)) cs)) ?i")
    case None
    have k: "k \<noteq> 0" "\<not> k < 2" "\<not> k < 3" "\<not> k < 4" using assms by auto
    note step = Returned None cj k
    show ?thesis
    proof (cases "get_unlocked (clk 2) (es_execution_id s) (st_file (co_store w))")
      case (Inl e)
      then show ?thesis by (simp add: commit_upto_def commit_def Let_def step del: One_nat_def)
    next
      case (Inr cur)
      show ?thesis
      proof (cases cur)
        case None
        then show ?thesis by (simp add: commit_upto_def commit_def Let_def step Inr del: One_nat_def)
      next
        case (Some cur)
        note step = step Inr Some
        show ?thesis
        proof (cases "lease_valid cfg (clk 2) (co_leases w) (es_execution_id cur) = Inr True")
          case False
          then show ?thesis
            by (cases "lease_valid cfg (clk 2) (co_leases w) (es_execution_id cur)")
              (simp_all add: commit_upto_def commit_def Let_def step del: One_nat_def)
        next
          case True
          note step = step True
          show ?thesis
          proof (cases "coord_cas h cfg (clk 2) cur (es_status cur) to_status checkpoint reason ?w1"
              rule: result_cases_pair)
            case (Raised e w2)
            then show ?thesis by (simp add: commit_upto_def commit_def Let_def step del: One_nat_def)
          next
            case (Returned s' w2)
            note step = step Returned
            show ?thesis
            proof (cases "coord_audit h (commit_event cur to_status reason ?i (clk 2)) w2"
                rule: result_cases_pair)
              case (Raised e w3)
              then show ?thesis by (simp add: commit_upto_def commit_def Let_def step del: One_nat_def)
            next
              case (Returned e w3)
              then show ?thesis
                by (cases "coord_mark h (clk 2) ?i ''applied'' w3" rule: result_cases_pair)
                  (simp_all add: commit_upto_def commit_def Let_def step del: One_nat_def)
            qed
          qed
        qed
      qed
    qed
  next
    case (Some c')
    then show ?thesis using Returned by (simp add: commit_upto_def commit_def)
  qed
qed

end
