(* ===== verification/Commit_Spec.thy ===== *)
theory Commit_Spec
  imports Commit
begin

text \<open>
  What the commit protocol guarantees: a commit interrupted after any of its durable writes is
  completed by \<open>reconcile\<close> with one version bump and one audit event; a coordinator whose lease
  is gone changes neither the store nor the audit log; a retried commit is a no-op. And what it
  does not: the recorded checksum is never verified, rewriting the journal loses commits after a
  damaged line, and an illegal transition, once journaled, blocks reconciliation.
\<close>

declare One_nat_def [simp del]

abbreviation states :: "coord \<Rightarrow> state_map" where
  "states w \<equiv> view (st_file (co_store w))"

abbreviation machine :: "coord \<Rightarrow> state_machine" where
  "machine w \<equiv> st_machine (co_store w)"

text \<open>The files in order, the journal being the commits \<open>cs\<close>.\<close>

definition coord_ok :: "coord \<Rightarrow> exec_commit list \<Rightarrow> bool" where
  "coord_ok w cs \<longleftrightarrow>
     store_inv (co_store w) \<and> audit_ok (co_audit w) \<and> co_journal w = journal_of cs \<and> commits_ok cs"

definition settled :: "exec_commit list \<Rightarrow> bool" where
  "settled cs \<longleftrightarrow> (\<forall>c \<in> set cs. cm_status c \<noteq> ''pending'')"

definition committed :: "time \<Rightarrow> exec_state \<Rightarrow> string \<Rightarrow> pyval \<Rightarrow> string option \<Rightarrow> exec_state" where
  "committed now s to_status checkpoint reason =
     (next_state s to_status checkpoint reason)\<lparr>es_version := es_version s + 1, es_updated_at := now\<rparr>"

lemma committed_fields [simp]:
  "es_execution_id (committed now s t cp r) = es_execution_id s"
  "es_status (committed now s t cp r) = t"
  "es_version (committed now s t cp r) = es_version s + 1"
  by (simp_all add: committed_def next_state_def)

section \<open>One write at a time\<close>

lemma coord_cas_ok:
  assumes "store_inv (co_store w)" and "states w x = Some s"
    and "lease_valid cfg now (co_leases w) x = Inr True"
    and "can_transition (machine w) (es_status s) t"
  obtains st' where
    "coord_cas h cfg now s (es_status s) t cp r w =
       (Inr (committed now s t cp r), w\<lparr>co_store := st'\<rparr>)"
    "store_inv st'" "st_machine st' = machine w"
    "view (st_file st') = (states w)(x \<mapsto> norm_state (committed now s t cp r))"
proof -
  have f: "store_ok (st_file (co_store w))" using assms(1) by (simp add: store_inv_def)
  have x: "es_execution_id s = x" "1 \<le> es_version s" using view_id [OF f assms(2)] by auto
  have ne: "x \<noteq> []" using assms(2) by (cases rule: store_lookup [OF f, of x]) auto
  have n: "es_execution_id (next_state s t cp r) = x" "es_status (next_state s t cp r) = t"
    by (simp_all add: next_state_def x(1))
  have mv: "map_version (states w) x = es_version s" "map_status (states w) x = es_status s"
    by (simp_all add: map_version_def map_status_def assms(2))
  have val: "validate (machine w) (es_status s) t = Inr ()" using assms(4) by (simp add: validate_iff)
  have spec: "spec_save (machine w) (states w) now (next_state s t cp r) (Some (es_version s)) True
      (Some (es_status s)) (cc_token cfg) (Some (fencing_validator cfg now (co_leases w))) =
      Inr (committed now s t cp r)"
    by (simp add: spec_save_def Let_def n ne mv fencing_validator_def assms(2,3) val committed_def)
  obtain st' where "save_unlocked h now (next_state s t cp r) (Some (es_version s)) True
        (Some (es_status s)) (cc_token cfg) (Some (fencing_validator cfg now (co_leases w))) (co_store w) =
        (Inr (committed now s t cp r), st')"
      "store_inv st'" "st_machine st' = machine w"
      "view (st_file st') = (states w)(x \<mapsto> norm_state (committed now s t cp r))"
    using save_refines [OF assms(1), of h now "next_state s t cp r" "Some (es_version s)" True
        "Some (es_status s)" "cc_token cfg" "Some (fencing_validator cfg now (co_leases w))"]
    by (auto simp: spec n(1))
  with x(2) show thesis by (intro that [of st']) (simp_all add: coord_cas_def compare_and_set_def)
qed

lemma coord_audit_new:
  assumes "audit_ok (co_audit w)" and "audit_find (co_audit w) (ae_event_id e) = None"
    and "ae_event_id e \<noteq> []"
  shows "coord_audit h e w = (Inr e, w\<lparr>co_audit := co_audit w @ [Good e]\<rparr>)"
  using assms by (simp add: coord_audit_def audit_append_find)

lemma coord_audit_old:
  assumes "audit_ok (co_audit w)" and "audit_find (co_audit w) (ae_event_id e) = Some x"
    and "ae_event_id e \<noteq> []"
  shows "coord_audit h e w = (Inr x, w)"
  using assms by (simp add: coord_audit_def audit_append_find)

lemma coord_mark_ok:
  assumes "co_journal w = journal_of cs" and "commits_ok cs"
  shows "coord_mark h now i st w = (Inr (), w\<lparr>co_journal := journal_of (map (with_status i st) cs)\<rparr>)"
  by (simp add: coord_mark_def assms mark_ok [OF assms(2)])

lemma audit_find_snoc_new:
  assumes "audit_ok f" and "audit_find f (ae_event_id e) = None" and "ae_event_id e \<noteq> []"
  shows "audit_ok (f @ [Good e])" and "audit_find (f @ [Good e]) (ae_event_id e) = Some e"
  using audit_append_ok [OF assms(1), of undefined e] audit_find_append [OF assms(1) refl, of undefined e]
    audit_append_find [OF assms(1) refl, of undefined e] assms(2,3)
  by auto

lemma commit_id_ne [simp]: "commit_id_of s t \<noteq> []"
  by (simp add: commit_id_of_def)

lemma map_of_commits_None:
  "i \<notin> cm_commit_id ` set cs \<Longrightarrow> map_of (rev (map (\<lambda>c. (cm_commit_id c, c)) cs)) i = None"
  by (auto simp: map_of_eq_None_iff)

lemma with_status_settled:
  "settled cs \<Longrightarrow> i \<notin> cm_commit_id ` set cs \<Longrightarrow> map (with_status i st) cs = cs"
  by (rule with_status_other) auto

lemma settled_filter: "settled cs \<Longrightarrow> filter (\<lambda>c. cm_status c = ''pending'') cs = []"
  by (simp add: settled_def)


section \<open>The stages of a commit\<close>

text \<open>
  The hypotheses of a commit that is applied: the files are in order, the caller's state is the
  stored one, the identity is new to the journal and to the log, the transition is legal and the
  lease valid at the instant of the locked section.
\<close>

definition commit_applies ::
    "coord_cfg \<Rightarrow> time \<Rightarrow> exec_state \<Rightarrow> string \<Rightarrow> coord \<Rightarrow> exec_commit list \<Rightarrow> bool" where
  "commit_applies cfg now s to_status w cs \<longleftrightarrow>
     coord_ok w cs \<and> settled cs \<and> states w (es_execution_id s) = Some s
     \<and> commit_id_of s to_status \<notin> cm_commit_id ` set cs
     \<and> audit_find (co_audit w) (commit_id_of s to_status) = None
     \<and> can_transition (machine w) (es_status s) to_status
     \<and> lease_valid cfg now (co_leases w) (es_execution_id s) = Inr True"

lemma commit_journaled:
  assumes "coord_ok w cs" and "digest_ok h" and "commit_id_of s t \<notin> cm_commit_id ` set cs"
  obtains c where "append_journal h (new_commit now s t cp r) (co_journal w) = (c, journal_of (cs @ [c]))"
    "commits_ok (cs @ [c])" "cm_commit_id c = commit_id_of s t" "cm_execution_id c = es_execution_id s"
    "cm_from_status c = es_status s" "cm_to_status c = t" "cm_attempt c = es_attempt s"
    "cm_checkpoint c = asdict_val cp" "cm_reason c = r"
    "cm_correlation_id c = es_correlation_id s" "cm_status c = ''pending''"
proof -
  have j: "co_journal w = journal_of cs" "commits_ok cs" using assms(1) by (auto simp: coord_ok_def)
  have "cm_commit_id (new_commit now s t cp r) \<notin> cm_commit_id ` set cs"
    using assms(3) by (simp add: new_commit_def)
  from append_journal_ok [OF j(2) assms(2) this] that show thesis
    unfolding j(1) by (auto simp: new_commit_def)
qed

lemma commit_stages:
  assumes app: "commit_applies cfg (clk 2) s t w cs" and h: "digest_ok h"
  obtains c st' where
    "append_journal h (new_commit (clk 1) s t cp r) (co_journal w) = (c, journal_of (cs @ [c]))"
    "commits_ok (cs @ [c])" "cm_commit_id c = commit_id_of s t" "cm_execution_id c = es_execution_id s"
    "cm_from_status c = es_status s" "cm_to_status c = t" "cm_status c = ''pending''"
    "cm_checkpoint c = asdict_val cp" "cm_reason c = r"
    "store_inv st'" "st_machine st' = machine w"
    "view (st_file st') = (states w)(es_execution_id s \<mapsto> norm_state (committed (clk 2) s t cp r))"
    "\<And>k. commit_upto k h cfg clk s t cp r w =
       (let w1 = w\<lparr>co_journal := journal_of (cs @ [c])\<rparr>;
            w2 = w1\<lparr>co_store := st'\<rparr>;
            w3 = w2\<lparr>co_audit := co_audit w @ [Good (commit_event s t r (commit_id_of s t) (clk 2))]\<rparr>;
            w4 = w3\<lparr>co_journal := journal_of (map (with_status (commit_id_of s t) ''applied'') (cs @ [c]))\<rparr>
        in if k < 1 then w else if k < 2 then w1 else if k < 3 then w2 else if k < 4 then w3 else w4)"
proof -
  let ?x = "es_execution_id s" and ?i = "commit_id_of s t"
  let ?e = "commit_event s t r ?i (clk 2)"
  note a = app [unfolded commit_applies_def]
  have w: "coord_ok w cs" using a by simp
  have ok: "store_inv (co_store w)" "audit_ok (co_audit w)" "co_journal w = journal_of cs" "commits_ok cs"
    using w by (auto simp: coord_ok_def)
  have fresh: "?i \<notin> cm_commit_id ` set cs" using a by simp
  obtain c where c: "append_journal h (new_commit (clk 1) s t cp r) (co_journal w) = (c, journal_of (cs @ [c]))"
    "commits_ok (cs @ [c])" "cm_commit_id c = ?i" "cm_execution_id c = ?x" "cm_from_status c = es_status s"
    "cm_to_status c = t" "cm_status c = ''pending''" "cm_checkpoint c = asdict_val cp" "cm_reason c = r"
    by (rule commit_journaled [OF w h fresh, of "clk 1" cp r]) blast
  let ?w1 = "w\<lparr>co_journal := journal_of (cs @ [c])\<rparr>"
  obtain st' where cas: "coord_cas h cfg (clk 2) s (es_status s) t cp r ?w1 =
       (Inr (committed (clk 2) s t cp r), ?w1\<lparr>co_store := st'\<rparr>)"
    and st': "store_inv st'" "st_machine st' = machine ?w1"
      "view (st_file st') = (states ?w1)(?x \<mapsto> norm_state (committed (clk 2) s t cp r))"
    by (rule coord_cas_ok [of ?w1 ?x s cfg "clk 2" t h cp r]) (use a ok(1) in auto)
  let ?w2 = "?w1\<lparr>co_store := st'\<rparr>"
  have aud: "coord_audit h ?e ?w2 = (Inr ?e, ?w2\<lparr>co_audit := co_audit w @ [Good ?e]\<rparr>)"
    using coord_audit_new [of ?w2 ?e h] ok(2) a by (simp add: commit_event_def)
  have mk: "coord_mark h (clk 2) ?i ''applied'' (?w2\<lparr>co_audit := co_audit w @ [Good ?e]\<rparr>) =
      (Inr (), (?w2\<lparr>co_audit := co_audit w @ [Good ?e]\<rparr>)\<lparr>co_journal :=
         journal_of (map (with_status ?i ''applied'') (cs @ [c]))\<rparr>)"
    by (rule coord_mark_ok) (simp_all add: c(2))
  have get: "get_unlocked (clk 2) ?x (st_file (co_store w)) = Inr (Some s)"
    using ok(1) a by (simp add: get_unlocked_view store_inv_def)
  have pend: "pending_commits h (clk 0) True (co_journal w) (co_quarantine w) = (Inr cs, co_quarantine w)"
    by (simp add: ok(3) pending_commits_ok [OF ok(4)])
  have lv: "lease_valid cfg (clk 2) (co_leases w) ?x = Inr True" using a by simp
  show thesis
    by (rule that [OF c st'(1) _ _])
      (use st' in \<open>simp_all add: commit_upto_def pend map_of_commits_None [OF fresh] c(1) get lv cas
        aud mk Let_def del: One_nat_def\<close>)
qed


section \<open>Reconciliation\<close>

definition recovered_audit :: "time \<Rightarrow> exec_commit \<Rightarrow> audit_file \<Rightarrow> audit_file" where
  "recovered_audit now c f =
     (case audit_find f (cm_commit_id c) of
        None \<Rightarrow> f @ [Good (commit_audit_event c now)] | Some _ \<Rightarrow> f)"

lemma finish_ok:
  assumes "audit_ok (co_audit w)" and "co_journal w = journal_of cs" and "commits_ok cs"
    and "cm_commit_id c \<noteq> []"
  shows "finish_commit h now c w = (Inr True, w\<lparr>
      co_audit := recovered_audit now c (co_audit w),
      co_journal := journal_of (map (with_status (cm_commit_id c) ''reconciled'') cs)\<rparr>)"
proof -
  let ?e = "commit_audit_event c now"
  have i: "ae_event_id ?e = cm_commit_id c" by (simp add: commit_audit_event_def)
  show ?thesis
  proof (cases "audit_find (co_audit w) (cm_commit_id c)")
    case None
    with coord_audit_new [of w ?e h] assms(1,4) i
    have "coord_audit h ?e w = (Inr ?e, w\<lparr>co_audit := co_audit w @ [Good ?e]\<rparr>)" by simp
    moreover have "coord_mark h now (cm_commit_id c) ''reconciled'' (w\<lparr>co_audit := co_audit w @ [Good ?e]\<rparr>) =
        (Inr (), (w\<lparr>co_audit := co_audit w @ [Good ?e]\<rparr>)\<lparr>co_journal :=
           journal_of (map (with_status (cm_commit_id c) ''reconciled'') cs)\<rparr>)"
      by (rule coord_mark_ok) (simp_all add: assms)
    ultimately show ?thesis using None by (simp add: finish_commit_def recovered_audit_def)
  next
    case (Some x)
    with coord_audit_old [of w ?e x h] assms(1,4) i have "coord_audit h ?e w = (Inr x, w)" by simp
    with Some coord_mark_ok [OF assms(2,3), of h now "cm_commit_id c" "''reconciled''"] show ?thesis
      by (simp add: finish_commit_def recovered_audit_def)
  qed
qed

lemma reconcile_settled:
  assumes "co_journal w = journal_of cs" and "commits_ok cs" and "settled cs"
  shows "reconcile h cfg clk w = (Inr [], w)"
  by (simp add: reconcile_def assms(1) pending_commits_ok [OF assms(2)] settled_filter [OF assms(3)])

lemma reconcile_last:
  assumes "co_journal w = journal_of (cs @ [c])" and "commits_ok (cs @ [c])" and "settled cs"
    and "cm_status c = ''pending''" and "reconcile_one h cfg (clk 1) c w = (Inr b, w')"
  shows "reconcile h cfg clk w = (Inr (if b then [cm_commit_id c] else []), w')"
proof -
  have "pending_commits h (clk 0) False (co_journal w) (co_quarantine w) = (Inr [c], co_quarantine w)"
    by (simp add: assms(1,4) pending_commits_ok [OF assms(2)] settled_filter [OF assms(3)])
  then show ?thesis using assms(5) by (simp add: reconcile_def del: One_nat_def)
qed

lemma reconcile_one_found:
  assumes "store_inv (co_store w)" and "states w (cm_execution_id c) = Some q"
    and "lease_valid cfg now (co_leases w) (cm_execution_id c) = Inr True"
  shows "reconcile_one h cfg now c w =
     (if es_status q = cm_to_status c then finish_commit h now c w
      else if es_status q \<noteq> cm_from_status c then (Inr False, w)
      else case coord_cas h cfg now q (cm_from_status c) (cm_to_status c) (cm_checkpoint c) (cm_reason c) w of
          (Inl e, w1) \<Rightarrow> if tolerated e then (Inr False, w1) else (Inl e, w1)
        | (Inr _, w1) \<Rightarrow> finish_commit h now c w1)"
  using assms by (simp add: reconcile_one_def get_unlocked_view store_inv_def)

lemma settled_marked:
  "settled cs \<Longrightarrow> cm_commit_id c \<notin> cm_commit_id ` set cs \<Longrightarrow> st \<noteq> ''pending'' \<Longrightarrow>
     settled (map (with_status (cm_commit_id c) st) (cs @ [c]))"
  by (auto simp: settled_def)


text \<open>A pending last commit is finished, whether its write was already applied or not.\<close>

lemma reconcile_finishes:
  assumes "store_inv (co_store v)" and "audit_ok (co_audit v)"
    and "co_journal v = journal_of (cs @ [c])" and "commits_ok (cs @ [c])" and "settled cs"
    and "cm_status c = ''pending''" and "cm_commit_id c \<noteq> []"
    and "states v (cm_execution_id c) = Some q"
    and "lease_valid cfg (clk 1) (co_leases v) (cm_execution_id c) = Inr True"
    and "es_status q = cm_to_status c \<or>
      es_status q = cm_from_status c \<and> can_transition (machine v) (es_status q) (cm_to_status c)"
  obtains st' where "reconcile h cfg clk v = (Inr [cm_commit_id c], v\<lparr>co_store := st',
       co_audit := recovered_audit (clk 1) c (co_audit v),
       co_journal := journal_of (map (with_status (cm_commit_id c) ''reconciled'') (cs @ [c]))\<rparr>)"
    "view (st_file st') = (if es_status q = cm_to_status c then states v
       else (states v)(cm_execution_id c \<mapsto>
         norm_state (committed (clk 1) q (cm_to_status c) (cm_checkpoint c) (cm_reason c))))"
    "store_inv st'"
proof -
  note one = reconcile_one_found [OF assms(1,8,9), of h]
  show thesis
  proof (cases "es_status q = cm_to_status c")
    case True
    have "reconcile_one h cfg (clk 1) c v = (Inr True, v\<lparr>
         co_audit := recovered_audit (clk 1) c (co_audit v),
         co_journal := journal_of (map (with_status (cm_commit_id c) ''reconciled'') (cs @ [c]))\<rparr>)"
      by (simp add: one True finish_ok [OF assms(2,3,4,7)])
    from reconcile_last [where clk = clk, OF assms(3,4,5,6) this] True that [of "co_store v"] assms(1) show thesis by simp
  next
    case False
    with assms(10) have from_status: "es_status q = cm_from_status c"
      and legal: "can_transition (machine v) (es_status q) (cm_to_status c)" by auto
    obtain st' where st': "coord_cas h cfg (clk 1) q (es_status q) (cm_to_status c) (cm_checkpoint c) (cm_reason c) v =
         (Inr (committed (clk 1) q (cm_to_status c) (cm_checkpoint c) (cm_reason c)), v\<lparr>co_store := st'\<rparr>)"
      "view (st_file st') = (states v)(cm_execution_id c \<mapsto>
         norm_state (committed (clk 1) q (cm_to_status c) (cm_checkpoint c) (cm_reason c)))" "store_inv st'"
      by (rule coord_cas_ok [OF assms(1,8,9) legal])
    have "finish_commit h (clk 1) c (v\<lparr>co_store := st'\<rparr>) = (Inr True, (v\<lparr>co_store := st'\<rparr>)\<lparr>
         co_audit := recovered_audit (clk 1) c (co_audit v),
         co_journal := journal_of (map (with_status (cm_commit_id c) ''reconciled'') (cs @ [c]))\<rparr>)"
      using finish_ok [of "v\<lparr>co_store := st'\<rparr>" "cs @ [c]" c h "clk 1"] assms(2,3,4,7)
      by simp
    then have "reconcile_one h cfg (clk 1) c v = (Inr True, v\<lparr>co_store := st',
         co_audit := recovered_audit (clk 1) c (co_audit v),
         co_journal := journal_of (map (with_status (cm_commit_id c) ''reconciled'') (cs @ [c]))\<rparr>)"
      using False from_status st'(1) by (simp add: one)
    from reconcile_last [where clk = clk, OF assms(3,4,5,6) this] st'(2,3) False that [of st'] show thesis by simp
  qed
qed


lemma norm_committed:
  "es_result (norm_state (committed now s t cp r)) =
     (if t = ''completed'' then decode_val (asdict_val cp) else decode_val (asdict_val (es_result s)))"
  by (simp add: norm_state_def committed_def next_state_def)

lemma ex_upd [simp]: "(\<exists>q. m(x \<mapsto> p) = m(x \<mapsto> q) \<and> P q) \<longleftrightarrow> P p"
  by (auto dest: map_upd_eqD1)

section \<open>Properties\<close>

lemma crash_recovered:
  assumes app: "commit_applies cfg (clk 2) s t w cs" and h: "digest_ok h" and st: "es_status s \<noteq> t"
    and k: "1 \<le> k" and i: "i = commit_id_of s t"
    and lv: "lease_valid cfg' (clk' 1) (co_leases w) (es_execution_id s) = Inr True"
    and w': "(r', w') = reconcile h cfg' clk' (commit_upto k h cfg clk s t cp r w)"
  shows "r' = Inr (if k < 4 then [i] else [])
    \<and> (\<exists>q. states w' = (states w)(es_execution_id s \<mapsto> q) \<and> es_status q = t
         \<and> es_version q = es_version s + 1 \<and> (t = ''completed'' \<longrightarrow> es_result q = decode_val (asdict_val cp)))
    \<and> (\<exists>e. co_audit w' = co_audit w @ [Good e] \<and> ae_event_id e = i
         \<and> ae_execution_id e = es_execution_id s \<and> ae_from_status e = es_status s \<and> ae_to_status e = t)
    \<and> pending_commits h now False (co_journal w') (co_quarantine w') = (Inr [], co_quarantine w')
    \<and> store_inv (co_store w')"
proof -
  note a = app [unfolded commit_applies_def coord_ok_def]
  obtain c st' where c: "commits_ok (cs @ [c])" "cm_commit_id c = i" "cm_execution_id c = es_execution_id s"
      "cm_from_status c = es_status s" "cm_to_status c = t" "cm_status c = ''pending''"
      "cm_checkpoint c = asdict_val cp" "cm_reason c = r"
    and st': "store_inv st'" "st_machine st' = machine w"
      "view (st_file st') = (states w)(es_execution_id s \<mapsto> norm_state (committed (clk 2) s t cp r))"
    and stage: "\<And>k. commit_upto k h cfg clk s t cp r w =
       (let w1 = w\<lparr>co_journal := journal_of (cs @ [c])\<rparr>;
            w2 = w1\<lparr>co_store := st'\<rparr>;
            w3 = w2\<lparr>co_audit := co_audit w @ [Good (commit_event s t r i (clk 2))]\<rparr>;
            w4 = w3\<lparr>co_journal := journal_of (map (with_status i ''applied'') (cs @ [c]))\<rparr>
        in if k < 1 then w else if k < 2 then w1 else if k < 3 then w2 else if k < 4 then w3 else w4)"
    unfolding i by (rule commit_stages [where clk = clk and cfg = cfg and cp = cp and r = r, OF app h]) blast
  have ne: "cm_commit_id c \<noteq> []" by (simp add: c(2) i)
  have new: "cm_commit_id c \<notin> cm_commit_id ` set cs" using a by (simp add: c(2) i)
  let ?e = "commit_event s t r i (clk 2)"
  have e: "ae_event_id ?e = i" "ae_execution_id ?e = es_execution_id s" "ae_from_status ?e = es_status s"
    "ae_to_status ?e = t" by (simp_all add: commit_event_def)
  have done1: "audit_ok (co_audit w @ [Good ?e])" "audit_find (co_audit w @ [Good ?e]) i = Some ?e"
    using audit_find_snoc_new [of "co_audit w" ?e] a e(1) by (simp_all add: i)
  have none: "audit_find (co_audit w) i = None" using a by (simp add: i)
  have marked: "pending_commits h now False (journal_of (map (with_status i m) (cs @ [c]))) q = (Inr [], q)"
    if "m \<noteq> ''pending''" for m q
  proof -
    have "commits_ok (map (with_status i m) (cs @ [c]))"
      using c(1) by (simp only: commits_ok_with_status)
    moreover have "settled (map (with_status i m) (cs @ [c]))"
      using settled_marked [OF _ new that] a c(2) by simp
    ultimately show ?thesis by (simp only: pending_commits_ok settled_filter if_False)
  qed
  consider "k = 1" | "k = 2" | "k = 3" | "4 \<le> k" using k by linarith
  then show ?thesis
  proof cases
    case 1
    let ?v = "w\<lparr>co_journal := journal_of (cs @ [c])\<rparr>"
    have "commit_upto k h cfg clk s t cp r w = ?v" by (simp add: stage 1 Let_def)
    moreover obtain st2 where "reconcile h cfg' clk' ?v = (Inr [cm_commit_id c], ?v\<lparr>co_store := st2,
         co_audit := recovered_audit (clk' 1) c (co_audit ?v),
         co_journal := journal_of (map (with_status (cm_commit_id c) ''reconciled'') (cs @ [c]))\<rparr>)"
      "view (st_file st2) = (if es_status s = cm_to_status c then states ?v
       else (states ?v)(cm_execution_id c \<mapsto>
         norm_state (committed (clk' 1) s (cm_to_status c) (cm_checkpoint c) (cm_reason c))))" "store_inv st2"
      by (rule reconcile_finishes [of ?v cs c s cfg' clk' h]) (use a c ne lv in auto)
    moreover have "asdict_val (asdict_val cp) = asdict_val cp" by (simp add: asdict_json json_asdict)
    ultimately show ?thesis
      using w' 1 c st e marked [of "''reconciled''"] none
      by (simp add: recovered_audit_def norm_committed commit_audit_event_def)
  next
    case 2
    let ?v = "w\<lparr>co_journal := journal_of (cs @ [c])\<rparr>\<lparr>co_store := st'\<rparr>"
    have "commit_upto k h cfg clk s t cp r w = ?v" by (simp add: stage 2 Let_def)
    moreover obtain st2 where "reconcile h cfg' clk' ?v = (Inr [cm_commit_id c], ?v\<lparr>co_store := st2,
         co_audit := recovered_audit (clk' 1) c (co_audit ?v),
         co_journal := journal_of (map (with_status (cm_commit_id c) ''reconciled'') (cs @ [c]))\<rparr>)"
      "view (st_file st2) = states ?v" "store_inv st2"
      by (rule reconcile_finishes [of ?v cs c _ cfg' clk' h]) (use a c ne lv st' in auto)
    ultimately show ?thesis
      using w' 2 c st' e marked [of "''reconciled''"] none
      by (simp add: recovered_audit_def norm_committed commit_audit_event_def)
  next
    case 3
    let ?v = "w\<lparr>co_journal := journal_of (cs @ [c])\<rparr>\<lparr>co_store := st'\<rparr>\<lparr>co_audit := co_audit w @ [Good ?e]\<rparr>"
    have "commit_upto k h cfg clk s t cp r w = ?v" by (simp add: stage 3 Let_def)
    moreover obtain st2 where "reconcile h cfg' clk' ?v = (Inr [cm_commit_id c], ?v\<lparr>co_store := st2,
         co_audit := recovered_audit (clk' 1) c (co_audit ?v),
         co_journal := journal_of (map (with_status (cm_commit_id c) ''reconciled'') (cs @ [c]))\<rparr>)"
      "view (st_file st2) = states ?v" "store_inv st2"
      by (rule reconcile_finishes [of ?v cs c _ cfg' clk' h]) (use a c ne lv st' done1 in auto)
    ultimately show ?thesis
      using w' 3 c st' e marked [of "''reconciled''"] done1
      by (simp add: recovered_audit_def norm_committed)
  next
    case 4
    have settled: "settled (map (with_status i ''applied'') (cs @ [c]))"
      using settled_marked [OF _ new, of "''applied''"] a c(2) by simp
    have "commits_ok (map (with_status i ''applied'') (cs @ [c]))"
      using c(1) by (simp only: commits_ok_with_status)
    then show ?thesis
      using w' 4 st' e marked [of "''applied''"] reconcile_settled [OF _ _ settled]
      by (simp add: stage Let_def norm_committed)
  qed
qed

text \<open>
  C1. Crash recovery. A commit that was cut off after any of its durable writes (the journal, the
  state file, the audit log, the journal mark) is completed by the next \<open>reconcile\<close> of a process
  that holds the lease: the execution is in the target status, at exactly the next version and with
  the checkpointed result; no other execution changed; the audit log grew by exactly one event,
  the commit's, whose identity is the commit's; nothing is pending; and reconcile reports the repair
  unless the commit was already marked.
\<close>

theorem crash_recovery:
  assumes app: "commit_applies cfg (clk 2) s t w cs" and h: "digest_ok h" and st: "es_status s \<noteq> t"
    and k: "1 \<le> k" and i: "i = commit_id_of s t"
    and lv: "lease_valid cfg' (clk' 1) (co_leases w) (es_execution_id s) = Inr True"
    and w': "(r', w') = reconcile h cfg' clk' (commit_upto k h cfg clk s t cp r w)"
  shows "r' = Inr (if k < 4 then [i] else [])
    \<and> (\<exists>q. states w' = (states w)(es_execution_id s \<mapsto> q) \<and> es_status q = t
         \<and> es_version q = es_version s + 1 \<and> (t = ''completed'' \<longrightarrow> es_result q = decode_val (asdict_val cp)))
    \<and> (\<exists>e. co_audit w' = co_audit w @ [Good e] \<and> ae_event_id e = i
         \<and> ae_execution_id e = es_execution_id s \<and> ae_from_status e = es_status s \<and> ae_to_status e = t)
    \<and> pending_commits h now False (co_journal w') (co_quarantine w') = (Inr [], co_quarantine w')"
  using crash_recovered [where clk = clk and clk' = clk', OF assms] by blast


section \<open>A sample coordinator\<close>

definition sample_coord :: coord where
  "sample_coord = \<lparr>co_store = sample_store, co_leases = Object [(''e1'', lease_b)], co_journal = [],
     co_quarantine = [], co_audit = []\<rparr>"

definition sample_cfg :: coord_cfg where
  "sample_cfg = \<lparr>cc_has_leases = True, cc_owner = Some ''b'', cc_token = Some 2\<rparr>"

abbreviation sample_clk :: "nat \<Rightarrow> time" where
  "sample_clk \<equiv> \<lambda>n. 100000000 + int n"

lemma sample_digest: "digest_ok sample_host"
  by (simp add: digest_ok_def sample_host_def)

lemma sample_coord_ok: "coord_ok sample_coord []"
  using sample_store_inv by (simp add: coord_ok_def sample_coord_def journal_of_def commits_ok_def)

lemma sample_states: "states sample_coord = [''e1'' \<mapsto> run1]"
  by (simp add: sample_coord_def sample_view)

lemma sample_lease_valid:
  "lease_valid sample_cfg now (co_leases sample_coord) ''e1'' = Inr (now < 130000000)"
  by (auto simp: lease_valid_def sample_cfg_def sample_coord_def is_owner_unlocked_def read_leases_def
      lease_b_def token_matches_def)

lemma sample_applies: "commit_applies sample_cfg (sample_clk 2) run1 ''completed'' sample_coord []"
proof -
  have run1: "es_execution_id run1 = ''e1''" "es_status run1 = ''running''"
    by (simp_all add: run1_def new_state_def)
  have "machine sample_coord = DEFAULT_TRANSITIONS" "co_audit sample_coord = []"
    by (simp_all add: sample_coord_def sample_store_def)
  moreover have "can_transition DEFAULT_TRANSITIONS ''running'' ''completed''" by code_simp
  ultimately show ?thesis
    by (simp add: commit_applies_def sample_coord_ok settled_def sample_states run1 sample_lease_valid
        audit_find_def)
qed

theorem crash_recovery_witness:
  "\<exists>w'. reconcile sample_host sample_cfg sample_clk
      (commit_upto 2 sample_host sample_cfg sample_clk run1 ''completed'' (VStr ''ok'') None sample_coord) =
      (Inr [commit_id_of run1 ''completed''], w') \<and> length (co_audit w') = 1"
proof -
  have run1: "es_execution_id run1 = ''e1''" "es_status run1 \<noteq> ''completed''"
    by (simp_all add: run1_def new_state_def)
  obtain r' w' where w': "(r', w') = reconcile sample_host sample_cfg sample_clk
      (commit_upto 2 sample_host sample_cfg sample_clk run1 ''completed'' (VStr ''ok'') None sample_coord)"
    by (metis surj_pair)
  have lv: "lease_valid sample_cfg (sample_clk 1) (co_leases sample_coord) (es_execution_id run1) = Inr True"
    by (simp add: run1 sample_lease_valid)
  have "co_audit sample_coord = []" by (simp add: sample_coord_def)
  with crash_recovery [where clk = sample_clk and clk' = sample_clk and k = 2 and now = 0, OF sample_applies sample_digest
      run1(2) _ refl lv w']
  show ?thesis by (auto simp: w' [symmetric])
qed


section \<open>Retries\<close>

lemma map_of_commits_Some:
  assumes "distinct (map cm_commit_id cs)" and "c \<in> set cs" and "cm_commit_id c = i"
  shows "map_of (rev (map (\<lambda>c. (cm_commit_id c, c)) cs)) i = Some c"
proof -
  have "distinct (map fst (rev (map (\<lambda>c. (cm_commit_id c, c)) cs)))"
    using assms(1) by (simp add: rev_map [symmetric] o_def)
  then show ?thesis using assms(2,3) by (intro map_of_is_SomeI) auto
qed

lemma commit_known:
  assumes "co_journal w = journal_of cs" and "commits_ok cs" and "c \<in> set cs"
    and "cm_commit_id c = commit_id_of s t"
  shows "commit h cfg clk s t cp r w = (Inr c, w)"
proof -
  have "pending_commits h (clk 0) True (co_journal w) (co_quarantine w) = (Inr cs, co_quarantine w)"
    by (simp add: assms(1) pending_commits_ok [OF assms(2)])
  moreover have "map_of (rev (map (\<lambda>c. (cm_commit_id c, c)) cs)) (commit_id_of s t) = Some c"
    using assms(2-4) by (intro map_of_commits_Some) (auto simp: commits_ok_def)
  ultimately show ?thesis by (simp add: commit_def Let_def)
qed

text \<open>
  Commits are idempotent. Repeating a commit whose journal record is durable, by any process
  and at any later instant, returns the recorded commit and changes nothing, whichever of the
  other writes of the first attempt took place. (So a commit cut off before its state change is
  completed by \<open>reconcile\<close> only, never by a retry.)
\<close>

theorem commit_idempotent:
  assumes "commit_applies cfg (clk 2) s t w cs" and "digest_ok h" and "1 \<le> k"
    and "v = commit_upto k h cfg clk s t cp r w"
  shows "\<exists>c. commit h cfg' clk' s t cp' r' v = (Inr c, v)
    \<and> cm_commit_id c = commit_id_of s t \<and> cm_to_status c = t
    \<and> (cm_status c = (if k < 4 then ''pending'' else ''applied''))"
proof -
  let ?i = "commit_id_of s t"
  obtain c st' where c: "commits_ok (cs @ [c])" "cm_commit_id c = ?i" "cm_to_status c = t"
      "cm_status c = ''pending''"
    and stage: "\<And>k. commit_upto k h cfg clk s t cp r w =
       (let w1 = w\<lparr>co_journal := journal_of (cs @ [c])\<rparr>;
            w2 = w1\<lparr>co_store := st'\<rparr>;
            w3 = w2\<lparr>co_audit := co_audit w @ [Good (commit_event s t r ?i (clk 2))]\<rparr>;
            w4 = w3\<lparr>co_journal := journal_of (map (with_status ?i ''applied'') (cs @ [c]))\<rparr>
        in if k < 1 then w else if k < 2 then w1 else if k < 3 then w2 else if k < 4 then w3 else w4)"
    by (rule commit_stages [where clk = clk and cfg = cfg and cp = cp and r = r, OF assms(1,2)]) blast
  show ?thesis
  proof (cases "k < 4")
    case True
    then have "co_journal v = journal_of (cs @ [c])" using assms(3,4) by (simp add: stage Let_def)
    from commit_known [OF this c(1) _ c(2), of h cfg' clk' cp' r'] c(2,3,4) True show ?thesis by auto
  next
    case False
    let ?c = "with_status ?i ''applied'' c" and ?cs = "map (with_status ?i ''applied'') (cs @ [c])"
    have j: "co_journal v = journal_of ?cs" using False assms(3,4) by (simp add: stage Let_def)
    have ok: "commits_ok ?cs" using c(1) by (simp only: commits_ok_with_status)
    have fields: "cm_commit_id ?c = ?i" "cm_to_status ?c = t" "cm_status ?c = ''applied''"
      using c by (simp_all add: with_status_def)
    have "?c \<in> set ?cs" by simp
    from commit_known [OF j ok this fields(1), of h cfg' clk' cp' r'] fields False show ?thesis by auto
  qed
qed

theorem commit_idempotent_witness:
  "\<exists>c v. v = commit_upto 1 sample_host sample_cfg sample_clk run1 ''completed'' (VStr ''ok'') None sample_coord
     \<and> commit sample_host sample_cfg sample_clk run1 ''completed'' (VStr ''ok'') None v = (Inr c, v)
     \<and> cm_status c = ''pending''"
  using commit_idempotent [where clk = sample_clk and clk' = sample_clk and k = 1 and cfg' = sample_cfg
      and cp = "VStr ''ok''" and cp' = "VStr ''ok''" and r = None and r' = None,
      OF sample_applies sample_digest _ refl]
  by fastforce

section \<open>Fencing\<close>

lemma coord_cas_frame:
  "coord_cas h cfg now s est t cp r w = (x, w') \<Longrightarrow> \<exists>st. w' = w\<lparr>co_store := st\<rparr>"
  by (auto simp: coord_cas_def split: prod.splits)

lemma finish_commit_frame:
  "co_store (snd (finish_commit h now c w)) = co_store w \<and> co_leases (snd (finish_commit h now c w)) = co_leases w"
  by (auto simp: finish_commit_def coord_audit_def coord_mark_def split: prod.splits sum.splits)

lemma commit_refused:
  assumes "\<forall>q. get_unlocked (clk 2) (es_execution_id s) (st_file (co_store w)) = Inr (Some q) \<longrightarrow>
     lease_valid cfg (clk 2) (co_leases w) (es_execution_id q) \<noteq> Inr True"
  shows "co_store (snd (commit h cfg clk s t cp r w)) = co_store w
    \<and> co_audit (snd (commit h cfg clk s t cp r w)) = co_audit w"
  using assms
  by (auto simp: commit_def Let_def split: prod.split sum.split option.split bool.split)


text \<open>
  A coordinator whose validity check fails for an execution at every instant it looks leaves the
  state of that execution as it is, whatever else it reconciles.
\<close>

lemma coord_cas_other:
  assumes "store_inv (co_store w)" and "states w y = Some q" and "coord_cas h cfg now q est t cp r w = (x, w')"
  shows "store_inv (co_store w') \<and> co_leases w' = co_leases w \<and> (\<forall>z. z \<noteq> y \<longrightarrow> states w' z = states w z)"
proof -
  have "es_execution_id q = y" "0 \<le> es_version q"
    using view_id [of "st_file (co_store w)" y q] assms(1,2) by (auto simp: store_inv_def)
  then have id: "es_execution_id (next_state q t cp r) = y" "0 \<le> es_version q"
    by (simp_all add: next_state_def)
  show ?thesis
    using save_refines [OF assms(1), of h now "next_state q t cp r" "Some (es_version q)" True
        "Some est" "cc_token cfg" "Some (fencing_validator cfg now (co_leases w))"] assms(3) id assms(1)
    by (cases "spec_save (machine w) (states w) now (next_state q t cp r) (Some (es_version q)) True
        (Some est) (cc_token cfg) (Some (fencing_validator cfg now (co_leases w)))")
      (auto simp: coord_cas_def compare_and_set_def)
qed

lemma reconcile_one_frame:
  assumes "store_inv (co_store w)" and "lease_valid cfg now (co_leases w) x \<noteq> Inr True"
    and "reconcile_one h cfg now c w = (r, w')"
  shows "store_inv (co_store w') \<and> co_leases w' = co_leases w \<and> states w' x = states w x"
proof (cases "lease_valid cfg now (co_leases w) (cm_execution_id c) = Inr True")
  case True
  with assms(2) have other: "x \<noteq> cm_execution_id c" by auto
  show ?thesis
  proof (cases "states w (cm_execution_id c)")
    case None
    then show ?thesis
      using assms by (simp add: reconcile_one_def get_unlocked_view store_inv_def)
  next
    case (Some q)
    note one = reconcile_one_found [OF assms(1) Some True, of h]
    obtain y w1 where cas: "coord_cas h cfg now q (cm_from_status c) (cm_to_status c) (cm_checkpoint c)
        (cm_reason c) w = (y, w1)" by fastforce
    note frame = coord_cas_other [OF assms(1) Some cas] finish_commit_frame [of h now c w]
      finish_commit_frame [of h now c w1]
    show ?thesis
      using assms(1,3) other frame
      by (cases y) (auto simp: one cas split: if_splits)
  qed
next
  case False
  then show ?thesis
    using assms by (auto simp: reconcile_one_def split: sum.splits option.splits bool.splits)
qed

lemma reconcile_all_frame:
  assumes "store_inv (co_store w)" and "\<forall>i. lease_valid cfg (clk i) (co_leases w) x \<noteq> Inr True"
  shows "states (snd (reconcile_all h cfg clk n cs w)) x = states w x"
  using assms
proof (induction cs arbitrary: n w)
  case Nil
  then show ?case by simp
next
  case (Cons c cs)
  obtain y w1 where one: "reconcile_one h cfg (clk n) c w = (y, w1)" by fastforce
  note f = reconcile_one_frame [OF Cons.prems(1) _ one, of x]
  with Cons.prems Cons.IH [of w1 "Suc n"] show ?case
    by (cases y) (auto simp: one split: prod.split)
qed

text \<open>
  C2. A fenced coordinator is harmless. Once the execution's lease was granted with a token above
  the coordinator's, then whatever the lease holders do afterwards, a commit of that execution by
  the old coordinator reaches neither the store nor the audit log (only its journal), and its
  reconciliation never changes the state of that execution.
\<close>

theorem fenced_coordinator_harmless:
  assumes "lease_inv f" and "acquire ttl x o1 now f = (Inr (Some l), f')"
    and "cc_has_leases cfg" and "cc_token cfg = Some t" and "t < ls_fencing_token l"
    and "co_leases w = run (lease_step ttl') f' es" and "store_inv (co_store w)"
    and "es_execution_id s = x"
  shows "co_store (snd (commit h cfg clk s to_status cp r w)) = co_store w
    \<and> co_audit (snd (commit h cfg clk s to_status cp r w)) = co_audit w
    \<and> states (snd (reconcile h cfg clk w)) x = states w x"
proof -
  have "lease_inv f'" "token_of f' x = ls_fencing_token l"
    using acquire_granted [OF assms(1,2)] by (auto simp: token_of_def)
  then have "\<not> holds (co_leases w) x o2 t n" for o2 n
    using leases.stale_forever [of f' t x ttl' es o2 n] assms(5,6) by simp
  then have stale: "lease_valid cfg n (co_leases w) x \<noteq> Inr True" for n
    using assms(3,4) by (auto simp: lease_valid_def holds_def is_owner_def split: option.split)
  have "es_execution_id q = x" if "get_unlocked (clk 2) (es_execution_id s) (st_file (co_store w)) = Inr (Some q)" for q
    using that assms(7,8) view_id [of "st_file (co_store w)" x q] by (simp add: get_unlocked_view store_inv_def)
  then have "\<forall>q. get_unlocked (clk 2) (es_execution_id s) (st_file (co_store w)) = Inr (Some q) \<longrightarrow>
      lease_valid cfg (clk 2) (co_leases w) (es_execution_id q) \<noteq> Inr True"
    using stale [of "clk 2"] by metis
  note quiet = commit_refused [where clk = clk and cfg = cfg and h = h and t = to_status and cp = cp and r = r, OF this]
  obtain y q where p: "pending_commits h (clk 0) False (co_journal w) (co_quarantine w) = (y, q)" by fastforce
  have "states (snd (reconcile h cfg clk w)) x = states w x"
    using reconcile_all_frame [of "w\<lparr>co_quarantine := q\<rparr>" cfg clk x h 1] assms(7) stale
    by (cases y) (simp_all add: reconcile_def p)
  with quiet show ?thesis by (intro conjI) (erule conjunct1, erule conjunct2, assumption)
qed

theorem fenced_coordinator_harmless_witness:
  "co_store (snd (commit sample_host (sample_cfg\<lparr>cc_owner := Some ''a'', cc_token := Some 1\<rparr>) sample_clk run1
      ''failed'' VNone (Some ''boom'') sample_coord)) = sample_store"
proof -
  have l: "co_leases sample_coord = run (lease_step 60) (Object [(''e1'', lease_b)]) []"
    and st: "co_store sample_coord = sample_store" by (simp_all add: sample_coord_def)
  have inv: "store_inv (co_store sample_coord)" using sample_coord_ok by (simp add: coord_ok_def)
  show ?thesis
    using fenced_coordinator_harmless [where s = run1 and t = 1 and clk = sample_clk
        and cfg = "sample_cfg\<lparr>cc_owner := Some ''a'', cc_token := Some 1\<rparr>" and cp = VNone
        and r = "Some ''boom''" and h = sample_host and to_status = "''failed''",
        OF sample_lease_inv sample_acquire _ _ _ l inv]
    by (simp add: st sample_cfg_def lease_b_def run1_def new_state_def)
qed

section \<open>Where the journal falls short\<close>

text \<open>
  The checksum is not verified. A journal record with any non-empty checksum and the right
  sequence number is accepted as it stands: changing the target status and the checkpoint of a
  commit in the file goes unnoticed, whatever the digest function. (\<^verbatim>\<open>with_integrity\<close>
  returns a record that carries a checksum unchanged, so the comparison with itself never fails.)
\<close>

theorem tampering_undetected:
  assumes "commits_ok cs" and "n < length cs"
    and "cs' = cs[n := (cs ! n)\<lparr>cm_to_status := t, cm_checkpoint := VStr v\<rparr>]"
  shows "read_journal h now (journal_of cs') q = (Inr cs', q)"
proof -
  have "list_all commit_ok cs'"
    using assms
    by (auto simp: commits_ok_def commit_ok_def list_all_iff dest!: set_update_subset_insert [THEN subsetD])
  moreover have "numbered m cs \<Longrightarrow> n < length cs \<Longrightarrow>
      numbered m (cs[n := (cs ! n)\<lparr>cm_to_status := t, cm_checkpoint := VStr v\<rparr>])" for m
    by (induction cs arbitrary: m n) (auto split: nat.split)
  then have "numbered 1 cs'" using assms by (auto simp: commits_ok_def)
  ultimately show ?thesis by (simp add: read_journal_def read_journal_from_ok)
qed


definition sample_commit :: "int \<Rightarrow> string \<Rightarrow> exec_commit" where
  "sample_commit n i =
     \<lparr>cm_commit_id = i, cm_execution_id = ''e1'', cm_from_status = ''running'', cm_to_status = ''failed'',
      cm_attempt = 1, cm_checkpoint = VNone, cm_reason = None, cm_created_at = 0,
      cm_correlation_id = None, cm_status = ''pending'', cm_sequence = n, cm_checksum = ''abc''\<rparr>"

lemma sample_commit_simps [simp]:
  "cm_commit_id (sample_commit n i) = i" "cm_sequence (sample_commit n i) = n" "commit_ok (sample_commit n i)"
  "cm_status (sample_commit n i) = ''pending''"
  by (simp_all add: sample_commit_def commit_ok_def)

theorem tampering_undetected_witness:
  "read_journal sample_host 0 (journal_of [(sample_commit 1 ''a'')\<lparr>cm_to_status := ''completed'', cm_checkpoint := VStr ''x''\<rparr>]) [] =
     (Inr [(sample_commit 1 ''a'')\<lparr>cm_to_status := ''completed'', cm_checkpoint := VStr ''x''\<rparr>], [])"
proof -
  have "commits_ok [sample_commit 1 ''a'']" by (simp add: commits_ok_def)
  from tampering_undetected [OF this, of 0] show ?thesis by simp
qed

text \<open>
  Rewriting after damage loses a commit. Take a journal whose first line is damaged and whose
  other records are sound and numbered from 2. Reading it returns all of them. But after marking
  any commit, which rewrites the file without the damaged line, the first sound record no longer
  has the number its place requires: the next read quarantines it, and the commit, pending or not, is
  gone from every later read.
\<close>

theorem mark_after_damage_loses_commit:
  assumes "list_all commit_ok (c # cs)" and "numbered 2 (c # cs)" and "distinct (map cm_commit_id (c # cs))"
    and "j = Bad text # journal_of (c # cs)"
    and "(r, j', q') = mark h now i status j q"
  shows "fst (read_journal h now j q) = Inr (c # cs)
    \<and> (\<exists>cs'. fst (read_journal h now' j' q') = Inr cs' \<and> cm_commit_id c \<notin> cm_commit_id ` set cs')"
proof -
  let ?q = "quarantine now (Bad text) ''invalid JSON'' q"
  let ?c = "with_status i status c" and ?cs = "map (with_status i status) cs"
  have read: "read_journal h now j q = (Inr (c # cs), ?q)"
    using read_journal_from_ok [OF assms(1,2), of h now ?q] by (simp add: read_journal_def assms(4) read_line_def)
  have "commit_line (with_integrity h (with_status i status d)) = commit_line (with_status i status d)"
    if "d \<in> set (c # cs)" for d
    using that assms(1) by (auto simp: list_all_iff commit_ok_def)
  then have "map (\<lambda>c. commit_line (with_integrity h c)) (mark_first h i status (c # cs)) = journal_of (?c # ?cs)"
    unfolding mark_first_eq [OF assms(1,3)] by (simp add: journal_of_def)
  with read assms(5) have j': "j' = journal_of (?c # ?cs)" by (simp add: mark_def)
  have ok: "commit_ok ?c" "list_all commit_ok ?cs" "numbered 3 ?cs" "cm_sequence ?c = 2"
    using assms(1,2) by (simp_all add: list_all_iff)
  have "read_line h now' 1 (commit_line ?c) = Skip (''invalid journal integrity at sequence '' @ str_int 1) 3"
    using ok(1,4) by (simp add: read_line_def commit_line_def asdict_sequence setdefault_asdict
        commit_ok_def construct_asdict_commit Let_def)
  then have "fst (read_journal h now' j' q') = Inr ?cs"
    using read_journal_from_ok [OF ok(2,3), of h now'] unfolding j' read_journal_def
    by (simp add: journal_of_def read_journal_from_line)
  moreover have "cm_commit_id c \<notin> cm_commit_id ` set ?cs"
    using assms(3) by (auto simp: image_iff)
  ultimately show ?thesis using read by simp
qed

theorem mark_after_damage_loses_commit_witness:
  "\<exists>r j' q' cs'. mark sample_host 1 ''b'' ''applied''
      (Bad ''torn'' # journal_of [sample_commit 2 ''a'', sample_commit 3 ''b'']) [] = (r, j', q')
     \<and> fst (read_journal sample_host 2 j' q') = Inr cs' \<and> ''a'' \<notin> cm_commit_id ` set cs'"
proof -
  obtain r j' q' where m: "(r, j', q') = mark sample_host 1 ''b'' ''applied''
      (Bad ''torn'' # journal_of [sample_commit 2 ''a'', sample_commit 3 ''b'']) []"
    by (metis surj_pair)
  from mark_after_damage_loses_commit [OF _ _ _ refl m, where now' = 2] m [symmetric]
  show ?thesis by fastforce
qed


lemma coord_cas_illegal:
  assumes "store_inv (co_store w)" and "states w x = Some s"
    and "lease_valid cfg now (co_leases w) x = Inr True"
    and "\<not> can_transition (machine w) (es_status s) t"
  shows "\<exists>m. coord_cas h cfg now s (es_status s) t cp r w = (Inl (Exc InvalidExecutionTransition m), w)"
proof -
  have f: "store_ok (st_file (co_store w))" using assms(1) by (simp add: store_inv_def)
  have x: "es_execution_id s = x" "1 \<le> es_version s" using view_id [OF f assms(2)] by auto
  have ne: "x \<noteq> []" using assms(2) by (cases rule: store_lookup [OF f, of x]) auto
  have n: "es_execution_id (next_state s t cp r) = x" "es_status (next_state s t cp r) = t"
    by (simp_all add: next_state_def x(1))
  have mv: "map_version (states w) x = es_version s" "map_status (states w) x = es_status s"
    by (simp_all add: map_version_def map_status_def assms(2))
  obtain m where "validate (machine w) (es_status s) t = Inl (Exc InvalidExecutionTransition m)"
    using assms(4) by (cases rule: validate_cases [of "machine w" "es_status s" t]) auto
  then have "spec_save (machine w) (states w) now (next_state s t cp r) (Some (es_version s)) True
      (Some (es_status s)) (cc_token cfg) (Some (fencing_validator cfg now (co_leases w))) =
      Inl (Exc InvalidExecutionTransition m)"
    by (simp add: spec_save_def Let_def n ne mv fencing_validator_def assms(2,3))
  with save_refines [OF assms(1), of h now "next_state s t cp r" "Some (es_version s)" True
      "Some (es_status s)" "cc_token cfg" "Some (fencing_validator cfg now (co_leases w))"] x(2)
  show ?thesis by (simp add: coord_cas_def compare_and_set_def)
qed

lemma not_tolerated_invalid [simp]: "\<not> tolerated (Exc InvalidExecutionTransition m)"
  by (simp add: tolerated_def exc_simps)

text \<open>
  A rejected commit blocks reconciliation. The record is journaled before the transition
  is validated. A commit to an illegal status therefore raises
  \<^verbatim>\<open>InvalidExecutionTransition\<close> but leaves its record pending, and from then on every
  \<open>reconcile\<close>, of this or any later process, raises the same error and repairs nothing,
  whatever recoverable commits follow the record, as long as the execution stays as it is.
\<close>

theorem rejected_commit_blocks_reconcile:
  assumes ok: "coord_ok w cs" and settled: "settled cs" and h: "digest_ok h"
    and s: "states w (es_execution_id s) = Some s"
    and fresh: "commit_id_of s t \<notin> cm_commit_id ` set cs"
    and bad: "\<not> can_transition (machine w) (es_status s) t" and ne: "es_status s \<noteq> t"
    and lv: "lease_valid cfg (clk 2) (co_leases w) (es_execution_id s) = Inr True"
    and lv': "lease_valid cfg' (clk' 1) (co_leases w) (es_execution_id s) = Inr True"
    and y: "(y, v) = commit h cfg clk s t cp r w"
  shows "raises (y, v) InvalidExecutionTransition
    \<and> (\<exists>c. co_journal v = journal_of (cs @ [c]) \<and> commits_ok (cs @ [c]) \<and> cm_commit_id c = commit_id_of s t
      \<and> (\<forall>ds u. commits_ok (cs @ c # ds) \<and> u = v\<lparr>co_journal := journal_of (cs @ c # ds)\<rparr> \<longrightarrow>
           raises (reconcile h cfg' clk' u) InvalidExecutionTransition \<and> snd (reconcile h cfg' clk' u) = u))"
proof -
  let ?x = "es_execution_id s"
  have w: "store_inv (co_store w)" "co_journal w = journal_of cs" "commits_ok cs"
    using ok by (auto simp: coord_ok_def)
  obtain c where c: "append_journal h (new_commit (clk 1) s t cp r) (co_journal w) = (c, journal_of (cs @ [c]))"
    "cm_commit_id c = commit_id_of s t" "cm_execution_id c = ?x" "cm_from_status c = es_status s"
    "cm_to_status c = t" "cm_status c = ''pending''" and ok': "commits_ok (cs @ [c])"
    by (rule commit_journaled [OF ok h fresh, of "clk 1" cp r]) blast
  let ?v = "w\<lparr>co_journal := journal_of (cs @ [c])\<rparr>"
  obtain m where cas: "coord_cas h cfg (clk 2) s (es_status s) t cp r ?v = (Inl (Exc InvalidExecutionTransition m), ?v)"
    using coord_cas_illegal [of ?v ?x s cfg "clk 2" t h cp r] w s lv bad by auto
  have get: "get_unlocked (clk 2) ?x (st_file (co_store w)) = Inr (Some s)"
    using w(1) s by (simp add: get_unlocked_view store_inv_def)
  have pend: "pending_commits h (clk 0) True (co_journal w) (co_quarantine w) = (Inr cs, co_quarantine w)"
    by (simp add: w(2) pending_commits_ok [OF w(3)])
  have commit: "commit h cfg clk s t cp r w = (Inl (Exc InvalidExecutionTransition m), ?v)"
    by (simp add: commit_def pend map_of_commits_None [OF fresh] c(1) get lv cas Let_def)
  have "raises (reconcile h cfg' clk' u) InvalidExecutionTransition \<and> snd (reconcile h cfg' clk' u) = u"
    if ds: "commits_ok (cs @ c # ds)" and u: "u = ?v\<lparr>co_journal := journal_of (cs @ c # ds)\<rparr>" for ds u
  proof -
    have su: "store_inv (co_store u)" "states u ?x = Some s" "machine u = machine w"
      "lease_valid cfg' (clk' 1) (co_leases u) ?x = Inr True"
      using w(1) s lv' by (simp_all add: u)
    obtain m' where "coord_cas h cfg' (clk' 1) s (es_status s) t (cm_checkpoint c) (cm_reason c) u =
        (Inl (Exc InvalidExecutionTransition m'), u)"
      using coord_cas_illegal [OF su(1,2,4)] bad su(3) by metis
    then have one: "reconcile_one h cfg' (clk' 1) c u = (Inl (Exc InvalidExecutionTransition m'), u)"
      using reconcile_one_found [of u c s cfg' "clk' 1" h] su ne c(3-5) by simp
    obtain ds' where "pending_commits h (clk' 0) False (co_journal u) (co_quarantine u) = (Inr (c # ds'), co_quarantine u)"
      using c(6) by (simp add: u pending_commits_ok [OF ds] settled_filter [OF settled])
    then show ?thesis by (simp add: reconcile_def one)
  qed
  with commit y c(2) ok' show ?thesis by auto
qed


theorem rejected_commit_blocks_reconcile_witness:
  "\<exists>y v. commit sample_host sample_cfg sample_clk run1 ''pending'' VNone None sample_coord = (y, v)
     \<and> raises (y, v) InvalidExecutionTransition
     \<and> raises (reconcile sample_host sample_cfg sample_clk v) InvalidExecutionTransition"
proof -
  have run1: "es_execution_id run1 = ''e1''" "es_status run1 = ''running''"
    by (simp_all add: run1_def new_state_def)
  have m: "machine sample_coord = DEFAULT_TRANSITIONS" by (simp add: sample_coord_def sample_store_def)
  have bad: "\<not> can_transition DEFAULT_TRANSITIONS ''running'' ''pending''" by code_simp
  obtain y v where yv: "(y, v) = commit sample_host sample_cfg sample_clk run1 ''pending'' VNone None sample_coord"
    by (metis surj_pair)
  from rejected_commit_blocks_reconcile [where clk = sample_clk and clk' = sample_clk and cfg' = sample_cfg,
      OF sample_coord_ok _ sample_digest _ _ _ _ _ _ yv]
  obtain c where c: "raises (y, v) InvalidExecutionTransition" "co_journal v = journal_of ([] @ [c])"
    "commits_ok ([] @ [c])"
    "\<forall>ds u. commits_ok ([] @ c # ds) \<and> u = v\<lparr>co_journal := journal_of ([] @ c # ds)\<rparr> \<longrightarrow>
       raises (reconcile sample_host sample_cfg sample_clk u) InvalidExecutionTransition"
    by (auto simp: settled_def sample_states run1 m bad sample_lease_valid)
  from c(2) have "v = v\<lparr>co_journal := journal_of ([] @ c # [])\<rparr>" by simp
  with c(1,3,4) show ?thesis using yv by metis
qed

end
