(* ===== verification/Sandbox.thy ===== *)
theory Sandbox
  imports Audit_Log
begin

text \<open>
  \<^verbatim>\<open>runtime/tool_registry.py\<close> and \<^verbatim>\<open>runtime/tool_sandbox.py\<close>: the registry of tools
  with the permissions they require, and the sandbox that grants a call only what its own
  authorization map allows the agent. A tool's handler is a parameter: a function from its arguments
  and the environment \<open>'s\<close> to an outcome and the environment it leaves (which includes whatever
  other parties do while it runs).
\<close>

section \<open>Stripping\<close>

text \<open>\<^verbatim>\<open>str.strip()\<close> on characters up to 255.\<close>

definition is_space :: "char \<Rightarrow> bool" where
  "is_space c \<longleftrightarrow> (of_char c :: nat) \<in> {9..13} \<union> {28..32} \<union> {133, 160}"

definition strip :: "string \<Rightarrow> string" where
  "strip s = rev (dropWhile is_space (rev (dropWhile is_space s)))"

definition clean :: "string list \<Rightarrow> string list" where
  "clean ps = filter (\<lambda>p. p \<noteq> []) (map strip ps)"

section \<open>The registry\<close>

text \<open>
  What a tool run ends in: a value, a typed result, an exception, or being cut off by the call's
  timeout.
\<close>

datatype outcome =
    Value pyval
  | Typed tool_result
  | Raised exc
  | Cut_Off

type_synonym 's handler = "pydict \<Rightarrow> 's \<Rightarrow> outcome \<times> 's"

record 's tool_spec =
  ts_name :: string
  ts_handler :: "'s handler"
  ts_permissions :: "string list"

type_synonym 's registry = "(string \<times> 's tool_spec) list"

definition register ::
    "string \<Rightarrow> 's handler \<Rightarrow> string list \<Rightarrow> 's registry \<Rightarrow> 's tool_spec result \<times> 's registry" where
  "register name handler permissions reg =
     (if strip name = [] then (Inl (Exc ValueError ''tool name and callable handler are required''), reg)
      else (let spec = \<lparr>ts_name = strip name, ts_handler = handler, ts_permissions = clean permissions\<rparr>
            in (Inr spec, dset (ts_name spec) spec reg)))"

definition unregister :: "string \<Rightarrow> 's registry \<Rightarrow> 's tool_spec result \<times> 's registry" where
  "unregister name reg =
     (case map_of reg name of
        None \<Rightarrow> (Inl (Exc KeyError (''unknown tool: '' @ name)), reg)
      | Some spec \<Rightarrow> (Inr spec, AList.delete name reg))"

definition get_tool :: "string \<Rightarrow> 's registry \<Rightarrow> 's tool_spec result" where
  "get_tool name reg =
     (case map_of reg name of None \<Rightarrow> Inl (Exc KeyError (''unknown tool: '' @ name)) | Some spec \<Rightarrow> Inr spec)"

text \<open>\<^verbatim>\<open>names\<close>: the registered names in the order of Python's strings, by character codes.\<close>

fun string_le :: "string \<Rightarrow> string \<Rightarrow> bool" where
  "string_le [] t = True"
| "string_le (c # s) [] = False"
| "string_le (c # s) (d # t) =
     ((of_char c :: nat) < of_char d \<or> (of_char c :: nat) = of_char d \<and> string_le s t)"

fun insert_name :: "string \<Rightarrow> string list \<Rightarrow> string list" where
  "insert_name n [] = [n]"
| "insert_name n (m # ms) = (if string_le n m then n # m # ms else m # insert_name n ms)"

definition registry_names :: "'s registry \<Rightarrow> string list" where
  "registry_names reg = foldr insert_name (map fst reg) []"

text \<open>A tool is addressed by its name with keyword arguments, or by a typed call.\<close>

datatype target = By_Name string pydict | By_Call tool_call

fun target_name :: "target \<Rightarrow> string" where
  "target_name (By_Name name _) = name"
| "target_name (By_Call call) = tc_tool call"

fun target_arguments :: "target \<Rightarrow> pydict" where
  "target_arguments (By_Name _ kwargs) = kwargs"
| "target_arguments (By_Call call) = tc_arguments call"

definition registry_execute ::
    "'s registry \<Rightarrow> target \<Rightarrow> string list \<Rightarrow> 's \<Rightarrow> outcome \<times> 's" where
  "registry_execute reg target granted_permissions env =
     (case get_tool (target_name target) reg of
        Inl e \<Rightarrow> (Raised e, env)
      | Inr spec \<Rightarrow>
          (let granted = clean granted_permissions;
               missing = filter (\<lambda>p. \<not> List.member granted p) (ts_permissions spec)
           in if missing \<noteq> [] then
                (Raised (Exc ToolPermissionError (''tool '' @ ts_name spec @ '' requires permissions'')), env)
              else ts_handler spec (target_arguments target) env))"

text \<open>The names come out sorted, each registered one and no other.\<close>

lemma string_le_total: "\<not> string_le s t \<Longrightarrow> string_le t s"
  by (induction s t rule: string_le.induct) auto

lemma string_le_trans: "string_le s t \<Longrightarrow> string_le t u \<Longrightarrow> string_le s u"
proof (induction s t arbitrary: u rule: string_le.induct)
  case (3 c s d t)
  then show ?case by (cases u) auto
qed simp_all

lemma insert_name_set [simp]: "set (insert_name n ms) = insert n (set ms)"
  by (induction ms) auto

lemma insert_name_sorted: "sorted_wrt string_le ms \<Longrightarrow> sorted_wrt string_le (insert_name n ms)"
proof (induction ms)
  case (Cons m ms)
  then show ?case using string_le_total [of n m] string_le_trans by auto
qed simp

lemma registry_names_sorted:
  "sorted_wrt string_le (registry_names reg) \<and> set (registry_names reg) = dom (map_of reg)"
proof -
  have "sorted_wrt string_le (foldr insert_name ns [])" "set (foldr insert_name ns []) = set ns" for ns
    by (induction ns) (simp_all add: insert_name_sorted)
  then show ?thesis by (simp add: registry_names_def dom_map_of_conv_image_fst)
qed

section \<open>The sandbox\<close>

record tool_context =
  tx_agent_id :: string
  tx_permissions :: "string list"

record 's sandbox =
  sb_registry :: "'s registry"
  sb_authorization :: "(string \<times> string list) list"

definition new_sandbox :: "'s registry \<Rightarrow> (string \<times> string list) list \<Rightarrow> 's sandbox" where
  "new_sandbox reg authorization =
     \<lparr>sb_registry = reg, sb_authorization = map (map_prod id clean) authorization\<rparr>"

definition allowed_permissions :: "'s sandbox \<Rightarrow> string \<Rightarrow> string list" where
  "allowed_permissions sb agent_id = dget (sb_authorization sb) agent_id []"

definition normalize_call :: "target \<Rightarrow> pydict \<Rightarrow> tool_call result" where
  "normalize_call target kwargs =
     (case (case target of
              By_Call call \<Rightarrow>
                (if kwargs \<noteq> [] then
                   Inl (Exc ToolBoundaryError ''ToolCall arguments cannot be overridden at the sandbox boundary'')
                 else Inr call)
            | By_Name name _ \<Rightarrow>
                (if strip name = [] then Inl (Exc ToolBoundaryError ''tool name is required'')
                 else Inr \<lparr>tc_tool = strip name, tc_arguments = kwargs, tc_call_id = [],
                           tc_timeout = None, tc_idempotency_key = None\<rparr>)) of
        Inl e \<Rightarrow> Inl e
      | Inr call \<Rightarrow>
          (case tc_timeout call of
             Some t \<Rightarrow> if t \<le> 0 then Inl (Exc ToolBoundaryError ''tool timeout must be positive'') else Inr call
           | None \<Rightarrow> Inr call))"

text \<open>\<^verbatim>\<open>except Exception\<close>: a cancellation is no \<^verbatim>\<open>Exception\<close>.\<close>

definition is_exception :: "exc \<Rightarrow> bool" where
  "is_exception e = isinst e [PyException]"

definition granted_to :: "'s sandbox \<Rightarrow> tool_context \<Rightarrow> string list" where
  "granted_to sb ctx =
     filter (\<lambda>p. List.member (allowed_permissions sb (tx_agent_id ctx)) p) (tx_permissions ctx)"

definition sandbox_execute ::
    "'s sandbox \<Rightarrow> (nat \<Rightarrow> time) \<Rightarrow> target \<Rightarrow> tool_context \<Rightarrow> pydict \<Rightarrow> exec_audit \<times> 's \<Rightarrow>
     outcome \<times> exec_audit \<times> 's" where
  "sandbox_execute sb clk target ctx kwargs s =
     (case s of (audit, env) \<Rightarrow>
      if tx_agent_id ctx = [] then
        (Raised (Exc ToolBoundaryError ''trusted agent identity is required''), audit, env)
      else case normalize_call target kwargs of
        Inl e \<Rightarrow> (Raised e, audit, env)
      | Inr call \<Rightarrow>
          (let agent = tx_agent_id ctx;
               audit1 = snd (ea_record ''tool.execution.started'' agent (Some (tc_tool call)) ''ok''
                               None None [] (clk 0) audit)
           in case registry_execute (sb_registry sb) (By_Call call) (granted_to sb ctx) env of
                (Raised e, env1) \<Rightarrow>
                  (Raised e,
                   (if is_exception e then
                      snd (ea_record ''tool.execution.failed'' agent (Some (tc_tool call)) ''error''
                             None None [(''error'', VStr (exc_msg e))] (clk 1) audit1)
                    else audit1), env1)
              | (Cut_Off, env1) \<Rightarrow> (Cut_Off, audit1, env1)
              | (out, env1) \<Rightarrow>
                  (out, snd (ea_record ''tool.execution.completed'' agent (Some (tc_tool call)) ''ok''
                               None None [] (clk 1) audit1), env1)))"

section \<open>Least privilege\<close>

lemma clean_set: "set (clean ps) = strip ` set ps - {[]}"
  by (auto simp: clean_def)

lemma registry_execute_cases:
  obtains (Unknown) "map_of reg (target_name t) = None"
      "registry_execute reg t granted env = (Raised (Exc KeyError (''unknown tool: '' @ target_name t)), env)"
    | (Denied) spec m where "map_of reg (target_name t) = Some spec" "\<not> set (ts_permissions spec) \<subseteq> set (clean granted)"
      "registry_execute reg t granted env = (Raised (Exc ToolPermissionError m), env)"
    | (Run) spec where "map_of reg (target_name t) = Some spec" "set (ts_permissions spec) \<subseteq> set (clean granted)"
      "registry_execute reg t granted env = ts_handler spec (target_arguments t) env"
proof (cases "map_of reg (target_name t)")
  case None
  then show thesis by (rule Unknown) (simp add: registry_execute_def get_tool_def None)
next
  case (Some spec)
  show thesis
  proof (cases "set (ts_permissions spec) \<subseteq> set (clean granted)")
    case True
    then have "filter (\<lambda>p. \<not> List.member (clean granted) p) (ts_permissions spec) = []"
      by (auto simp: filter_empty_conv List.member_iff)
    with Some True show thesis by (intro Run) (simp_all add: registry_execute_def get_tool_def)
  next
    case False
    then have "filter (\<lambda>p. \<not> List.member (clean granted) p) (ts_permissions spec) \<noteq> []"
      by (auto simp: filter_empty_conv List.member_iff)
    with Some False show thesis by (intro Denied) (simp_all add: registry_execute_def get_tool_def Let_def)
  qed
qed


lemma dropWhile_hd: "xs = [] \<or> \<not> P (hd xs) \<Longrightarrow> dropWhile P xs = xs"
  by (cases xs) auto

lemma strip_strip [simp]: "strip (strip s) = strip s"
proof -
  let ?y = "dropWhile is_space s"
  have split: "?y = strip s @ rev (takeWhile is_space (rev ?y))"
    unfolding strip_def by (metis rev_append rev_rev_ident takeWhile_dropWhile_id)
  have "strip s = [] \<or> \<not> is_space (hd (strip s))"
  proof (cases "strip s = []")
    case False
    then have "hd ?y = hd (strip s)" by (subst split) simp
    moreover have "?y \<noteq> []" using False split by (metis append_is_Nil_conv)
    then have "\<not> is_space (hd ?y)" by (rule hd_dropWhile)
    ultimately show ?thesis by simp
  qed simp
  then have "dropWhile is_space (strip s) = strip s" by (rule dropWhile_hd)
  then show ?thesis by (metis dropWhile_idem rev_rev_ident strip_def)
qed

lemma clean_clean: "p \<in> set (clean ps) \<Longrightarrow> strip p = p \<and> p \<noteq> []"
  by (auto simp: clean_set)

lemma granted_exact:
  "set (clean (granted_to (new_sandbox reg auth) ctx)) =
     set (tx_permissions ctx) \<inter> set (allowed_permissions (new_sandbox reg auth) (tx_agent_id ctx))"
proof -
  let ?a = "allowed_permissions (new_sandbox reg auth) (tx_agent_id ctx)"
  have "map_of (map (map_prod id clean) auth) x = map_option clean (map_of auth x)" for x
    by (induction auth) auto
  then have "strip p = p \<and> p \<noteq> []" if "p \<in> set ?a" for p
    using that clean_clean
    by (auto simp: allowed_permissions_def new_sandbox_def dget_def split: option.splits)
  then show ?thesis by (force simp: clean_set granted_to_def List.member_iff)
qed

lemma sandbox_verdict:
  assumes "sb = new_sandbox reg auth" and "(out, audit', env') = sandbox_execute sb clk (By_Call call) ctx [] (audit, env)"
    and "granted = set (tx_permissions ctx) \<inter> set (allowed_permissions sb (tx_agent_id ctx))"
  shows "if tx_agent_id ctx \<noteq> [] \<and> (\<forall>t. tc_timeout call = Some t \<longrightarrow> 0 < t)
        \<and> (\<exists>spec. map_of reg (tc_tool call) = Some spec \<and> set (ts_permissions spec) \<subseteq> granted)
    then (out, env') = ts_handler (the (map_of reg (tc_tool call))) (tc_arguments call) env
    else env' = env \<and> (\<exists>e. out = Raised e)"
proof -
  have sb: "sb_registry sb = reg" by (simp add: assms(1) new_sandbox_def)
  have granted: "set (clean (granted_to sb ctx)) = granted"
    using granted_exact [of reg auth ctx] by (simp add: assms(1,3))
  have normal: "normalize_call (By_Call call) [] = Inr call" if "\<forall>t. tc_timeout call = Some t \<longrightarrow> 0 < t"
    using that by (auto simp: normalize_call_def split: option.split)
  have refused: "\<exists>e. normalize_call (By_Call call) [] = Inl e" if "\<not> (\<forall>t. tc_timeout call = Some t \<longrightarrow> 0 < t)"
    using that by (auto simp: normalize_call_def)
  obtain o1 e1 where run: "registry_execute reg (By_Call call) (granted_to sb ctx) env = (o1, e1)" by fastforce
  show ?thesis
  proof (cases "tx_agent_id ctx \<noteq> [] \<and> (\<forall>t. tc_timeout call = Some t \<longrightarrow> 0 < t)")
    case True
    then have oe: "out = o1 \<and> env' = e1"
      using assms(2) by (cases o1) (simp_all add: sandbox_execute_def normal sb run Let_def)
    show ?thesis
    proof (cases rule: registry_execute_cases [of reg "By_Call call" "granted_to sb ctx" env, case_names Unknown Denied Run])
      case Unknown
      then show ?thesis using True oe run by simp
    next
      case (Denied spec m)
      then show ?thesis using True oe run granted by simp
    next
      case (Run spec)
      then show ?thesis using True oe run granted by simp
    qed
  next
    case False
    then show ?thesis using assms(2) refused by (auto simp: sandbox_execute_def split: if_splits)
  qed
qed

text \<open>
  C29. Least privilege. Whatever a caller puts in its context, a tool's handler runs only for a
  named agent and only if each permission the tool requires is both claimed by the caller and
  granted to that agent by the sandbox's own authorization map; it then runs once, on the call's
  arguments. In every other case the call raises and the environment is untouched, and it is never
  the case that a permitted call to a registered tool is refused.
\<close>

theorem least_privilege:
  assumes "sb = new_sandbox reg auth" and "(out, audit', env') = sandbox_execute sb clk (By_Call call) ctx [] (audit, env)"
    and "granted = set (tx_permissions ctx) \<inter> set (allowed_permissions sb (tx_agent_id ctx))"
  shows "if tx_agent_id ctx \<noteq> [] \<and> (\<forall>t. tc_timeout call = Some t \<longrightarrow> 0 < t)
        \<and> (\<exists>spec. map_of reg (tc_tool call) = Some spec \<and> set (ts_permissions spec) \<subseteq> granted)
    then (out, env') = ts_handler (the (map_of reg (tc_tool call))) (tc_arguments call) env
    else env' = env \<and> (\<exists>e. out = Raised e)"
  by (rule sandbox_verdict [OF assms])

definition sample_tool :: "nat tool_spec" where
  "sample_tool = \<lparr>ts_name = ''pay'', ts_handler = (\<lambda>_ n. (Value (VInt 1), n + 1)), ts_permissions = [''spend'']\<rparr>"

definition sample_call :: tool_call where
  "sample_call = \<lparr>tc_tool = ''pay'', tc_arguments = [], tc_call_id = ''c1'', tc_timeout = Some 5,
     tc_idempotency_key = Some ''k1''\<rparr>"

theorem least_privilege_witness:
  "snd (snd (sandbox_execute (new_sandbox [(''pay'', sample_tool)] [(''a'', ['' spend ''])]) (\<lambda>n. int n) (By_Call sample_call)
      \<lparr>tx_agent_id = ''a'', tx_permissions = [''spend'']\<rparr> [] (\<lparr>ea_events = [], ea_log = None\<rparr>, 0))) = 1
   \<and> snd (snd (sandbox_execute (new_sandbox [(''pay'', sample_tool)] []) (\<lambda>n. int n) (By_Call sample_call)
      \<lparr>tx_agent_id = ''a'', tx_permissions = [''spend'']\<rparr> [] (\<lparr>ea_events = [], ea_log = None\<rparr>, 0))) = 0"
proof -
  let ?reg = "[(''pay'', sample_tool)]" and ?ctx = "\<lparr>tx_agent_id = ''a'', tx_permissions = [''spend'']\<rparr>"
  have strip: "clean ['' spend ''] = [''spend'']" by code_simp
  have call: "tc_tool sample_call = ''pay''" "tc_timeout sample_call = Some 5" "tc_arguments sample_call = []"
    by (simp_all add: sample_call_def)
  obtain o1 a1 e1 where 1: "(o1, a1, e1) = sandbox_execute (new_sandbox ?reg [(''a'', ['' spend ''])]) (\<lambda>n. int n) (By_Call sample_call) ?ctx [] (\<lparr>ea_events = [], ea_log = None\<rparr>, 0)"
    by (metis surj_pair)
  obtain o2 a2 e2 where 2: "(o2, a2, e2) = sandbox_execute (new_sandbox ?reg []) (\<lambda>n. int n) (By_Call sample_call) ?ctx [] (\<lparr>ea_events = [], ea_log = None\<rparr>, 0)"
    by (metis surj_pair)
  have "e1 = 1"
    using least_privilege [OF refl 1 refl]
    by (simp add: call sample_tool_def allowed_permissions_def new_sandbox_def strip dget_def)
  moreover have "e2 = 0"
    using least_privilege [OF refl 2 refl]
    by (simp add: call sample_tool_def allowed_permissions_def new_sandbox_def dget_def)
  ultimately show ?thesis using 1 2 by (metis snd_conv)
qed

end
