(* ===== verification/Intent_Store.thy ===== *)
theory Intent_Store
  imports Interfaces Values
begin

text \<open>
  \<^verbatim>\<open>runtime/tool_intent_store.py\<close>: the ledger of tool calls with side effects, a JSON file
  from idempotency keys to intents. An intent is claimed by an owner with a claim token for a limited
  time; only the holder of an unexpired claim can record its outcome, or a durable journal record.
  Every public operation runs under the ledger's lock and is one step.
\<close>

definition AMBIGUOUS_STATES :: "string list" where
  "AMBIGUOUS_STATES = [''prepared'', ''executing'', ''ambiguous'']"

definition TERMINAL_STATES :: "string list" where
  "TERMINAL_STATES = [''completed'', ''failed'']"

definition VALID_STATES :: "string list" where
  "VALID_STATES = AMBIGUOUS_STATES @ TERMINAL_STATES"

abbreviation ambiguous_state :: "string \<Rightarrow> bool" where
  "ambiguous_state s \<equiv> s \<in> set AMBIGUOUS_STATES"

abbreviation terminal_state :: "string \<Rightarrow> bool" where
  "terminal_state s \<equiv> s \<in> set TERMINAL_STATES"

lemma states_disjoint: "terminal_state s \<Longrightarrow> \<not> ambiguous_state s"
  by (auto simp: TERMINAL_STATES_def AMBIGUOUS_STATES_def)

record intent =
  ti_key :: string
  ti_call_id :: string
  ti_tool :: string
  ti_arguments :: pyval
  ti_execution_id :: "string option"
  ti_state :: string
  ti_created_at :: time
  ti_owner :: "string option"
  ti_token :: "string option"
  ti_expires :: "time option"

type_synonym intent_file = "(string \<times> intent) list json_file"

definition new_intent ::
    "string \<Rightarrow> string \<Rightarrow> string \<Rightarrow> pyval \<Rightarrow> string option \<Rightarrow> time \<Rightarrow> intent" where
  "new_intent key call_id tool arguments x now =
     \<lparr>ti_key = key, ti_call_id = call_id, ti_tool = tool, ti_arguments = arguments,
      ti_execution_id = x, ti_state = ''prepared'', ti_created_at = now, ti_owner = None,
      ti_token = None, ti_expires = None\<rparr>"

definition read_intents :: "intent_file \<Rightarrow> (string \<times> intent) list result" where
  "read_intents f =
     (case f of
        Missing \<Rightarrow> Inr []
      | Invalid_JSON \<Rightarrow> Inl (Exc JSONDecodeError ''invalid JSON'')
      | Not_Object \<Rightarrow> Inl (Exc ValueError ''tool intent store must be an object'')
      | Object d \<Rightarrow> Inr d)"

definition get_intent :: "string \<Rightarrow> intent_file \<Rightarrow> intent option result" where
  "get_intent key f =
     (if key = [] then Inr None
      else case read_intents f of Inl e \<Rightarrow> Inl e | Inr d \<Rightarrow> Inr (map_of d key))"

definition asdict_intent :: "intent \<Rightarrow> intent" where
  "asdict_intent i = i\<lparr>ti_arguments := asdict_val (ti_arguments i)\<rparr>"

definition prepare :: "intent \<Rightarrow> intent_file \<Rightarrow> intent result \<times> intent_file" where
  "prepare i f =
     (if ti_state i \<notin> set VALID_STATES then (Inl (Exc ValueError ''invalid intent state''), f)
      else case read_intents f of
        Inl e \<Rightarrow> (Inl e, f)
      | Inr d \<Rightarrow>
          (case map_of d (ti_key i) of
             Some existing \<Rightarrow> (Inr existing, f)
           | None \<Rightarrow> (Inr i, Object (dset (ti_key i) (asdict_intent i) d))))"

section \<open>Claims\<close>

definition claim_ttl :: "int \<Rightarrow> int" where
  "claim_ttl ttl = max 1 ttl"

definition claimed :: "int \<Rightarrow> time \<Rightarrow> string \<Rightarrow> string \<Rightarrow> intent \<Rightarrow> intent" where
  "claimed ttl now owner token i =
     i\<lparr>ti_owner := Some owner, ti_token := Some token, ti_expires := Some (now + seconds ttl),
       ti_state := ''executing''\<rparr>"

definition unclaimed :: "string \<Rightarrow> intent \<Rightarrow> intent" where
  "unclaimed state i = i\<lparr>ti_state := state, ti_owner := None, ti_token := None, ti_expires := None\<rparr>"

definition live_at :: "time \<Rightarrow> intent \<Rightarrow> bool" where
  "live_at now i \<longleftrightarrow> (case ti_expires i of None \<Rightarrow> False | Some u \<Rightarrow> u > now)"

definition held_by :: "string \<Rightarrow> string \<Rightarrow> intent \<Rightarrow> bool" where
  "held_by owner token i \<longleftrightarrow> ti_owner i = Some owner \<and> ti_token i = Some token"

definition claim ::
    "int \<Rightarrow> string \<Rightarrow> string \<Rightarrow> string \<Rightarrow> time \<Rightarrow> intent_file \<Rightarrow> intent option result \<times> intent_file" where
  "claim ttl key owner token now f =
     (if key = [] \<or> owner = [] \<or> token = [] then
        (Inl (Exc ValueError ''key, owner_id and claim_token are required''), f)
      else case read_intents f of
        Inl e \<Rightarrow> (Inl e, f)
      | Inr d \<Rightarrow>
          (case map_of d key of
             None \<Rightarrow> (Inr None, f)
           | Some i \<Rightarrow>
               (if \<not> ambiguous_state (ti_state i) then (Inr None, f)
                else if ti_owner i \<notin> {None, Some owner} \<and> live_at now i then (Inr None, f)
                else if ti_owner i = Some owner \<and> ti_token i \<notin> {None, Some token} then (Inr None, f)
                else (let i' = claimed ttl now owner token i in (Inr (Some i'), Object (dset key i' d))))))"

definition renew_claim ::
    "int \<Rightarrow> string \<Rightarrow> string \<Rightarrow> string \<Rightarrow> time \<Rightarrow> intent_file \<Rightarrow> bool result \<times> intent_file" where
  "renew_claim ttl key owner token now f =
     (case read_intents f of
        Inl e \<Rightarrow> (Inl e, f)
      | Inr d \<Rightarrow>
          (case map_of d key of
             None \<Rightarrow> (Inr False, f)
           | Some i \<Rightarrow>
               (if \<not> ambiguous_state (ti_state i) \<or> \<not> held_by owner token i then (Inr False, f)
                else if \<not> live_at now i then (Inr False, f)
                else (Inr True, Object (dset key (i\<lparr>ti_expires := Some (now + seconds ttl)\<rparr>) d)))))"

definition release_claim ::
    "string \<Rightarrow> string \<Rightarrow> string \<Rightarrow> string \<Rightarrow> intent_file \<Rightarrow> bool result \<times> intent_file" where
  "release_claim key owner token state f =
     (if \<not> ambiguous_state state then (Inl (Exc ValueError ''release state must be ambiguous''), f)
      else case read_intents f of
        Inl e \<Rightarrow> (Inl e, f)
      | Inr d \<Rightarrow>
          (case map_of d key of
             None \<Rightarrow> (Inr False, f)
           | Some i \<Rightarrow>
               (if \<not> held_by owner token i then (Inr False, f)
                else (Inr True, Object (dset key (unclaimed state i) d)))))"

section \<open>Outcomes\<close>

definition mark_claimed ::
    "string \<Rightarrow> string \<Rightarrow> string \<Rightarrow> string \<Rightarrow> time \<Rightarrow> intent_file \<Rightarrow> intent option result \<times> intent_file" where
  "mark_claimed key owner token state now f =
     (if state \<notin> set VALID_STATES \<or> ambiguous_state state then
        (Inl (Exc ValueError ''mark_claimed requires a terminal state''), f)
      else case read_intents f of
        Inl e \<Rightarrow> (Inl e, f)
      | Inr d \<Rightarrow>
          (case map_of d key of
             None \<Rightarrow> (Inr None, f)
           | Some i \<Rightarrow>
               (if \<not> held_by owner token i then (Inr None, f)
                else if \<not> live_at now i then (Inr None, f)
                else (Inr (Some (unclaimed state i)), Object (dset key (unclaimed state i) d)))))"

definition finalize_from_journal ::
    "string \<Rightarrow> string \<Rightarrow> intent_file \<Rightarrow> intent option result \<times> intent_file" where
  "finalize_from_journal key state f =
     (if \<not> terminal_state state then
        (Inl (Exc ValueError ''journal finalization requires a terminal state''), f)
      else case read_intents f of
        Inl e \<Rightarrow> (Inl e, f)
      | Inr d \<Rightarrow>
          (case map_of d key of
             None \<Rightarrow> (Inr None, f)
           | Some i \<Rightarrow>
               (if terminal_state (ti_state i) then (Inr (Some i), f)
                else if \<not> ambiguous_state (ti_state i) then (Inr None, f)
                else (Inr (Some (unclaimed state i)), Object (dset key (unclaimed state i) d)))))"

definition mark_intent :: "string \<Rightarrow> string \<Rightarrow> intent_file \<Rightarrow> intent option result \<times> intent_file" where
  "mark_intent key state f =
     (if state \<notin> set VALID_STATES then (Inl (Exc ValueError ''invalid intent state''), f)
      else case read_intents f of
        Inl e \<Rightarrow> (Inl e, f)
      | Inr d \<Rightarrow>
          (case map_of d key of
             None \<Rightarrow> (Inr None, f)
           | Some i \<Rightarrow>
               (if ti_owner i \<noteq> None then (Inr None, f)
                else if terminal_state state \<and> terminal_state (ti_state i) then (Inr (Some i), f)
                else (Inr (Some (i\<lparr>ti_state := state\<rparr>)), Object (dset key (i\<lparr>ti_state := state\<rparr>) d)))))"

definition pending_intents :: "intent_file \<Rightarrow> intent list result" where
  "pending_intents f =
     (case read_intents f of
        Inl e \<Rightarrow> Inl e
      | Inr d \<Rightarrow> Inr (filter (\<lambda>i. ambiguous_state (ti_state i)) (map snd d)))"

section \<open>Operations as labelled steps\<close>

datatype intent_op =
    Prepare intent
  | Claim string string string
  | Renew string string string
  | Release string string string string
  | Mark_Claimed string string string string
  | Finalize string string
  | Mark string string

fun intent_step :: "int \<Rightarrow> intent_file \<Rightarrow> time \<times> intent_op \<Rightarrow> intent_file" where
  "intent_step ttl f (now, Prepare i) = snd (prepare i f)"
| "intent_step ttl f (now, Claim k w t) = snd (claim ttl k w t now f)"
| "intent_step ttl f (now, Renew k w t) = snd (renew_claim ttl k w t now f)"
| "intent_step ttl f (now, Release k w t st) = snd (release_claim k w t st f)"
| "intent_step ttl f (now, Mark_Claimed k w t st) = snd (mark_claimed k w t st now f)"
| "intent_step ttl f (now, Finalize k st) = snd (finalize_from_journal k st f)"
| "intent_step ttl f (now, Mark k st) = snd (mark_intent k st f)"

text \<open>The intent of a key, and the invariant of the ledger.\<close>

definition intent_at :: "intent_file \<Rightarrow> string \<Rightarrow> intent option" where
  "intent_at f k = (case read_intents f of Inr d \<Rightarrow> map_of d k | Inl _ \<Rightarrow> None)"

definition ledger_ok :: "intent_file \<Rightarrow> bool" where
  "ledger_ok f \<longleftrightarrow> (case read_intents f of
      Inr d \<Rightarrow> \<forall>k i. map_of d k = Some i \<longrightarrow> ti_key i = k \<and> ti_state i \<in> set VALID_STATES
    | Inl _ \<Rightarrow> False)"

lemmas intent_ops = prepare_def claim_def renew_claim_def release_claim_def mark_claimed_def
  finalize_from_journal_def mark_intent_def Let_def

lemma ledger_read: "ledger_ok f \<Longrightarrow> \<exists>d. read_intents f = Inr d"
  by (auto simp: ledger_ok_def split: sum.splits)

lemma read_Object [simp]: "read_intents (Object d) = Inr d"
  by (simp add: read_intents_def)


section \<open>What a step does to an intent\<close>

fun intent_op_key :: "intent_op \<Rightarrow> string" where
  "intent_op_key (Prepare i) = ti_key i"
| "intent_op_key (Claim k _ _) = k"
| "intent_op_key (Renew k _ _) = k"
| "intent_op_key (Release k _ _ _) = k"
| "intent_op_key (Mark_Claimed k _ _ _) = k"
| "intent_op_key (Finalize k _) = k"
| "intent_op_key (Mark k _) = k"

text \<open>The claim an operation acts under.\<close>

fun op_claim :: "intent_op \<Rightarrow> (string \<times> string) option" where
  "op_claim (Claim _ w t) = Some (w, t)"
| "op_claim (Renew _ w t) = Some (w, t)"
| "op_claim (Release _ w t _) = Some (w, t)"
| "op_claim (Mark_Claimed _ w t _) = Some (w, t)"
| "op_claim _ = None"

lemma intent_at_Object [simp]: "intent_at (Object d) k = map_of d k"
  by (simp add: intent_at_def)

lemma intent_at_read: "read_intents f = Inr d \<Longrightarrow> intent_at f k = map_of d k"
  by (simp add: intent_at_def)

lemma intent_step_other:
  assumes "k \<noteq> intent_op_key e"
  shows "intent_at (intent_step ttl f (now, e)) k = intent_at f k"
proof (cases "read_intents f")
  case (Inl x)
  then show ?thesis by (cases e) (simp_all add: intent_ops)
next
  case (Inr d)
  then show ?thesis
    using assms by (cases e; cases "map_of d (intent_op_key e)") (simp_all add: intent_ops intent_at_read)
qed

lemma intent_step_ok:
  assumes "ledger_ok f"
  shows "ledger_ok (intent_step ttl f (now, e))"
proof -
  obtain d where d: "read_intents f = Inr d" using assms ledger_read by blast
  with assms have all: "\<And>k i. map_of d k = Some i \<Longrightarrow> ti_key i = k \<and> ti_state i \<in> set VALID_STATES"
    by (simp add: ledger_ok_def)
  have wr: "ledger_ok (Object (dset k i d))" if "ti_key i = k" "ti_state i \<in> set VALID_STATES" for k i
    using that all by (auto simp: ledger_ok_def)
  have valid: "''executing'' \<in> set VALID_STATES" "ambiguous_state s \<Longrightarrow> s \<in> set VALID_STATES"
    "terminal_state s \<Longrightarrow> s \<in> set VALID_STATES" for s
    by (auto simp: VALID_STATES_def AMBIGUOUS_STATES_def)
  show ?thesis
  proof (cases "map_of d (intent_op_key e)")
    case None
    then show ?thesis
      using assms d by (cases e) (simp_all add: intent_ops wr asdict_intent_def)
  next
    case (Some i)
    then show ?thesis
      using assms d all [OF Some]
      by (cases e) (simp_all add: intent_ops wr claimed_def unclaimed_def valid)
  qed
qed

text \<open>A terminal intent without a claim is left alone, except that \<^verbatim>\<open>mark\<close> can reopen it.\<close>

definition reopens :: "string \<Rightarrow> intent_op \<Rightarrow> bool" where
  "reopens k e \<longleftrightarrow> (\<exists>st. e = Mark k st \<and> ambiguous_state st)"

lemma terminal_step:
  assumes "intent_at f k = Some i" and "terminal_state (ti_state i)" and "ti_owner i = None"
    and "\<not> reopens k e"
  shows "intent_at (intent_step ttl f (now, e)) k = Some i"
proof (cases "k = intent_op_key e")
  case True
  obtain d where d: "read_intents f = Inr d" "map_of d k = Some i"
    using assms(1) by (auto simp: intent_at_def split: sum.splits)
  have "\<not> ambiguous_state (ti_state i)" using assms(2) by (rule states_disjoint)
  then show ?thesis
    using True d assms
    by (cases e) (auto simp: intent_ops intent_at_def held_by_def reopens_def VALID_STATES_def)
next
  case False
  then show ?thesis using assms(1) by (simp add: intent_step_other)
qed

text \<open>A live claim protects the intent from every other claimant.\<close>

definition intrudes :: "string \<Rightarrow> string \<Rightarrow> string \<Rightarrow> intent_op \<Rightarrow> bool" where
  "intrudes k w t e \<longleftrightarrow> op_claim e \<noteq> Some (w, t) \<and> (\<forall>st. e \<noteq> Finalize k st)"

lemma claimed_step:
  assumes "intent_at f k = Some i" and "held_by w t i" and "live_at now i" and "intrudes k w t e"
  shows "intent_at (intent_step ttl f (now, e)) k = Some i"
proof (cases "k = intent_op_key e")
  case True
  obtain d where d: "read_intents f = Inr d" "map_of d k = Some i"
    using assms(1) by (auto simp: intent_at_def split: sum.splits)
  with True assms show ?thesis
    by (cases e) (auto simp: intent_ops intent_at_def held_by_def intrudes_def)
next
  case False
  then show ?thesis using assms(1) by (simp add: intent_step_other)
qed

text \<open>The ledger as the write-once table of its prepared intents.\<close>

definition prepare_put :: "intent_file \<Rightarrow> string \<times> intent \<Rightarrow> intent_file" where
  "prepare_put f p = snd (prepare (snd p) f)"

definition prepare_fits :: "string \<Rightarrow> intent \<Rightarrow> bool" where
  "prepare_fits k i \<longleftrightarrow> ti_key i = k \<and> ti_state i \<in> set VALID_STATES \<and> json_val (ti_arguments i)"

interpretation prepared: write_once intent_at prepare_put ledger_ok prepare_fits
proof unfold_locales
  fix f k i
  assume f: "ledger_ok f" and i: "prepare_fits k i"
  show "ledger_ok (prepare_put f (k, i))"
    using intent_step_ok [OF f, of 0 0 "Prepare i"] by (simp add: prepare_put_def)
  fix k'
  obtain d where d: "read_intents f = Inr d" using f ledger_read by blast
  have "asdict_intent i = i" using i by (simp add: asdict_intent_def prepare_fits_def asdict_json)
  then show "intent_at (prepare_put f (k, i)) k' =
      (if k' = k then Some (case intent_at f k of None \<Rightarrow> i | Some w \<Rightarrow> w) else intent_at f k')"
    using d i
    by (cases "map_of d k") (auto simp: prepare_put_def prepare_def prepare_fits_def intent_at_def)
qed

interpretation ledger: step_system "intent_step ttl" ledger_ok for ttl
  by unfold_locales (metis intent_step_ok surj_pair)


section \<open>Samples\<close>

definition sample_intent :: intent where
  "sample_intent = claimed 60 0 ''w1'' ''t1'' (new_intent ''k1'' ''c1'' ''pay'' (VDict []) (Some ''e1'') 0)"

lemma sample_intent_fields:
  "ti_key sample_intent = ''k1''" "ti_state sample_intent = ''executing''"
  "held_by ''w1'' ''t1'' sample_intent" "ti_expires sample_intent = Some 60000000"
  by (simp_all add: sample_intent_def claimed_def new_intent_def held_by_def seconds_def)

definition sample_ledger :: intent_file where
  "sample_ledger = Object [(''k1'', sample_intent)]"

lemma sample_ledger_at: "intent_at sample_ledger ''k1'' = Some sample_intent"
  by (simp add: sample_ledger_def)

lemma sample_ledger_ok: "ledger_ok sample_ledger"
  by (simp add: ledger_ok_def sample_ledger_def sample_intent_fields VALID_STATES_def AMBIGUOUS_STATES_def)

section \<open>Properties\<close>

text \<open>
  C31. Outcomes are final. Once an intent has been completed or failed (which clears its claim),
  no sequence of prepares, claims, renewals, releases, claimed marks, journal finalizations and
  terminal marks by anyone, at any instants, changes it any more; it is not pending, and every
  further claim is refused. (Only \<^verbatim>\<open>mark\<close> with an ambiguous state reopens it.)
\<close>

theorem intent_outcome_final:
  assumes "ledger_ok f" and "intent_at f k = Some i" and "terminal_state (ti_state i)" and "ti_owner i = None"
    and "\<forall>(now, e) \<in> set es. \<not> reopens k e" and "f' = run (intent_step ttl) f es"
    and "k \<noteq> []" and "w \<noteq> []" and "t \<noteq> []"
  shows "get_intent k f' = Inr (Some i) \<and> claim ttl k w t now f' = (Inr None, f')
    \<and> (\<forall>is. pending_intents f' = Inr is \<longrightarrow> i \<notin> set is)"
proof -
  have "intent_at (run (intent_step ttl) f es) k = Some i" using assms(2,5)
  proof (induction es arbitrary: f)
    case Nil
    then show ?case by simp
  next
    case (Cons p es)
    obtain n e where "p = (n, e)" by (cases p)
    with Cons assms(3,4) terminal_step [of f k i e ttl n] show ?case by simp
  qed
  then obtain d where d: "read_intents f' = Inr d" "map_of d k = Some i"
    by (auto simp: intent_at_def assms(6) split: sum.splits)
  moreover have "\<not> ambiguous_state (ti_state i)" using assms(3) by (rule states_disjoint)
  ultimately show ?thesis
    using assms(7-9) by (auto simp: get_intent_def claim_def pending_intents_def)
qed

theorem intent_outcome_final_witness:
  "get_intent ''k1'' (run (intent_step 60) (Object [(''k1'', unclaimed ''completed'' sample_intent)])
     [(1, Claim ''k1'' ''w2'' ''t2''), (2, Finalize ''k1'' ''failed''), (3, Mark ''k1'' ''failed'')]) =
     Inr (Some (unclaimed ''completed'' sample_intent))"
proof -
  let ?i = "unclaimed ''completed'' sample_intent"
  have i: "ti_state ?i = ''completed''" "ti_owner ?i = None" "ti_key ?i = ''k1''"
    by (simp_all add: unclaimed_def sample_intent_fields)
  have tm: "terminal_state ''completed''" and no: "\<not> ambiguous_state ''failed''"
    by (simp_all add: TERMINAL_STATES_def AMBIGUOUS_STATES_def)
  have ok: "ledger_ok (Object [(''k1'', ?i)])"
    using tm by (simp add: ledger_ok_def i VALID_STATES_def)
  show ?thesis
    by (rule conjunct1 [OF intent_outcome_final [OF ok _ _ _ _ refl, where w = "''w''" and t = "''t''" and now = 0]])
      (simp_all add: i tm no reopens_def)
qed

text \<open>
  Claims exclude. While a claim of \<open>(w, t)\<close> has not expired, nothing that another owner,
  or the same owner under another token, does to the intent has any effect: the intent stays as it
  is, other claims are refused, and no other claimant can record an outcome or release it. Only the
  holder can, or a durable terminal journal record (\<open>Finalize\<close>).
\<close>

theorem claim_excludes_others:
  assumes "ledger_ok f" and "intent_at f k = Some i" and "held_by w t i" and "ti_expires i = Some u"
    and "\<forall>(n, e) \<in> set es. n < u \<and> intrudes k w t e" and "f' = run (intent_step ttl) f es"
    and "now < u" and "(w2, t2) \<noteq> (w, t)" and "k \<noteq> []" and "w2 \<noteq> []" and "t2 \<noteq> []" and "terminal_state st"
  shows "intent_at f' k = Some i
    \<and> claim ttl k w2 t2 now f' = (Inr None, f')
    \<and> mark_claimed k w2 t2 st now f' = (Inr None, f')
    \<and> (\<exists>i'. fst (mark_claimed k w t st now f') = Inr (Some i') \<and> ti_state i' = st)"
proof -
  have live: "live_at n i" if "n < u" for n using that assms(4) by (simp add: live_at_def)
  have at: "intent_at (run (intent_step ttl) f es) k = Some i" using assms(2,5)
  proof (induction es arbitrary: f)
    case Nil
    then show ?case by simp
  next
    case (Cons p es)
    obtain n e where "p = (n, e)" by (cases p)
    with Cons claimed_step [OF Cons.prems(1) assms(3), of n e ttl] live [of n] show ?case by simp
  qed
  then obtain d where d: "read_intents f' = Inr d" "map_of d k = Some i"
    by (auto simp: intent_at_def assms(6) split: sum.splits)
  have st: "st \<in> set VALID_STATES" "\<not> ambiguous_state st"
    using assms(12) states_disjoint by (simp_all add: VALID_STATES_def)
  have "\<not> held_by w2 t2 i" using assms(3,8) by (auto simp: held_by_def)
  then show ?thesis
    using at d st live [OF assms(7)] assms(3,6,8-11)
    by (auto simp: claim_def mark_claimed_def unclaimed_def held_by_def)
qed

theorem claim_excludes_others_witness:
  "mark_claimed ''k1'' ''w2'' ''t2'' ''failed'' 59999999
     (run (intent_step 60) sample_ledger [(1, Claim ''k1'' ''w2'' ''t2''), (2, Release ''k1'' ''w1'' ''t0'' ''ambiguous'')]) =
   (Inr None, run (intent_step 60) sample_ledger
     [(1, Claim ''k1'' ''w2'' ''t2''), (2, Release ''k1'' ''w1'' ''t0'' ''ambiguous'')])"
proof -
  let ?es = "[(1 :: time, Claim ''k1'' ''w2'' ''t2''), (2, Release ''k1'' ''w1'' ''t0'' ''ambiguous'')]"
  have es: "\<forall>(n, e) \<in> set ?es. n < 60000000 \<and> intrudes ''k1'' ''w1'' ''t1'' e" by (simp add: intrudes_def)
  have "terminal_state ''failed''" by (simp add: TERMINAL_STATES_def)
  from claim_excludes_others [OF sample_ledger_ok sample_ledger_at sample_intent_fields(3,4) es refl _ _ _ _ _ this,
      of 59999999 "''w2''" "''t2''" 60]
  show ?thesis by simp
qed

text \<open>
  A restarted owner is locked out. A claim that its holder never released can be taken over
  by another owner as soon as it has expired; but the same owner under a fresh token is refused for
  ever, however long ago the claim expired. (A recovery worker keeps its owner name and draws a
  new token for every attempt, so after a crash it can no longer recover what it had claimed.)
\<close>

theorem restarted_owner_locked_out:
  assumes "ledger_ok f" and "intent_at f k = Some i" and "held_by w t i" and "ambiguous_state (ti_state i)"
    and "\<forall>(n, e) \<in> set es. \<exists>k' t'. e = Claim k' w t' \<and> t' \<noteq> t"
    and "f' = run (intent_step ttl) f es" and "ti_expires i = Some u" and "u \<le> now"
    and "t2 \<noteq> t" and "w2 \<noteq> w" and "k \<noteq> []" and "w \<noteq> []" and "w2 \<noteq> []" and "t2 \<noteq> []"
  shows "claim ttl k w t2 now f' = (Inr None, f') \<and> intent_at f' k = Some i
    \<and> (\<exists>i' f''. claim ttl k w2 t2 now f' = (Inr (Some i'), f'') \<and> held_by w2 t2 i')"
proof -
  have at: "intent_at (run (intent_step ttl) f es) k = Some i" using assms(2,5)
  proof (induction es arbitrary: f)
    case Nil
    then show ?case by simp
  next
    case (Cons p es)
    obtain n e where p: "p = (n, e)" by (cases p)
    with Cons.prems obtain k' t' where e: "e = Claim k' w t'" "t' \<noteq> t" by auto
    obtain d where d: "read_intents f = Inr d" "map_of d k = Some i"
      using Cons.prems(1) by (auto simp: intent_at_def split: sum.splits)
    have "intent_at (intent_step ttl f (n, e)) k = Some i"
    proof (cases "k' = k")
      case True
      with d e assms(3,4) show ?thesis by (auto simp: claim_def held_by_def intent_at_def)
    next
      case False
      then show ?thesis using Cons.prems(1) e by (simp add: intent_step_other del: intent_step.simps)
    qed
    with Cons p show ?case by simp
  qed
  then obtain d where d: "read_intents f' = Inr d" "map_of d k = Some i"
    by (auto simp: intent_at_def assms(6) split: sum.splits)
  have "\<not> live_at now i" using assms(7,8) by (simp add: live_at_def)
  then show ?thesis
    using at d assms(3,4,6,9-14) by (auto simp: claim_def held_by_def claimed_def Let_def)
qed

theorem restarted_owner_locked_out_witness:
  "claim 60 ''k1'' ''w1'' ''t9'' 1000000000000
      (run (intent_step 60) sample_ledger [(70000000, Claim ''k1'' ''w1'' ''t2'')]) =
   (Inr None, run (intent_step 60) sample_ledger [(70000000, Claim ''k1'' ''w1'' ''t2'')])"
proof -
  have es: "\<forall>(n, e) \<in> set [(70000000 :: time, Claim ''k1'' ''w1'' ''t2'')]. \<exists>k' t'. e = Claim k' ''w1'' t' \<and> t' \<noteq> ''t1''"
    by simp
  have "ambiguous_state (ti_state sample_intent)" by (simp add: sample_intent_fields AMBIGUOUS_STATES_def)
  from restarted_owner_locked_out [OF sample_ledger_ok sample_ledger_at sample_intent_fields(3) this es refl
      sample_intent_fields(4), of 1000000000000 "''t9''" "''w2''" 60]
  show ?thesis by simp
qed

end
