(* ===== verification/Idempotency.thy ===== *)
theory Idempotency
  imports Interfaces Values
begin

text \<open>
  \<^verbatim>\<open>runtime/tool_idempotency_store.py\<close>: the registry of tool outcomes by idempotency key, a
  JSON file in which the first outcome of a key stays.
\<close>

record stored_result =
  sr_key :: string
  sr_call_id :: string
  sr_tool :: string
  sr_ok :: bool
  sr_value :: pyval
  sr_error :: "string option"
  sr_arguments :: "pydict option"

type_synonym result_file = "(string \<times> stored_result) list json_file"

definition read_results :: "result_file \<Rightarrow> (string \<times> stored_result) list result" where
  "read_results f =
     (case f of
        Missing \<Rightarrow> Inr []
      | Invalid_JSON \<Rightarrow> Inl (Exc JSONDecodeError ''invalid JSON'')
      | Not_Object \<Rightarrow> Inl (Exc ValueError ''tool idempotency store must be an object'')
      | Object d \<Rightarrow> Inr d)"

definition get_result :: "string option \<Rightarrow> result_file \<Rightarrow> stored_result option result" where
  "get_result key f =
     (if opt_list key = [] then Inr None
      else case read_results f of Inl e \<Rightarrow> Inl e | Inr d \<Rightarrow> Inr (map_of d (opt_list key)))"

text \<open>What \<^verbatim>\<open>asdict\<close> and JSON make of a record.\<close>

definition asdict_result :: "stored_result \<Rightarrow> stored_result" where
  "asdict_result r =
     r\<lparr>sr_value := asdict_val (sr_value r),
       sr_arguments := map_option (map (map_prod id asdict_val)) (sr_arguments r)\<rparr>"

definition put_if_absent :: "stored_result \<Rightarrow> result_file \<Rightarrow> stored_result result \<times> result_file" where
  "put_if_absent r f =
     (case read_results f of
        Inl e \<Rightarrow> (Inl e, f)
      | Inr d \<Rightarrow>
          (case map_of d (sr_key r) of
             Some stored \<Rightarrow>
               (if sr_tool stored \<noteq> sr_tool r then
                  (Inl (Exc ValueError (''idempotency key already bound to a different tool: '' @
                     sr_tool stored @ '' != '' @ sr_tool r)), f)
                else (Inr stored, f))
           | None \<Rightarrow> (Inr r, Object (dset (sr_key r) (asdict_result r) d))))"

definition result_at :: "result_file \<Rightarrow> string \<Rightarrow> stored_result option" where
  "result_at f k = (case read_results f of Inr d \<Rightarrow> map_of d k | Inl _ \<Rightarrow> None)"

definition results_ok :: "result_file \<Rightarrow> bool" where
  "results_ok f \<longleftrightarrow> (case read_results f of
      Inr d \<Rightarrow> \<forall>k r. map_of d k = Some r \<longrightarrow> sr_key r = k | Inl _ \<Rightarrow> False)"

definition result_put :: "result_file \<Rightarrow> string \<times> stored_result \<Rightarrow> result_file" where
  "result_put f p = snd (put_if_absent (snd p) f)"

definition result_fits :: "string \<Rightarrow> stored_result \<Rightarrow> bool" where
  "result_fits k r \<longleftrightarrow> sr_key r = k \<and> asdict_result r = r"

lemma read_results_Object [simp]: "read_results (Object d) = Inr d"
  by (simp add: read_results_def)

lemma result_at_Object [simp]: "result_at (Object d) k = map_of d k"
  by (simp add: result_at_def)

lemma asdict_result_fields [simp]:
  "sr_key (asdict_result r) = sr_key r" "sr_ok (asdict_result r) = sr_ok r"
  "sr_tool (asdict_result r) = sr_tool r" "sr_call_id (asdict_result r) = sr_call_id r"
  "sr_error (asdict_result r) = sr_error r"
  by (simp_all add: asdict_result_def)

lemma results_read:
  assumes "results_ok f"
  obtains d where "read_results f = Inr d" "\<And>k. result_at f k = map_of d k"
proof -
  obtain d where "read_results f = Inr d" using assms by (auto simp: results_ok_def split: sum.splits)
  then show thesis by (intro that [of d]) (simp_all add: result_at_def)
qed

lemma get_result_at: "results_ok f \<Longrightarrow> k \<noteq> [] \<Longrightarrow> get_result (Some k) f = Inr (result_at f k)"
  by (erule results_read) (simp add: get_result_def opt_list_def)

text \<open>The two outcomes of a put, and what it leaves.\<close>

lemma put_new:
  assumes "results_ok f" and "result_at f (sr_key r) = None"
  obtains f' where "put_if_absent r f = (Inr r, f')" "results_ok f'"
    "\<And>k. result_at f' k = (if k = sr_key r then Some (asdict_result r) else result_at f k)"
proof -
  obtain d where d: "read_results f = Inr d" "\<And>k. result_at f k = map_of d k"
    by (rule results_read [OF assms(1)]) blast
  let ?f = "Object (dset (sr_key r) (asdict_result r) d)"
  have "results_ok ?f" using assms(1) d(1) by (auto simp: results_ok_def)
  then show thesis using that [of ?f] d assms(2) by (simp add: put_if_absent_def)
qed

lemma put_old:
  assumes "results_ok f" and "result_at f (sr_key r) = Some s"
  shows "put_if_absent r f =
    (if sr_tool s = sr_tool r then Inr s
     else Inl (Exc ValueError (''idempotency key already bound to a different tool: '' @
                     sr_tool s @ '' != '' @ sr_tool r)), f)"
  using assms by (auto elim!: results_read simp: put_if_absent_def)

lemma put_ok: "results_ok f \<Longrightarrow> results_ok (snd (put_if_absent r f))"
  by (cases "result_at f (sr_key r)") (auto elim: put_new simp: put_old)

lemma put_at:
  assumes "results_ok f"
  shows "result_at (snd (put_if_absent r f)) k =
    (if k = sr_key r then Some (case result_at f k of None \<Rightarrow> asdict_result r | Some s \<Rightarrow> s) else result_at f k)"
  using assms by (cases "result_at f (sr_key r)") (auto elim: put_new simp: put_old)

lemma put_keeps:
  "results_ok f \<Longrightarrow> result_at f k = Some st \<Longrightarrow> result_at (snd (put_if_absent r f)) k = Some st"
  by (auto simp: put_at)

interpretation results: write_once result_at result_put results_ok result_fits
  by unfold_locales (auto simp: result_put_def result_fits_def put_ok put_at split: option.split)

definition sample_result :: "string \<Rightarrow> bool \<Rightarrow> stored_result" where
  "sample_result c ok =
     \<lparr>sr_key = ''k1'', sr_call_id = c, sr_tool = ''pay'', sr_ok = ok, sr_value = VInt 7,
      sr_error = None, sr_arguments = None\<rparr>"

text \<open>
  The first outcome of a key is the outcome. After a put of a key that was not there, any
  sequence of puts (retries with other outcomes, other keys, other tools) leaves the key's record as
  it was; a later put of the key returns that record, whatever outcome it carries, if it names the
  same tool, and raises \<^verbatim>\<open>ValueError\<close> if it names another, and never writes.
\<close>

theorem first_outcome_wins:
  assumes "results_ok f" and "result_at f k = None" and "result_fits k r"
    and "\<forall>(k', r') \<in> set ps. result_fits k' r'" and "f' = run result_put f ((k, r) # ps)"
    and "sr_key r2 = k"
  shows "result_at f' k = Some r \<and> snd (put_if_absent r2 f') = f'
    \<and> (if sr_tool r2 = sr_tool r then fst (put_if_absent r2 f') = Inr r
       else raises (put_if_absent r2 f') ValueError)"
proof -
  have at: "result_at f' k = Some r"
    unfolding assms(5) by (rule results.first_of_run [OF assms(1-4)])
  have "results_ok f'"
    unfolding assms(5) using assms(1,3,4) by (intro results.run_ok) auto
  then show ?thesis using at assms(6) by (auto simp: put_old)
qed


theorem first_outcome_wins_witness:
  "put_if_absent (sample_result ''c2'' False) (run result_put Missing [(''k1'', sample_result ''c1'' True)]) =
     (Inr (sample_result ''c1'' True), run result_put Missing [(''k1'', sample_result ''c1'' True)])"
proof -
  have "results_ok Missing" "result_at Missing ''k1'' = None"
    by (simp_all add: results_ok_def read_results_def result_at_def)
  moreover have "result_fits ''k1'' (sample_result ''c1'' True)" "sr_key (sample_result ''c2'' False) = ''k1''"
    by (simp_all add: result_fits_def sample_result_def asdict_result_def)
  moreover have "sr_tool (sample_result ''c2'' False) = sr_tool (sample_result ''c1'' True)"
    by (simp add: sample_result_def)
  ultimately show ?thesis
    using first_outcome_wins [of Missing "''k1''" "sample_result ''c1'' True" "[]" _ "sample_result ''c2'' False"]
    by (metis (no_types, lifting) empty_iff list.set(1) prod.collapse)
qed

end
