(* ===== verification/Boundary.thy ===== *)
theory Boundary
  imports Intent_Store Idempotency Commit
begin

text \<open>
  The crash-safe boundary of side-effecting tool calls: \<^verbatim>\<open>runtime/execution_boundary.py\<close>
  (the outcome is recorded first, then the claimed intent is finished), its typed adapter
  \<^verbatim>\<open>runtime/execution_boundary_adapter.py\<close>, and
  \<^verbatim>\<open>runtime/tool_execution_coordinator.py\<close>, which goes on to commit the execution.
\<close>

record bworld =
  bw_intents :: intent_file
  bw_results :: result_file

record boundary_commit =
  bc_ok :: bool
  bc_value :: pyval
  bc_error :: "string option"
  bc_committed :: bool

record outcome_report =
  or_key :: string
  or_call_id :: string
  or_tool :: string
  or_arguments :: "pydict option"
  or_ok :: bool
  or_value :: pyval
  or_error :: "string option"

definition report_result :: "outcome_report \<Rightarrow> stored_result" where
  "report_result p =
     \<lparr>sr_key = or_key p, sr_call_id = or_call_id p, sr_tool = or_tool p, sr_ok = or_ok p,
      sr_value = (if or_ok p then or_value p else VNone), sr_error = or_error p,
      sr_arguments = or_arguments p\<rparr>"

definition terminal_of :: "bool \<Rightarrow> string" where
  "terminal_of ok = (if ok then ''completed'' else ''failed'')"

definition boundary_commit ::
    "outcome_report \<Rightarrow> string \<Rightarrow> string \<Rightarrow> time \<Rightarrow> bworld \<Rightarrow> boundary_commit result \<times> bworld" where
  "boundary_commit p owner token now w =
     (case put_if_absent (report_result p) (bw_results w) of
        (Inl e, rf) \<Rightarrow> (Inl e, w\<lparr>bw_results := rf\<rparr>)
      | (Inr stored, rf) \<Rightarrow>
          (let w1 = w\<lparr>bw_results := rf\<rparr> in
           case mark_claimed (or_key p) owner token (terminal_of (sr_ok stored)) now (bw_intents w1) of
             (Inl e, f) \<Rightarrow> (Inl e, w1\<lparr>bw_intents := f\<rparr>)
           | (Inr i, f) \<Rightarrow>
               (Inr \<lparr>bc_ok = sr_ok stored, bc_value = sr_value stored, bc_error = sr_error stored,
                     bc_committed = (i \<noteq> None)\<rparr>, w1\<lparr>bw_intents := f\<rparr>)))"

text \<open>The adapter: ambiguous and retryable results are not recorded.\<close>

definition adapter_commit ::
    "tool_call \<Rightarrow> tool_result \<Rightarrow> string \<Rightarrow> string \<Rightarrow> time \<Rightarrow> bworld \<Rightarrow> tool_result result \<times> bworld" where
  "adapter_commit call res owner token now w =
     (if tr_ambiguous res \<or> tr_retryable res then (Inr res, w)
      else case boundary_commit
              \<lparr>or_key = opt_list (tc_idempotency_key call), or_call_id = tc_call_id call,
               or_tool = tc_tool call, or_arguments = Some (tc_arguments call), or_ok = tr_ok res,
               or_value = tr_value res, or_error = tr_error res\<rparr> owner token now w of
        (Inl e, w1) \<Rightarrow> (Inl e, w1)
      | (Inr b, w1) \<Rightarrow>
          (Inr \<lparr>tr_call_id = tc_call_id call, tr_tool = tc_tool call, tr_ok = bc_ok b,
                tr_value = bc_value b, tr_error = bc_error b, tr_retryable = False,
                tr_idempotency_key = tc_idempotency_key call, tr_ambiguous = (\<not> bc_committed b)\<rparr>, w1))"

text \<open>The report the adapter makes of a call and its result.\<close>

definition report_of_call :: "tool_call \<Rightarrow> tool_result \<Rightarrow> outcome_report" where
  "report_of_call call r =
     \<lparr>or_key = opt_list (tc_idempotency_key call), or_call_id = tc_call_id call, or_tool = tc_tool call,
      or_arguments = Some (tc_arguments call), or_ok = tr_ok r, or_value = tr_value r, or_error = tr_error r\<rparr>"

section \<open>Tool outcome, then execution\<close>

record tworld =
  tw_boundary :: bworld
  tw_coord :: coord

record tool_execution_commit =
  te_tool :: boundary_commit
  te_execution :: "exec_commit option"

text \<open>\<^verbatim>\<open>execution_status or ("completed" if ok else "failed")\<close>\<close>

definition target_status :: "string option \<Rightarrow> bool \<Rightarrow> string" where
  "target_status status ok =
     (if opt_list status \<noteq> [] then opt_list status else terminal_of ok)"

definition tool_execution_commit ::
    "host \<Rightarrow> coord_cfg \<Rightarrow> (nat \<Rightarrow> time) \<Rightarrow> exec_state \<Rightarrow> outcome_report \<Rightarrow> string \<Rightarrow> string \<Rightarrow>
     string option \<Rightarrow> time \<Rightarrow> tworld \<Rightarrow> tool_execution_commit result \<times> tworld" where
  "tool_execution_commit h cfg clk s p owner token status now w =
     (case boundary_commit p owner token now (tw_boundary w) of
        (Inl e, b) \<Rightarrow> (Inl e, w\<lparr>tw_boundary := b\<rparr>)
      | (Inr tool, b) \<Rightarrow>
          (let w1 = w\<lparr>tw_boundary := b\<rparr> in
           if \<not> bc_committed tool then (Inr \<lparr>te_tool = tool, te_execution = None\<rparr>, w1)
           else case commit h cfg clk s (target_status status (or_ok p))
                     (if or_ok p then bc_value tool else VNone)
                     (if \<not> or_ok p then bc_error tool else None) (tw_coord w1) of
             (Inl e, c) \<Rightarrow> (Inl e, w1\<lparr>tw_coord := c\<rparr>)
           | (Inr x, c) \<Rightarrow> (Inr \<lparr>te_tool = tool, te_execution = Some x\<rparr>, w1\<lparr>tw_coord := c\<rparr>)))"

section \<open>One commit\<close>

definition bworld_ok :: "bworld \<Rightarrow> bool" where
  "bworld_ok w \<longleftrightarrow> ledger_ok (bw_intents w) \<and> results_ok (bw_results w)"

text \<open>The outcome that counts for a report: the recorded one, or its own.\<close>

definition effective :: "bworld \<Rightarrow> outcome_report \<Rightarrow> stored_result" where
  "effective w p =
     (case result_at (bw_results w) (or_key p) of None \<Rightarrow> report_result p | Some s \<Rightarrow> s)"

definition may_finish :: "bworld \<Rightarrow> string \<Rightarrow> string \<Rightarrow> string \<Rightarrow> time \<Rightarrow> bool" where
  "may_finish w k owner token now \<longleftrightarrow>
     (\<exists>i. intent_at (bw_intents w) k = Some i \<and> held_by owner token i \<and> live_at now i)"

lemma report_result_fields [simp]:
  "sr_key (report_result p) = or_key p" "sr_tool (report_result p) = or_tool p"
  "sr_ok (report_result p) = or_ok p" "sr_error (report_result p) = or_error p"
  by (simp_all add: report_result_def)

lemma terminal_of [simp]: "terminal_state (terminal_of ok)" "terminal_of ok \<in> set VALID_STATES"
    "\<not> ambiguous_state (terminal_of ok)"
  by (cases ok; simp add: terminal_of_def TERMINAL_STATES_def VALID_STATES_def AMBIGUOUS_STATES_def)+

lemma mark_claimed_terminal:
  assumes "ledger_ok f"
  obtains (Done) i f' where "intent_at f k = Some i" "held_by owner token i" "live_at now i"
      "mark_claimed k owner token (terminal_of ok) now f = (Inr (Some (unclaimed (terminal_of ok) i)), f')"
      "\<And>k'. intent_at f' k' = (if k' = k then Some (unclaimed (terminal_of ok) i) else intent_at f k')"
    | (Refused) "\<not> (\<exists>i. intent_at f k = Some i \<and> held_by owner token i \<and> live_at now i)"
      "mark_claimed k owner token (terminal_of ok) now f = (Inr None, f)"
proof -
  obtain d where d: "read_intents f = Inr d" using ledger_read [OF assms] by blast
  note at = intent_at_read [OF d]
  show thesis
  proof (cases "\<exists>i. intent_at f k = Some i \<and> held_by owner token i \<and> live_at now i")
    case True
    then obtain i where i: "intent_at f k = Some i" "held_by owner token i" "live_at now i" by blast
    show thesis
      by (rule Done [OF i, of "Object (dset k (unclaimed (terminal_of ok) i) d)"])
        (use i d in \<open>simp_all add: mark_claimed_def at Let_def\<close>)
  next
    case False
    then have "mark_claimed k owner token (terminal_of ok) now f = (Inr None, f)"
      by (cases "map_of d k") (auto simp: mark_claimed_def d at)
    with False show thesis by (rule Refused)
  qed
qed

lemma boundary_outcome:
  assumes "bworld_ok w" and "sr_tool (effective w p) = or_tool p" and "r = effective w p"
  shows "\<exists>w'. boundary_commit p owner token now w =
      (Inr \<lparr>bc_ok = sr_ok r, bc_value = sr_value r, bc_error = sr_error r,
            bc_committed = may_finish w (or_key p) owner token now\<rparr>, w')
    \<and> result_at (bw_results w') (or_key p) = Some (case result_at (bw_results w) (or_key p) of
          None \<Rightarrow> asdict_result r | Some _ \<Rightarrow> r)
    \<and> (if may_finish w (or_key p) owner token now
       then \<exists>i. intent_at (bw_intents w') (or_key p) = Some i \<and> ti_state i = terminal_of (sr_ok r) \<and> ti_owner i = None
       else bw_intents w' = bw_intents w)
    \<and> (\<forall>k. k \<noteq> or_key p \<longrightarrow> result_at (bw_results w') k = result_at (bw_results w) k
          \<and> intent_at (bw_intents w') k = intent_at (bw_intents w) k)"
proof -
  have ok: "ledger_ok (bw_intents w)" "results_ok (bw_results w)" using assms(1) by (auto simp: bworld_ok_def)
  obtain rf where put: "put_if_absent (report_result p) (bw_results w) = (Inr r, rf)"
    "\<And>k. result_at rf k = (if k = or_key p then Some (case result_at (bw_results w) k of
        None \<Rightarrow> asdict_result r | Some _ \<Rightarrow> r) else result_at (bw_results w) k)"
  proof (cases "result_at (bw_results w) (or_key p)")
    case None
    with assms(3) have r: "r = report_result p" by (simp add: effective_def)
    obtain f' where "put_if_absent (report_result p) (bw_results w) = (Inr (report_result p), f')"
      "\<And>k. result_at f' k = (if k = sr_key (report_result p) then Some (asdict_result (report_result p))
         else result_at (bw_results w) k)"
      by (rule put_new [OF ok(2), of "report_result p"]) (simp_all add: None)
    with None that [of f'] show thesis by (auto simp: r)
  next
    case (Some s)
    with assms(2,3) put_old [OF ok(2), of "report_result p" s] that [of "bw_results w"] show thesis
      by (auto simp: effective_def)
  qed
  show ?thesis
  proof (cases rule: mark_claimed_terminal [OF ok(1), of "or_key p" owner token now "sr_ok r", case_names Done Refused])
    case (Done i f')
    then have "may_finish w (or_key p) owner token now" by (auto simp: may_finish_def)
    with Done put show ?thesis by (auto simp: boundary_commit_def Let_def unclaimed_def)
  next
    case Refused
    then have "\<not> may_finish w (or_key p) owner token now" by (auto simp: may_finish_def)
    with Refused put show ?thesis by (auto simp: boundary_commit_def Let_def)
  qed
qed

text \<open>
  The boundary commits one outcome. On sound files a boundary commit never raises unless the
  key is bound to another tool; it reports the outcome recorded first for the key, whatever it
  carries itself; it finishes the intent exactly when the caller's claim is the current one and has
  not expired, and then in the state of that recorded outcome; and it changes no other key.
\<close>

theorem boundary_commits_recorded_outcome:
  assumes "bworld_ok w" and "sr_tool (effective w p) = or_tool p" and "r = effective w p"
  shows "\<exists>w'. boundary_commit p owner token now w =
      (Inr \<lparr>bc_ok = sr_ok r, bc_value = sr_value r, bc_error = sr_error r,
            bc_committed = may_finish w (or_key p) owner token now\<rparr>, w')
    \<and> result_at (bw_results w') (or_key p) = Some (case result_at (bw_results w) (or_key p) of
          None \<Rightarrow> asdict_result r | Some _ \<Rightarrow> r)
    \<and> (if may_finish w (or_key p) owner token now
       then \<exists>i. intent_at (bw_intents w') (or_key p) = Some i \<and> ti_state i = terminal_of (sr_ok r) \<and> ti_owner i = None
       else bw_intents w' = bw_intents w)
    \<and> (\<forall>k. k \<noteq> or_key p \<longrightarrow> result_at (bw_results w') k = result_at (bw_results w) k
          \<and> intent_at (bw_intents w') k = intent_at (bw_intents w) k)"
  by (rule boundary_outcome [OF assms])


section \<open>Samples\<close>

definition sample_report :: "bool \<Rightarrow> outcome_report" where
  "sample_report ok =
     \<lparr>or_key = ''k1'', or_call_id = ''c1'', or_tool = ''pay'', or_arguments = None, or_ok = ok,
      or_value = VInt 7, or_error = None\<rparr>"

definition sample_bworld :: "(string \<times> stored_result) list \<Rightarrow> bworld" where
  "sample_bworld rs = \<lparr>bw_intents = sample_ledger, bw_results = Object rs\<rparr>"

lemma sample_bworld_ok:
  "bworld_ok (sample_bworld [])" "bworld_ok (sample_bworld [(''k1'', sample_result ''c0'' True)])"
  using sample_ledger_ok
  by (auto simp: bworld_ok_def sample_bworld_def results_ok_def sample_result_def split: if_splits)

lemma sample_may_finish: "may_finish (sample_bworld rs) ''k1'' ''w1'' ''t1'' now \<longleftrightarrow> now < 60000000"
  by (simp add: may_finish_def sample_bworld_def sample_ledger_at sample_intent_fields live_at_def)

theorem boundary_commits_recorded_outcome_witness:
  "\<exists>w'. boundary_commit (sample_report False) ''w1'' ''t1'' 5 (sample_bworld [(''k1'', sample_result ''c0'' True)]) =
     (Inr \<lparr>bc_ok = True, bc_value = VInt 7, bc_error = None, bc_committed = True\<rparr>, w')"
proof -
  let ?w = "sample_bworld [(''k1'', sample_result ''c0'' True)]"
  have e: "effective ?w (sample_report False) = sample_result ''c0'' True"
    by (simp add: effective_def sample_bworld_def sample_report_def)
  have k: "or_key (sample_report False) = ''k1''" by (simp add: sample_report_def)
  have "sr_tool (effective ?w (sample_report False)) = or_tool (sample_report False)"
    unfolding e by (simp add: sample_result_def sample_report_def)
  from boundary_commits_recorded_outcome [OF sample_bworld_ok(2) this refl, of "''w1''" "''t1''" 5,
      unfolded e k sample_may_finish]
  obtain w' where "boundary_commit (sample_report False) ''w1'' ''t1'' 5 ?w =
     (Inr \<lparr>bc_ok = sr_ok (sample_result ''c0'' True), bc_value = sr_value (sample_result ''c0'' True),
           bc_error = sr_error (sample_result ''c0'' True), bc_committed = (5 < (60000000 :: time))\<rparr>, w')"
    by blast
  then show ?thesis by (simp add: sample_result_def)
qed

section \<open>The two files agree\<close>

text \<open>
  Everything that the runtime does to the ledger and the registry through the boundary, by any
  number of workers; \<open>B_Crash\<close> is a boundary commit that stops after recording the outcome.
\<close>

datatype boundary_op =
    B_Prepare intent
  | B_Claim string string string
  | B_Renew string string string
  | B_Release string string string
  | B_Commit outcome_report string string
  | B_Crash outcome_report

fun boundary_step :: "int \<Rightarrow> bworld \<Rightarrow> time \<times> boundary_op \<Rightarrow> bworld" where
  "boundary_step ttl w (now, B_Prepare i) = w\<lparr>bw_intents := intent_step ttl (bw_intents w) (now, Prepare i)\<rparr>"
| "boundary_step ttl w (now, B_Claim k o1 t) = w\<lparr>bw_intents := intent_step ttl (bw_intents w) (now, Claim k o1 t)\<rparr>"
| "boundary_step ttl w (now, B_Renew k o1 t) = w\<lparr>bw_intents := intent_step ttl (bw_intents w) (now, Renew k o1 t)\<rparr>"
| "boundary_step ttl w (now, B_Release k o1 t) =
     w\<lparr>bw_intents := intent_step ttl (bw_intents w) (now, Release k o1 t ''ambiguous'')\<rparr>"
| "boundary_step ttl w (now, B_Commit p o1 t) = snd (boundary_commit p o1 t now w)"
| "boundary_step ttl w (now, B_Crash p) = w\<lparr>bw_results := snd (put_if_absent (report_result p) (bw_results w))\<rparr>"

definition prepares_ambiguous :: "boundary_op \<Rightarrow> bool" where
  "prepares_ambiguous e \<longleftrightarrow> (\<forall>i. e = B_Prepare i \<longrightarrow> ambiguous_state (ti_state i))"

definition agrees :: "bworld \<Rightarrow> bool" where
  "agrees w \<longleftrightarrow> bworld_ok w \<and> (\<forall>k i. intent_at (bw_intents w) k = Some i \<and> terminal_state (ti_state i) \<longrightarrow>
     (\<exists>r. result_at (bw_results w) k = Some r \<and> ti_state i = terminal_of (sr_ok r)))"

text \<open>A ledger step that records no outcome leaves the terminal intents what they were.\<close>

definition quiet_op :: "intent_op \<Rightarrow> bool" where
  "quiet_op e \<longleftrightarrow> (case e of Prepare i \<Rightarrow> ambiguous_state (ti_state i) | Claim _ _ _ \<Rightarrow> True
     | Renew _ _ _ \<Rightarrow> True | Release _ _ _ st \<Rightarrow> ambiguous_state st | _ \<Rightarrow> False)"

lemma quiet_terminal:
  assumes "ledger_ok f" and "quiet_op e" and "intent_at (intent_step ttl f (now, e)) k = Some i"
    and "terminal_state (ti_state i)"
  shows "intent_at f k = Some i"
proof (cases "k = intent_op_key e")
  case True
  obtain d where d: "read_intents f = Inr d" using ledger_read [OF assms(1)] by blast
  have no: "\<not> ambiguous_state (ti_state i)" using assms(4) by (rule states_disjoint)
  then have ne: "ti_state i \<noteq> ''executing''" by (auto simp: AMBIGUOUS_STATES_def)
  have all: "\<And>i. map_of d k = Some i \<Longrightarrow> ti_key i = k" using assms(1) d by (simp add: ledger_ok_def)
  show ?thesis
    using assms(2,3) True d no ne
    by (cases e; cases "map_of d (intent_op_key e)")
      (auto simp: intent_ops intent_at_read quiet_op_def asdict_intent_def claimed_def unclaimed_def
        split: if_splits)
next
  case False
  with assms(3) show ?thesis by (simp add: intent_step_other)
qed

lemma agrees_quiet:
  assumes "agrees w" and "quiet_op e"
  shows "agrees (w\<lparr>bw_intents := intent_step ttl (bw_intents w) (now, e)\<rparr>)"
proof -
  let ?f = "intent_step ttl (bw_intents w) (now, e)"
  have led: "ledger_ok (bw_intents w)" using assms(1) by (simp add: agrees_def bworld_ok_def)
  have "\<exists>r. result_at (bw_results w) k = Some r \<and> ti_state i = terminal_of (sr_ok r)"
    if "intent_at ?f k = Some i" "terminal_state (ti_state i)" for k i
    using quiet_terminal [OF led assms(2) that] that(2) assms(1) unfolding agrees_def by blast
  with assms(1) intent_step_ok [OF led, of ttl now e] show ?thesis
    by (simp add: agrees_def bworld_ok_def del: intent_step.simps)
qed

lemma agrees_put:
  assumes "agrees w"
  shows "agrees (w\<lparr>bw_results := snd (put_if_absent (report_result p) (bw_results w))\<rparr>)"
proof -
  have r: "results_ok (bw_results w)" using assms by (simp add: agrees_def bworld_ok_def)
  have keep: "result_at (snd (put_if_absent (report_result p) (bw_results w))) k = Some s"
    if "result_at (bw_results w) k = Some s" for k s
    using that by (auto simp: put_at [OF r])
  have "\<exists>s. result_at (snd (put_if_absent (report_result p) (bw_results w))) k = Some s
      \<and> ti_state i = terminal_of (sr_ok s)"
    if "intent_at (bw_intents w) k = Some i" "terminal_state (ti_state i)" for k i
    using that assms keep unfolding agrees_def by meson
  with assms put_ok [OF r] show ?thesis by (simp add: agrees_def bworld_ok_def)
qed

lemma agrees_commit:
  assumes "agrees w"
  shows "agrees (snd (boundary_commit p o1 t now w))"
proof -
  have ok: "ledger_ok (bw_intents w)" "results_ok (bw_results w)" and w: "bworld_ok w"
    using assms by (auto simp: agrees_def bworld_ok_def)
  obtain y rf where put: "put_if_absent (report_result p) (bw_results w) = (y, rf)" by fastforce
  let ?w1 = "w\<lparr>bw_results := rf\<rparr>"
  have w1: "agrees ?w1" using agrees_put [OF assms, of p] put by simp
  show ?thesis
  proof (cases y)
    case (Inl e)
    with w1 show ?thesis by (simp add: boundary_commit_def put)
  next
    case (Inr r)
    have at: "\<exists>s. result_at rf (or_key p) = Some s \<and> sr_ok s = sr_ok r"
    proof (cases "result_at (bw_results w) (or_key p)")
      case None
      then have "fst (put_if_absent (report_result p) (bw_results w)) = Inr (report_result p)"
        by (auto intro: put_new [OF ok(2), of "report_result p"])
      then show ?thesis
        using put Inr put_at [OF ok(2), of "report_result p" "or_key p"] None by auto
    next
      case (Some s)
      with put Inr put_old [OF ok(2), of "report_result p" s] show ?thesis by (auto split: if_splits)
    qed
    have led: "ledger_ok (bw_intents w)" by (rule ok(1))
    have step: "ledger_ok (snd (mark_claimed (or_key p) o1 t (terminal_of (sr_ok r)) now (bw_intents w)))"
      using intent_step_ok [OF led, of 0 now "Mark_Claimed (or_key p) o1 t (terminal_of (sr_ok r))"] by simp
    show ?thesis
    proof (cases rule: mark_claimed_terminal [OF led, of "or_key p" o1 t now "sr_ok r", case_names Done Refused])
      case (Done i f')
      with w1 at step show ?thesis
        by (auto simp: boundary_commit_def put Inr Let_def agrees_def bworld_ok_def unclaimed_def)
    next
      case Refused
      with w1 show ?thesis by (simp add: boundary_commit_def put Inr Let_def)
    qed
  qed
qed

lemma agrees_step: "agrees w \<Longrightarrow> prepares_ambiguous e \<Longrightarrow> agrees (boundary_step ttl w (now, e))"
  by (cases e)
    (simp_all add: agrees_quiet agrees_put agrees_commit quiet_op_def prepares_ambiguous_def
      AMBIGUOUS_STATES_def del: intent_step.simps)


text \<open>
  C30. The ledger never outruns the registry. Start with files that agree and let any number of
  workers prepare, claim, renew, release and commit through the boundary in any order, at any
  instants, crashing between the two writes of a commit as they please: whenever an intent is
  completed or failed, an outcome is recorded for its key, the intent's state is that outcome's,
  and it is the outcome that was recorded first.
\<close>

theorem ledger_agrees_with_registry:
  assumes "agrees w" and "\<forall>(now, e) \<in> set es. prepares_ambiguous e"
    and "w' = run (boundary_step ttl) w es"
    and "intent_at (bw_intents w') k = Some i" and "terminal_state (ti_state i)"
  shows "\<exists>r. result_at (bw_results w') k = Some r \<and> ti_state i = terminal_of (sr_ok r)
    \<and> (\<forall>r0. result_at (bw_results w) k = Some r0 \<longrightarrow> r = r0)"
proof -
  have "agrees (run (boundary_step ttl) w es)
    \<and> (\<forall>r0. result_at (bw_results w) k = Some r0 \<longrightarrow>
          result_at (bw_results (run (boundary_step ttl) w es)) k = Some r0)"
    using assms(1,2)
  proof (induction es arbitrary: w)
    case Nil
    then show ?case by simp
  next
    case (Cons p es)
    obtain n e where p: "p = (n, e)" by (cases p)
    have r: "results_ok (bw_results w)" using Cons.prems(1) by (simp add: agrees_def bworld_ok_def)
    have "result_at (bw_results (boundary_step ttl w p)) k = Some r0"
      if "result_at (bw_results w) k = Some r0" for r0
      using that put_at [OF r]
      by (cases e) (auto simp: p boundary_commit_def Let_def put_at [OF r]
          split: prod.split sum.split dest!: arg_cong [where f = snd])
    moreover have "agrees (boundary_step ttl w p)"
      using agrees_step [OF Cons.prems(1), of e ttl n] Cons.prems(2) by (simp add: p)
    ultimately show ?case using Cons.IH [of "boundary_step ttl w p"] Cons.prems(2) by simp
  qed
  with assms(3-5) show ?thesis unfolding agrees_def by fastforce
qed


lemma sample_agrees: "agrees (sample_bworld [])"
proof -
  have "\<not> terminal_state ''executing''" by (simp add: TERMINAL_STATES_def)
  then show ?thesis
    using sample_bworld_ok(1)
    by (auto simp: agrees_def sample_bworld_def sample_ledger_def sample_intent_fields split: if_splits)
qed

lemma sample_finish:
  "intent_at (bw_intents (run (boundary_step 60) (sample_bworld [])
      [(4, B_Crash (sample_report True)), (5, B_Commit (sample_report False) ''w1'' ''t1'')])) ''k1'' =
     Some (unclaimed ''completed'' sample_intent)"
  by (simp add: boundary_commit_def sample_bworld_def put_if_absent_def report_result_def sample_report_def
      mark_claimed_def sample_ledger_def sample_intent_fields live_at_def terminal_of_def VALID_STATES_def
      AMBIGUOUS_STATES_def TERMINAL_STATES_def Let_def)

theorem ledger_agrees_with_registry_witness:
  "\<exists>r. result_at (bw_results (run (boundary_step 60) (sample_bworld [])
      [(4, B_Crash (sample_report True)), (5, B_Commit (sample_report False) ''w1'' ''t1'')])) ''k1'' = Some r
     \<and> sr_ok r"
proof -
  have tm: "terminal_state (ti_state (unclaimed ''completed'' sample_intent))"
    by (simp add: unclaimed_def TERMINAL_STATES_def)
  have es: "\<forall>(now :: time, e) \<in> set [(4, B_Crash (sample_report True)), (5, B_Commit (sample_report False) ''w1'' ''t1'')].
      prepares_ambiguous e" by (simp add: prepares_ambiguous_def)
  from ledger_agrees_with_registry [OF sample_agrees es refl sample_finish tm]
  obtain r where "result_at (bw_results (run (boundary_step 60) (sample_bworld [])
      [(4, B_Crash (sample_report True)), (5, B_Commit (sample_report False) ''w1'' ''t1'')])) ''k1'' = Some r"
    "''completed'' = terminal_of (sr_ok r)"
    unfolding unclaimed_def by auto
  then show ?thesis by (auto simp: terminal_of_def split: if_splits)
qed

section \<open>From the tool to the execution\<close>

text \<open>
  The execution follows the boundary. When the boundary does not finish the intent (the claim
  is stale, expired or gone), the execution layer is not touched at all.
  When it does, the execution is committed to a status derived from what the caller reports, not
  from the recorded outcome: a caller that reports a failure for a call recorded as a success
  completes the intent and fails the execution, without a reason.
\<close>

theorem execution_commit_follows_claim:
  assumes "bworld_ok (tw_boundary w)" and "sr_tool (effective (tw_boundary w) p) = or_tool p"
    and "r = effective (tw_boundary w) p" and "opt_list status = []"
    and "(y, w') = tool_execution_commit h cfg clk s p owner token status now w"
  shows "if may_finish (tw_boundary w) (or_key p) owner token now
    then (\<exists>x. (x, tw_coord w') = commit h cfg clk s (terminal_of (or_ok p))
             (if or_ok p then sr_value r else VNone) (if or_ok p then None else sr_error r) (tw_coord w))
      \<and> (\<exists>i. intent_at (bw_intents (tw_boundary w')) (or_key p) = Some i \<and> ti_state i = terminal_of (sr_ok r))
    else tw_coord w' = tw_coord w \<and> bw_intents (tw_boundary w') = bw_intents (tw_boundary w)
      \<and> (\<exists>b. y = Inr \<lparr>te_tool = b, te_execution = None\<rparr> \<and> bc_ok b = sr_ok r)"
proof -
  obtain b where b: "boundary_commit p owner token now (tw_boundary w) =
      (Inr \<lparr>bc_ok = sr_ok r, bc_value = sr_value r, bc_error = sr_error r,
            bc_committed = may_finish (tw_boundary w) (or_key p) owner token now\<rparr>, b)"
    "may_finish (tw_boundary w) (or_key p) owner token now \<Longrightarrow>
       \<exists>i. intent_at (bw_intents b) (or_key p) = Some i \<and> ti_state i = terminal_of (sr_ok r)"
    "\<not> may_finish (tw_boundary w) (or_key p) owner token now \<Longrightarrow> bw_intents b = bw_intents (tw_boundary w)"
    using boundary_outcome [OF assms(1,2,3), of owner token now] by (auto split: if_splits)
  obtain x c where x: "commit h cfg clk s (terminal_of (or_ok p))
             (if or_ok p then sr_value r else VNone) (if or_ok p then None else sr_error r) (tw_coord w) = (x, c)"
    by fastforce
  have t: "target_status status ok = terminal_of ok" for ok using assms(4) by (simp add: target_status_def)
  show ?thesis
  proof (cases "may_finish (tw_boundary w) (or_key p) owner token now")
    case True
    have "tw_coord w' = c \<and> tw_boundary w' = b"
      using assms(5) True x by (cases x; cases "or_ok p") (simp_all add: tool_execution_commit_def b(1) t Let_def)
    with True b(2) x show ?thesis by auto
  next
    case False
    with assms(5) b(3) show ?thesis by (simp add: tool_execution_commit_def b(1) Let_def)
  qed
qed


theorem execution_commit_follows_claim_witness:
  "\<forall>cfg clk s c. \<exists>x y w'. (y, w') = tool_execution_commit sample_host cfg clk s (sample_report False) ''w1'' ''t1'' None 5
      \<lparr>tw_boundary = sample_bworld [(''k1'', sample_result ''c0'' True)], tw_coord = c\<rparr>
    \<and> (x, tw_coord w') = commit sample_host cfg clk s ''failed'' VNone None c
    \<and> (\<exists>i. intent_at (bw_intents (tw_boundary w')) ''k1'' = Some i \<and> ti_state i = ''completed'')"
proof (intro allI)
  fix cfg clk s c
  let ?b = "sample_bworld [(''k1'', sample_result ''c0'' True)]"
  let ?w = "\<lparr>tw_boundary = ?b, tw_coord = c\<rparr>"
  have e: "effective ?b (sample_report False) = sample_result ''c0'' True"
    by (simp add: effective_def sample_bworld_def sample_report_def)
  have p: "or_key (sample_report False) = ''k1''" "\<not> or_ok (sample_report False)" "or_tool (sample_report False) = ''pay''"
    by (simp_all add: sample_report_def)
  have r: "sr_ok (sample_result ''c0'' True)" "sr_error (sample_result ''c0'' True) = None"
    "sr_tool (sample_result ''c0'' True) = ''pay''"
    by (simp_all add: sample_result_def)
  have w: "tw_boundary ?w = ?b" by simp
  obtain y w' where yw: "(y, w') = tool_execution_commit sample_host cfg clk s (sample_report False) ''w1'' ''t1'' None 5 ?w"
    by (metis surj_pair)
  have none: "opt_list None = []" by (simp add: opt_list_def)
  have tool: "sr_tool (effective (tw_boundary ?w) (sample_report False)) = or_tool (sample_report False)"
    unfolding w e p r by (rule refl)
  note f = execution_commit_follows_claim [OF _ tool refl none yw, unfolded w e p r sample_may_finish]
  have "(\<exists>x. (x, tw_coord w') = commit sample_host cfg clk s ''failed'' VNone None c)
      \<and> (\<exists>i. intent_at (bw_intents (tw_boundary w')) ''k1'' = Some i \<and> ti_state i = ''completed'')"
    using f sample_bworld_ok(2) p(2) r(1) by (simp add: terminal_of_def)
  with yw show "\<exists>x y w'. (y, w') = tool_execution_commit sample_host cfg clk s (sample_report False) ''w1'' ''t1'' None 5 ?w
      \<and> (x, tw_coord w') = commit sample_host cfg clk s ''failed'' VNone None c
      \<and> (\<exists>i. intent_at (bw_intents (tw_boundary w')) ''k1'' = Some i \<and> ti_state i = ''completed'')"
    by blast
qed

end
