(* ===== verification/Tool_Executor.thy ===== *)
theory Tool_Executor
  imports Sandbox Boundary
begin

text \<open>
  \<^verbatim>\<open>runtime/tool_executor.py\<close>: execution of typed calls with the outcome recorded once per
  idempotency key. The environment \<open>'w tool_env\<close> of the tools holds the two durable files and
  the world the tools act on; a handler may change all of it, which covers other processes that work on
  the files meanwhile. The in-process lock per key makes one \<open>execute\<close> of a key a sequence of
  steps of this process.
\<close>

record 'w tool_env =
  ve_files :: bworld
  ve_world :: 'w

record 'w executor =
  xe_sandbox :: "'w tool_env sandbox"
  xe_bus :: "'w tool_env bus option"
  xe_has_results :: bool
  xe_has_intents :: bool
  xe_ttl :: int

record 'w xstate =
  xs_cache :: "(string \<times> tool_result) list"
  xs_audit :: exec_audit
  xs_env :: "'w tool_env"

abbreviation results_of :: "'w xstate \<Rightarrow> result_file" where
  "results_of s \<equiv> bw_results (ve_files (xs_env s))"

abbreviation intents_of :: "'w xstate \<Rightarrow> intent_file" where
  "intents_of s \<equiv> bw_intents (ve_files (xs_env s))"

definition set_files :: "bworld \<Rightarrow> 'w xstate \<Rightarrow> 'w xstate" where
  "set_files b s = s\<lparr>xs_env := (xs_env s)\<lparr>ve_files := b\<rparr>\<rparr>"

definition set_intents :: "intent_file \<Rightarrow> 'w xstate \<Rightarrow> 'w xstate" where
  "set_intents f s = set_files ((ve_files (xs_env s))\<lparr>bw_intents := f\<rparr>) s"

definition set_results :: "result_file \<Rightarrow> 'w xstate \<Rightarrow> 'w xstate" where
  "set_results f s = set_files ((ve_files (xs_env s))\<lparr>bw_results := f\<rparr>) s"

definition remember_result :: "string \<Rightarrow> tool_result \<Rightarrow> 'w xstate \<Rightarrow> 'w xstate" where
  "remember_result key r s = s\<lparr>xs_cache := dset key r (xs_cache s)\<rparr>"

section \<open>Running the tool\<close>

definition event_data :: "tool_call \<Rightarrow> pydict \<Rightarrow> pydict" where
  "event_data call extra =
     [(''tool'', VStr (tc_tool call)), (''call_id'', VStr (tc_call_id call))] @ extra @
     [(''idempotency_key'', opt_str (tc_idempotency_key call))]"

definition execute_once ::
    "'w executor \<Rightarrow> (nat \<Rightarrow> time) \<Rightarrow> string \<Rightarrow> tool_call \<Rightarrow> tool_context \<Rightarrow> exec_context option \<Rightarrow> 'w xstate \<Rightarrow>
     tool_result result \<times> 'w xstate" where
  "execute_once x clk uid call ctx ec s =
     (let c = (case ec of None \<Rightarrow> new_context uid (tx_agent_id ctx) [] [] | Some c \<Rightarrow> c);
          env0 = publish_opt (xe_bus x) TOOL_STARTED c (event_data call []) (xs_env s);
          (out, audit, env) = sandbox_execute (xe_sandbox x) clk (By_Call call) ctx [] (xs_audit s, env0);
          s1 = s\<lparr>xs_audit := audit, xs_env := env\<rparr>;
          completed = s1\<lparr>xs_env := publish_opt (xe_bus x) TOOL_COMPLETED c (event_data call []) env\<rparr>;
          failed = (\<lambda>extra. s1\<lparr>xs_env := publish_opt (xe_bus x) TOOL_FAILED c (event_data call extra) env\<rparr>)
      in case out of
           Value v \<Rightarrow> (Inr (tool_success call v), completed)
         | Typed r \<Rightarrow> (Inr r, completed)
         | Cut_Off \<Rightarrow>
             (Inr (tool_failure call (Exc TimeoutError []) False True),
              failed [(''error'', VStr []), (''retryable'', VBool False), (''ambiguous'', VBool True)])
         | Raised e \<Rightarrow>
             (if isinst e [TimeoutError] then
                (Inr (tool_failure call e False True),
                 failed [(''error'', VStr (exc_msg e)), (''retryable'', VBool False), (''ambiguous'', VBool True)])
              else if isinst e [CancelledError, ToolPermissionError, ToolBoundaryError] then (Inl e, s1)
              else (Inr (tool_failure call e True False),
                    failed [(''error'', VStr (exc_msg e)), (''retryable'', VBool True)])))"

section \<open>Recorded outcomes\<close>

definition stored_matches_call :: "stored_result \<Rightarrow> tool_call \<Rightarrow> bool" where
  "stored_matches_call stored call \<longleftrightarrow>
     sr_call_id stored = tc_call_id call \<and> sr_tool stored = tc_tool call
     \<and> (case sr_arguments stored of None \<Rightarrow> True | Some a \<Rightarrow> eq_val (VDict a) (VDict (tc_arguments call)))"

definition result_of_stored :: "tool_call \<Rightarrow> stored_result \<Rightarrow> tool_result" where
  "result_of_stored call stored =
     \<lparr>tr_call_id = tc_call_id call, tr_tool = tc_tool call, tr_ok = sr_ok stored, tr_value = sr_value stored,
      tr_error = sr_error stored, tr_retryable = False, tr_idempotency_key = Some (sr_key stored),
      tr_ambiguous = False\<rparr>"

definition replay :: "string \<Rightarrow> tool_call \<Rightarrow> stored_result \<Rightarrow> 'w xstate \<Rightarrow> tool_result result \<times> 'w xstate" where
  "replay key call stored s =
     (if \<not> stored_matches_call stored call then
        (Inl (Exc ToolBoundaryError ''idempotency key conflicts with stored tool call''), s)
      else (Inr (result_of_stored call stored), remember_result key (result_of_stored call stored) s))"

text \<open>The stored outcome of a key, when the executor has a registry.\<close>

definition look_stored :: "'w executor \<Rightarrow> string \<Rightarrow> 'w xstate \<Rightarrow> stored_result option result" where
  "look_stored x key s =
     (if xe_has_results x then get_result (Some key) (results_of s) else Inr None)"

section \<open>Claiming the intent\<close>

text \<open>
  What comes before the run: an outcome to replay, a refusal, or the go-ahead (the flag says
  whether the intent was claimed).
\<close>

datatype admission = Replay stored_result | Busy | Go bool

definition admit ::
    "'w executor \<Rightarrow> (nat \<Rightarrow> time) \<Rightarrow> string \<Rightarrow> string \<Rightarrow> string \<Rightarrow> tool_call \<Rightarrow> exec_context option \<Rightarrow> 'w xstate \<Rightarrow>
     admission result \<times> 'w xstate" where
  "admit x clk owner token key call ec s =
     (if \<not> xe_has_intents x then (Inr (Go False), s)
      else case prepare (new_intent key (tc_call_id call) (tc_tool call) (VDict (tc_arguments call))
                           (map_option ctx_execution_id ec) (clk 0)) (intents_of s) of
        (Inl e, f) \<Rightarrow> (Inl e, set_intents f s)
      | (Inr i, f) \<Rightarrow>
          (let s1 = set_intents f s in
           case (if terminal_state (ti_state i) then look_stored x key s1 else Inr None) of
             Inl e \<Rightarrow> (Inl e, s1)
           | Inr (Some stored) \<Rightarrow> (Inr (Replay stored), s1)
           | Inr None \<Rightarrow>
               (case claim (xe_ttl x) key owner token (clk 1) (intents_of s1) of
                  (Inl e, f) \<Rightarrow> (Inl e, set_intents f s1)
                | (Inr (Some _), f) \<Rightarrow> (Inr (Go True), set_intents f s1)
                | (Inr None, f) \<Rightarrow>
                    (let s2 = set_intents f s1 in
                     case get_intent key (intents_of s2) of
                       Inl e \<Rightarrow> (Inl e, s2)
                     | Inr current \<Rightarrow>
                         (case (if current \<noteq> None \<and> terminal_state (ti_state (the current))
                                then look_stored x key s2 else Inr None) of
                            Inl e \<Rightarrow> (Inl e, s2)
                          | Inr (Some stored) \<Rightarrow> (Inr (Replay stored), s2)
                          | Inr None \<Rightarrow> (Inr Busy, s2))))))"

section \<open>Recording the outcome\<close>

definition release_after ::
    "bool \<Rightarrow> string \<Rightarrow> string \<Rightarrow> string \<Rightarrow> 'w xstate \<Rightarrow> unit result \<times> 'w xstate" where
  "release_after claimed_intent owner token key s =
     (if \<not> claimed_intent then (Inr (), s)
      else (let (r, f) = release_claim key owner token ''ambiguous'' (intents_of s)
            in (map_sum id (\<lambda>_. ()) r, set_intents f s)))"

definition record_outcome ::
    "'w executor \<Rightarrow> time \<Rightarrow> bool \<Rightarrow> string \<Rightarrow> string \<Rightarrow> string \<Rightarrow> tool_call \<Rightarrow> tool_result \<Rightarrow> 'w xstate \<Rightarrow>
     tool_result result \<times> 'w xstate" where
  "record_outcome x now claimed_intent owner token key call r s =
     (if xe_has_results x \<and> xe_has_intents x \<and> claimed_intent then
        (let (y, b) = adapter_commit call r owner token now (ve_files (xs_env s)) in (y, set_files b s))
      else
        (case (if xe_has_results x then
                 (case put_if_absent \<lparr>sr_key = key, sr_call_id = tc_call_id call, sr_tool = tc_tool call,
                           sr_ok = tr_ok r, sr_value = (if tr_ok r then tr_value r else VNone),
                           sr_error = tr_error r, sr_arguments = Some (tc_arguments call)\<rparr> (results_of s) of
                    (Inl e, f) \<Rightarrow> (Inl e, set_results f s)
                  | (Inr stored, f) \<Rightarrow>
                      (if stored_matches_call stored call then (Inr (result_of_stored call stored), set_results f s)
                       else (Inl (Exc ToolBoundaryError ''idempotency key conflicts with stored tool call''),
                             set_results f s)))
               else (Inr r, s)) of
           (Inl e, s1) \<Rightarrow> (Inl e, s1)
         | (Inr r1, s1) \<Rightarrow>
             (if claimed_intent then
                (let (m, f) = mark_claimed key owner token (terminal_of (tr_ok r1)) now (intents_of s1)
                 in (map_sum id (\<lambda>_. r1) m, set_intents f s1))
              else (Inr r1, s1))))"

definition run_admitted ::
    "'w executor \<Rightarrow> (nat \<Rightarrow> time) \<Rightarrow> string \<Rightarrow> string \<Rightarrow> string \<Rightarrow> bool \<Rightarrow> string \<Rightarrow> tool_call \<Rightarrow> tool_context \<Rightarrow>
     exec_context option \<Rightarrow> 'w xstate \<Rightarrow> tool_result result \<times> 'w xstate" where
  "run_admitted x clk uid owner token claimed_intent key call ctx ec s =
     (case execute_once x (\<lambda>i. clk (i + 2)) uid call ctx ec s of
        (Inl e, s1) \<Rightarrow>
          (if isinst e [CancelledError] then
             (case release_after claimed_intent owner token key s1 of
                (Inl e2, s2) \<Rightarrow> (Inl e2, s2)
              | (Inr _, s2) \<Rightarrow> (Inl e, s2))
           else (Inl e, s1))
      | (Inr r, s1) \<Rightarrow>
          (if tr_ambiguous r \<or> tr_retryable r then
             (case release_after claimed_intent owner token key s1 of
                (Inl e, s2) \<Rightarrow> (Inl e, s2)
              | (Inr _, s2) \<Rightarrow> (Inr r, remember_result key r s2))
           else
             (case record_outcome x (clk 4) claimed_intent owner token key call r s1 of
                (Inl e, s2) \<Rightarrow> (Inl e, s2)
              | (Inr r1, s2) \<Rightarrow> (Inr r1, remember_result key r1 s2))))"

text \<open>A cached result answers the call unless it is retryable.\<close>

definition cached_answer :: "'w xstate \<Rightarrow> string \<Rightarrow> tool_result option" where
  "cached_answer s key =
     (case map_of (xs_cache s) key of Some r \<Rightarrow> if tr_retryable r then None else Some r | None \<Rightarrow> None)"

text \<open>The path of \<open>execute\<close> for a call with a key that no cached result answers.\<close>

definition uncached ::
    "'w executor \<Rightarrow> (nat \<Rightarrow> time) \<Rightarrow> string \<Rightarrow> string \<Rightarrow> string \<Rightarrow> tool_call \<Rightarrow> tool_context \<Rightarrow>
     exec_context option \<Rightarrow> string \<Rightarrow> 'w xstate \<Rightarrow> tool_result result \<times> 'w xstate" where
  "uncached x clk uid owner token call ctx ec key s =
     (case look_stored x key s of
             Inl e \<Rightarrow> (Inl e, s)
           | Inr (Some stored) \<Rightarrow> replay key call stored s
           | Inr None \<Rightarrow>
               (case admit x clk owner token key call ec s of
                  (Inl e, s1) \<Rightarrow> (Inl e, s1)
                | (Inr (Replay stored), s1) \<Rightarrow> replay key call stored s1
                | (Inr Busy, s1) \<Rightarrow>
                    (Inr (tool_failure call (Exc RuntimeError ''intent is already claimed'') False False), s1)
                | (Inr (Go claimed_intent), s1) \<Rightarrow>
                    run_admitted x clk uid owner token claimed_intent key call ctx ec s1))"

definition execute ::
    "'w executor \<Rightarrow> (nat \<Rightarrow> time) \<Rightarrow> string \<Rightarrow> string \<Rightarrow> string \<Rightarrow> tool_call \<Rightarrow> tool_context \<Rightarrow>
     exec_context option \<Rightarrow> 'w xstate \<Rightarrow> tool_result result \<times> 'w xstate" where
  "execute x clk uid owner token call ctx ec s =
     (if tx_agent_id ctx = [] then
        (Inl (Exc ToolBoundaryError ''trusted ToolExecutionContext is required''), s)
      else let key = opt_list (tc_idempotency_key call) in
      if key = [] then execute_once x clk uid call ctx ec s
      else case cached_answer s key of
        Some cached \<Rightarrow> (Inr cached, s)
      | None \<Rightarrow> uncached x clk uid owner token call ctx ec key s)"

section \<open>Reconciliation of one intent\<close>

text \<open>
  \<^verbatim>\<open>reconcile_intent\<close>: the resolver (a parameter) tells what became of an ambiguous call, or
  \<open>None\<close>.
\<close>

type_synonym 'w intent_resolver = "intent \<Rightarrow> 'w xstate \<Rightarrow> tool_result option result \<times> 'w xstate"

definition call_of_intent :: "intent \<Rightarrow> tool_call" where
  "call_of_intent i =
     \<lparr>tc_tool = ti_tool i, tc_arguments = (case ti_arguments i of VDict d \<Rightarrow> d | _ \<Rightarrow> []),
      tc_call_id = ti_call_id i, tc_timeout = None, tc_idempotency_key = Some (ti_key i)\<rparr>"

text \<open>\<^verbatim>\<open>if self.intent_store and not (intent.owner_id and intent.claim_token)\<close>: mark it.\<close>

definition mark_unclaimed :: "'w executor \<Rightarrow> intent \<Rightarrow> bool \<Rightarrow> 'w xstate \<Rightarrow> unit result \<times> 'w xstate" where
  "mark_unclaimed x i ok s =
     (if xe_has_intents x \<and> \<not> (opt_list (ti_owner i) \<noteq> [] \<and> opt_list (ti_token i) \<noteq> []) then
        (let (r, f) = mark_intent (ti_key i) (terminal_of ok) (intents_of s)
         in (map_sum id (\<lambda>_. ()) r, set_intents f s))
      else (Inr (), s))"

definition reconcile_intent ::
    "'w executor \<Rightarrow> intent \<Rightarrow> 'w intent_resolver \<Rightarrow> 'w xstate \<Rightarrow> tool_result option result \<times> 'w xstate" where
  "reconcile_intent x i resolver s =
     (let call = call_of_intent i;
          conflict = Exc ToolBoundaryError ''idempotency key conflicts with stored tool intent'' in
      case look_stored x (ti_key i) s of
        Inl e \<Rightarrow> (Inl e, s)
      | Inr (Some stored) \<Rightarrow>
          (if \<not> stored_matches_call stored call then (Inl conflict, s)
           else case mark_unclaimed x i (sr_ok stored) s of
             (Inl e, s1) \<Rightarrow> (Inl e, s1)
           | (Inr _, s1) \<Rightarrow> (Inr (Some (result_of_stored call stored)), s1))
      | Inr None \<Rightarrow>
          (case resolver i s of
             (Inl e, s1) \<Rightarrow> (Inl e, s1)
           | (Inr None, s1) \<Rightarrow> (Inr None, s1)
           | (Inr (Some r), s1) \<Rightarrow>
               (case (if xe_has_results x then
                        (case put_if_absent \<lparr>sr_key = ti_key i, sr_call_id = ti_call_id i, sr_tool = ti_tool i,
                                 sr_ok = tr_ok r, sr_value = (if tr_ok r then tr_value r else VNone),
                                 sr_error = tr_error r, sr_arguments = Some (tc_arguments call)\<rparr> (results_of s1) of
                           (Inl e, f) \<Rightarrow> (Inl e, set_results f s1)
                         | (Inr stored, f) \<Rightarrow>
                             (if stored_matches_call stored call then (Inr (), set_results f s1)
                              else (Inl conflict, set_results f s1)))
                      else (Inr (), s1)) of
                  (Inl e, s2) \<Rightarrow> (Inl e, s2)
                | (Inr _, s2) \<Rightarrow>
                    (case mark_unclaimed x i (tr_ok r) s2 of
                       (Inl e, s3) \<Rightarrow> (Inl e, s3)
                     | (Inr _, s3) \<Rightarrow> (Inr (Some r), s3)))))"

end
