(* ===== verification/Executor_Spec.thy ===== *)
theory Executor_Spec
  imports Tool_Executor
begin

text \<open>
  What the executor promises about side effects: a call whose outcome is recorded is never run
  again, a call another party has claimed is not run, and a definitive outcome survives a restart of
  the process. Handlers, subscribers and the other users of the files are arbitrary.
\<close>

definition files_ok :: "'w xstate \<Rightarrow> bool" where
  "files_ok s \<longleftrightarrow> bworld_ok (ve_files (xs_env s))"

text \<open>The state an executor starts with after its process was restarted: the cache is gone.\<close>

definition restarted :: "'w xstate \<Rightarrow> 'w xstate" where
  "restarted s = s\<lparr>xs_cache := []\<rparr>"

lemma files_okD: "files_ok s \<Longrightarrow> ledger_ok (intents_of s) \<and> results_ok (results_of s)"
  by (simp add: files_ok_def bworld_ok_def)

lemma set_files_simps [simp]:
  "ve_files (xs_env (set_files b s)) = b" "xs_cache (set_files b s) = xs_cache s"
  "xs_audit (set_files b s) = xs_audit s" "ve_world (xs_env (set_files b s)) = ve_world (xs_env s)"
  by (simp_all add: set_files_def)

lemma set_part_simps [simp]:
  "intents_of (set_intents f s) = f" "results_of (set_intents f s) = results_of s"
  "results_of (set_results g s) = g" "intents_of (set_results g s) = intents_of s"
  "xs_cache (set_intents f s) = xs_cache s" "xs_cache (set_results g s) = xs_cache s"
  "ve_world (xs_env (set_intents f s)) = ve_world (xs_env s)"
  by (simp_all add: set_intents_def set_results_def)

lemma set_intents_same [simp]: "set_intents (intents_of s) s = s"
  by (simp add: set_intents_def set_files_def)

lemma remember_simps [simp]:
  "xs_env (remember_result k r s) = xs_env s" "map_of (xs_cache (remember_result k r s)) k = Some r"
  by (simp_all add: remember_result_def)

lemma look_stored_at:
  assumes "files_ok s" and "xe_has_results x" and "key \<noteq> []"
  shows "look_stored x key s = Inr (result_at (results_of s) key)"
  using assms get_result_at [of "results_of s" key] files_okD [OF assms(1)] by (simp add: look_stored_def)

lemma execute_keyed:
  assumes "tx_agent_id ctx \<noteq> []" and "tc_idempotency_key call = Some key" and "key \<noteq> []"
  shows "execute x clk uid owner token call ctx ec s =
    (case cached_answer s key of Some r \<Rightarrow> (Inr r, s) | None \<Rightarrow> uncached x clk uid owner token call ctx ec key s)"
  using assms by (simp add: execute_def opt_list_def Let_def)

text \<open>
  A recorded call is not run again. When an outcome is recorded for the call's key, \<open>execute\<close>
  changes neither the files nor the world the tools act on, whatever the handlers are: it returns
  the cached result if it has a definitive one, else the recorded outcome if the record is for this
  very call (same call id, tool and arguments), and else raises \<^verbatim>\<open>ToolBoundaryError\<close>.
\<close>

theorem recorded_call_not_rerun:
  assumes "files_ok s" and "xe_has_results x" and "tx_agent_id ctx \<noteq> []"
    and "tc_idempotency_key call = Some key" and "key \<noteq> []"
    and "result_at (results_of s) key = Some stored"
    and "(y, s') = execute x clk uid owner token call ctx ec s"
  shows "xs_env s' = xs_env s
    \<and> (case cached_answer s key of
         Some r \<Rightarrow> y = Inr r
       | None \<Rightarrow> if stored_matches_call stored call then y = Inr (result_of_stored call stored)
                 else raises (y, s') ToolBoundaryError)"
  using assms(7)
  by (cases "cached_answer s key")
    (auto simp: execute_keyed [OF assms(3-5)] uncached_def look_stored_at [OF assms(1,2,5)] assms(6) replay_def
      split: if_splits)

section \<open>Admission\<close>

lemma prepare_old:
  assumes "read_intents f = Inr d" and "map_of d (ti_key i) = Some j" and "ti_state i \<in> set VALID_STATES"
  shows "prepare i f = (Inr j, f)"
  using assms by (simp add: prepare_def)

lemma prepared_valid [simp]: "ti_state (new_intent k c t a e n) \<in> set VALID_STATES" "ti_key (new_intent k c t a e n) = k"
  by (simp_all add: new_intent_def VALID_STATES_def AMBIGUOUS_STATES_def)

lemma admit_busy:
  assumes "files_ok s" and "xe_has_intents x" and "key \<noteq> []" and "owner \<noteq> []" and "token \<noteq> []"
    and "intent_at (intents_of s) key = Some i" and "ambiguous_state (ti_state i)" and "held_by w t i"
    and "live_at (clk 1) i" and "w \<noteq> owner"
  shows "admit x clk owner token key call ec s = (Inr Busy, s)"
proof -
  obtain d where d: "read_intents (intents_of s) = Inr d" "map_of d key = Some i"
    using assms(6) by (auto simp: intent_at_def split: sum.splits)
  have no: "\<not> terminal_state (ti_state i)" using assms(7) states_disjoint by blast
  show ?thesis
    using assms(2-5,7-10) d no
    by (simp add: admit_def prepare_old [OF d(1)] claim_def get_intent_def held_by_def Let_def del: One_nat_def)
qed

lemma admit_fresh:
  assumes "files_ok s" and "xe_has_intents x" and "key \<noteq> []" and "owner \<noteq> []" and "token \<noteq> []"
    and "intent_at (intents_of s) key = None"
  obtains f i where "admit x clk owner token key call ec s = (Inr (Go True), set_intents f s)"
    "ledger_ok f" "intent_at f key = Some i" "held_by owner token i" "ti_state i = ''executing''"
    "ti_expires i = Some (clk 1 + seconds (xe_ttl x))"
proof -
  let ?i = "new_intent key (tc_call_id call) (tc_tool call) (VDict (tc_arguments call))
    (map_option ctx_execution_id ec) (clk 0)"
  obtain d where d: "read_intents (intents_of s) = Inr d"
    using files_okD [OF assms(1)] ledger_read by blast
  have none: "map_of d key = None" using assms(6) d by (simp add: intent_at_def)
  let ?d = "dset key (asdict_intent ?i) d" and ?j = "claimed (xe_ttl x) (clk 1) owner token (asdict_intent ?i)"
  have prep: "prepare ?i (intents_of s) = (Inr ?i, Object ?d)"
    using prepared_valid by (simp add: prepare_def d none)
  have amb: "ambiguous_state ''prepared''" by (simp add: AMBIGUOUS_STATES_def)
  then have not: "\<not> terminal_state ''prepared''" using states_disjoint by blast
  have st: "ti_state ?i = ''prepared''" "ti_state (asdict_intent ?i) = ''prepared''" "ti_owner (asdict_intent ?i) = None"
    by (simp_all add: new_intent_def asdict_intent_def)
  have "claim (xe_ttl x) key owner token (clk 1) (Object ?d) = (Inr (Some ?j), Object (dset key ?j ?d))"
    using assms(3-5) amb by (simp add: claim_def st Let_def)
  then have "admit x clk owner token key call ec s = (Inr (Go True), set_intents (Object (dset key ?j ?d)) s)"
    using assms(2) not by (simp add: admit_def prep st Let_def set_intents_def set_files_def)
  moreover have "ledger_ok (Object (dset key ?j ?d))"
  proof -
    have "ledger_ok (intents_of s)" using files_okD [OF assms(1)] by simp
    then have "\<forall>k i. map_of d k = Some i \<longrightarrow> ti_key i = k \<and> ti_state i \<in> set VALID_STATES"
      by (simp add: ledger_ok_def d)
    then show ?thesis
      by (simp add: ledger_ok_def claimed_def asdict_intent_def new_intent_def VALID_STATES_def AMBIGUOUS_STATES_def)
  qed
  ultimately show thesis
    by (rule that [of "Object (dset key ?j ?d)" ?j])
      (simp_all add: claimed_def held_by_def)
qed

lemma execute_busy:
  assumes "files_ok s" and "xe_has_intents x" and "tx_agent_id ctx \<noteq> []"
    and "tc_idempotency_key call = Some key" and "key \<noteq> []" and "owner \<noteq> []" and "token \<noteq> []"
    and "cached_answer s key = None" and "xe_has_results x \<longrightarrow> result_at (results_of s) key = None"
    and "intent_at (intents_of s) key = Some i" and "ambiguous_state (ti_state i)" and "held_by w t i"
    and "live_at (clk 1) i" and "w \<noteq> owner"
  shows "execute x clk uid owner token call ctx ec s =
     (Inr (tool_failure call (Exc RuntimeError ''intent is already claimed'') False False), s)"
proof -
  have look: "look_stored x key s = Inr None"
  proof (cases "xe_has_results x")
    case True
    then show ?thesis using assms(9) look_stored_at [OF assms(1) True assms(5)] by simp
  next
    case False
    then show ?thesis by (simp add: look_stored_def)
  qed
  have "admit x clk owner token key call ec s = (Inr Busy, s)"
    by (rule admit_busy [where clk = clk, OF assms(1,2,5,6,7,10,11,12,13,14)])
  then show ?thesis
    by (simp add: execute_keyed [OF assms(3-5)] assms(8) uncached_def look)
qed

text \<open>
  A claimed call is not run. While another party holds a live claim on the intent of the
  call's key, \<open>execute\<close> under a new owner returns a failure and runs nothing: the files and the
  world are untouched and nothing is cached, so the call can be tried again later.
\<close>

theorem claimed_call_not_run:
  assumes "files_ok s" and "xe_has_intents x" and "tx_agent_id ctx \<noteq> []"
    and "tc_idempotency_key call = Some key" and "key \<noteq> []" and "owner \<noteq> []" and "token \<noteq> []"
    and "cached_answer s key = None" and "xe_has_results x \<longrightarrow> result_at (results_of s) key = None"
    and "intent_at (intents_of s) key = Some i" and "ambiguous_state (ti_state i)" and "held_by w t i"
    and "live_at (clk 1) i" and "w \<noteq> owner"
  shows "execute x clk uid owner token call ctx ec s =
     (Inr (tool_failure call (Exc RuntimeError ''intent is already claimed'') False False), s)"
  by (rule execute_busy [where clk = clk, OF assms])


section \<open>Outcomes survive restarts\<close>

lemma live_at_mono: "ti_expires i = Some u \<Longrightarrow> now < u \<Longrightarrow> live_at now i"
  by (simp add: live_at_def)

text \<open>The stored record of a call matches the call when its arguments are JSON data.\<close>

lemma recorded_matches:
  assumes "json_val (VDict (tc_arguments call))" and "wf_val (VDict (tc_arguments call))"
    and "sr_call_id r = tc_call_id call" and "sr_tool r = tc_tool call" and "sr_arguments r = Some (tc_arguments call)"
  shows "stored_matches_call (asdict_result r) call"
proof -
  have "VDict (map (map_prod id asdict_val) (tc_arguments call)) = VDict (tc_arguments call)"
    using asdict_json [OF assms(1)] by simp
  moreover have "eq_val (VDict (tc_arguments call)) (VDict (tc_arguments call))"
    by (rule eq_val_refl [OF assms(2)])
  ultimately show ?thesis
    using assms(3-5) by (simp add: stored_matches_call_def asdict_result_def)
qed

lemma record_fresh:
  assumes ok: "files_ok s" and x: "xe_has_results x" "xe_has_intents x" and key: "tc_idempotency_key call = Some key"
    and res: "result_at (results_of s) key = None"
    and i: "intent_at (intents_of s) key = Some i" "held_by owner token i" "live_at now i"
    and r: "\<not> tr_ambiguous r" "\<not> tr_retryable r"
  obtains b r' where "record_outcome x now True owner token key call r s = (Inr r', set_files b s)"
    "tr_ok r' = tr_ok r" "tr_error r' = tr_error r" "\<not> tr_ambiguous r'"
    "tr_value r' = (if tr_ok r then tr_value r else VNone)"
    "result_at (bw_results b) key = Some (asdict_result (report_result (report_of_call call r)))"
    "\<exists>j. intent_at (bw_intents b) key = Some j \<and> ti_state j = terminal_of (tr_ok r) \<and> ti_owner j = None"
proof -
  let ?p = "report_of_call call r" and ?w = "ve_files (xs_env s)"
  have k: "or_key ?p = key" by (simp add: report_of_call_def key opt_list_def)
  have eff: "effective ?w ?p = report_result ?p" using res by (simp add: effective_def k)
  have tool: "sr_tool (effective ?w ?p) = or_tool ?p" by (simp add: eff)
  have may: "may_finish ?w key owner token now" using i by (auto simp: may_finish_def)
  have bok: "bworld_ok ?w" using ok by (simp add: files_ok_def)
  obtain b where b: "boundary_commit ?p owner token now ?w =
      (Inr \<lparr>bc_ok = tr_ok r, bc_value = (if tr_ok r then tr_value r else VNone), bc_error = tr_error r,
            bc_committed = True\<rparr>, b)"
    "result_at (bw_results b) key = Some (asdict_result (report_result ?p))"
    "\<exists>j. intent_at (bw_intents b) key = Some j \<and> ti_state j = terminal_of (tr_ok r) \<and> ti_owner j = None"
    using boundary_outcome [OF bok tool refl, of owner token now] may res
    by (auto simp: eff k) (auto simp: report_result_def report_of_call_def)
  show thesis
    by (rule that [of "\<lparr>tr_call_id = tc_call_id call, tr_tool = tc_tool call, tr_ok = tr_ok r,
          tr_value = (if tr_ok r then tr_value r else VNone), tr_error = tr_error r, tr_retryable = False,
          tr_idempotency_key = tc_idempotency_key call, tr_ambiguous = False\<rparr>" b])
      (use b r x in \<open>simp_all add: record_outcome_def adapter_commit_def report_of_call_def\<close>)
qed

text \<open>
  C19. Exactly once across restarts. Take a fresh call with a key (JSON arguments), executed with
  both stores. If the tool ends in a definitive result before the claim expires, and nobody else
  touches the two files meanwhile, then \<open>execute\<close> returns that result, the outcome is recorded and
  the intent finished. After a restart (an empty cache), with any other executor that shares the
  registry, the same call returns the same outcome, its value in JSON form, without running anything.
\<close>

theorem outcome_survives_restart:
  assumes "files_ok s" and "xe_has_results x" and "xe_has_intents x" and "tx_agent_id ctx \<noteq> []"
    and "tc_idempotency_key call = Some key" and "key \<noteq> []" and "owner \<noteq> []" and "token \<noteq> []"
    and "cached_answer s key = None" and "result_at (results_of s) key = None"
    and "intent_at (intents_of s) key = None"
    and "json_val (VDict (tc_arguments call))" and "wf_val (VDict (tc_arguments call))"
    and adm: "(y1, s1) = admit x clk owner token key call ec s"
    and run: "(Inr r, s2) = execute_once x (\<lambda>i. clk (i + 2)) uid call ctx ec s1"
    and "\<not> tr_ambiguous r" and "\<not> tr_retryable r"
    and quiet: "ve_files (xs_env s2) = ve_files (xs_env s1)"
    and "clk 4 < clk 1 + seconds (xe_ttl x)"
    and fin: "(y, s3) = execute x clk uid owner token call ctx ec s"
    and "xe_has_results x'" and "tx_agent_id ctx' \<noteq> []"
    and again: "(y', s4) = execute x' clk' uid' owner' token' call ctx' ec' (restarted s3)"
  shows "(\<exists>r'. y = Inr r' \<and> tr_ok r' = tr_ok r \<and> tr_error r' = tr_error r \<and> \<not> tr_ambiguous r')
    \<and> (\<exists>j. intent_at (intents_of s3) key = Some j \<and> ti_state j = terminal_of (tr_ok r))
    \<and> (\<exists>r''. y' = Inr r'' \<and> tr_ok r'' = tr_ok r \<and> tr_error r'' = tr_error r
         \<and> tr_value r'' = asdict_val (if tr_ok r then tr_value r else VNone) \<and> \<not> tr_ambiguous r'')
    \<and> xs_env s4 = xs_env s3"
proof -
  obtain f i where a: "admit x clk owner token key call ec s = (Inr (Go True), set_intents f s)"
    "ledger_ok f" "intent_at f key = Some i" "held_by owner token i" "ti_state i = ''executing''"
    "ti_expires i = Some (clk 1 + seconds (xe_ttl x))"
    by (rule admit_fresh [where clk = clk, OF assms(1,3,6,7,8,11)])
  have s1: "s1 = set_intents f s" using adm a(1) by simp
  have files2: "intents_of s2 = f" "results_of s2 = results_of s" using quiet by (simp_all add: s1)
  have ok2: "files_ok s2" using a(2) files_okD [OF assms(1)] quiet by (simp add: files_ok_def bworld_ok_def s1)
  have live: "live_at (clk 4) i" using a(6) assms(19) by (rule live_at_mono)
  have res2: "result_at (results_of s2) key = None" and int2: "intent_at (intents_of s2) key = Some i"
    using assms(10) a(3) by (simp_all add: files2)
  obtain b r' where rec: "record_outcome x (clk 4) True owner token key call r s2 = (Inr r', set_files b s2)"
    "tr_ok r' = tr_ok r" "tr_error r' = tr_error r" "\<not> tr_ambiguous r'"
    "result_at (bw_results b) key = Some (asdict_result (report_result (report_of_call call r)))"
    "\<exists>j. intent_at (bw_intents b) key = Some j \<and> ti_state j = terminal_of (tr_ok r) \<and> ti_owner j = None"
    by (rule record_fresh [OF ok2 assms(2,3,5) res2 int2 a(4) live assms(16,17)]) blast
  have look: "look_stored x key s = Inr None" using look_stored_at [OF assms(1,2,6)] assms(10) by simp
  have "execute x clk uid owner token call ctx ec s = (Inr r', remember_result key r' (set_files b s2))"
    by (simp add: execute_keyed [OF assms(4,5,6)] assms(9,16,17) uncached_def look a(1) run_admitted_def
        s1 [symmetric] rec(1) run [symmetric] del: add_2_eq_Suc')
  with fin have y: "y = Inr r'" and s3: "s3 = remember_result key r' (set_files b s2)" by auto
  let ?st = "asdict_result (report_result (report_of_call call r))"
  have match: "stored_matches_call ?st call"
    by (rule recorded_matches [OF assms(12,13)]) (simp_all add: report_result_def report_of_call_def)
  have at: "result_at (results_of (restarted s3)) key = Some ?st"
    using rec(5) by (simp add: s3 restarted_def)
  have get: "look_stored x' key (restarted s3) = Inr (Some ?st)"
    using at assms(6,21) by (simp add: look_stored_def get_result_def opt_list_def result_at_def split: sum.splits)
  have none: "cached_answer (restarted s3) key = None" by (simp add: cached_answer_def restarted_def)
  have "execute x' clk' uid' owner' token' call ctx' ec' (restarted s3) =
      (Inr (result_of_stored call ?st), remember_result key (result_of_stored call ?st) (restarted s3))"
    by (simp add: execute_keyed [OF assms(22,5,6)] none uncached_def get replay_def match)
  with again have y': "y' = Inr (result_of_stored call ?st)" and s4: "xs_env s4 = xs_env s3"
    by (auto simp: restarted_def)
  have "tr_ok (result_of_stored call ?st) = tr_ok r" "tr_error (result_of_stored call ?st) = tr_error r"
    "tr_value (result_of_stored call ?st) = asdict_val (if tr_ok r then tr_value r else VNone)"
    "\<not> tr_ambiguous (result_of_stored call ?st)"
    by (simp_all add: result_of_stored_def report_result_def report_of_call_def asdict_result_def)
  with y y' s4 rec(2,3,4,6) show ?thesis by (auto simp: s3)
qed


text \<open>
  A denied call keeps its claim. When the sandbox refuses a fresh call (permission, boundary),
  \<open>execute\<close> raises, but the claim it took on the intent is not given back: until it expires,
  the intent stays claimed and pending, although nothing ran, and every executor under a new owner,
  whatever it is permitted, is told that the intent is already claimed.
\<close>

theorem denied_call_keeps_claim:
  assumes "files_ok s" and "xe_has_results x" and "xe_has_intents x" and "tx_agent_id ctx \<noteq> []"
    and "tc_idempotency_key call = Some key" and "key \<noteq> []" and "owner \<noteq> []" and "token \<noteq> []"
    and "cached_answer s key = None" and "result_at (results_of s) key = None"
    and "intent_at (intents_of s) key = None"
    and adm: "(y1, s1) = admit x clk owner token key call ec s"
    and run: "(Inl e, s2) = execute_once x (\<lambda>i. clk (i + 2)) uid call ctx ec s1"
    and "isinst e [ToolPermissionError, ToolBoundaryError]"
    and quiet: "ve_files (xs_env s2) = ve_files (xs_env s1)"
    and fin: "(y, s3) = execute x clk uid owner token call ctx ec s"
    and "xe_has_intents x'" and "tx_agent_id ctx' \<noteq> []" and "owner' \<noteq> owner" and "owner' \<noteq> []" and "token' \<noteq> []"
    and "clk' 1 < clk 1 + seconds (xe_ttl x)"
  shows "y = Inl e
    \<and> (\<exists>i. intent_at (intents_of s3) key = Some i \<and> held_by owner token i \<and> ambiguous_state (ti_state i))
    \<and> execute x' clk' uid' owner' token' call ctx' ec' (restarted s3) =
        (Inr (tool_failure call (Exc RuntimeError ''intent is already claimed'') False False), restarted s3)"
proof -
  obtain f i where a: "admit x clk owner token key call ec s = (Inr (Go True), set_intents f s)"
    "ledger_ok f" "intent_at f key = Some i" "held_by owner token i" "ti_state i = ''executing''"
    "ti_expires i = Some (clk 1 + seconds (xe_ttl x))"
    by (rule admit_fresh [where clk = clk, OF assms(1,3,6,7,8,11)])
  have s1: "s1 = set_intents f s" using adm a(1) by simp
  have files2: "intents_of s2 = f" "results_of s2 = results_of s" using quiet by (simp_all add: s1)
  have ok2: "files_ok s2" using a(2) files_okD [OF assms(1)] quiet by (simp add: files_ok_def bworld_ok_def s1)
  have look: "look_stored x key s = Inr None" using look_stored_at [OF assms(1,2,6)] assms(10) by simp
  have "\<not> isinst e [CancelledError]"
    using assms(14) by (cases "exc_class e") (simp_all add: isinst_def)
  then have "execute x clk uid owner token call ctx ec s = (Inl e, s2)"
    by (simp add: execute_keyed [OF assms(4,5,6)] assms(9) uncached_def look a(1) run_admitted_def
        s1 [symmetric] run [symmetric] del: add_2_eq_Suc')
  with fin have y: "y = Inl e" and s3: "s3 = s2" by auto
  have amb: "ambiguous_state (ti_state i)" by (simp add: a(5) AMBIGUOUS_STATES_def)
  have "execute x' clk' uid' owner' token' call ctx' ec' (restarted s3) =
      (Inr (tool_failure call (Exc RuntimeError ''intent is already claimed'') False False), restarted s3)"
  proof (rule execute_busy [OF _ assms(17,18,5,6,20,21)])
    show "files_ok (restarted s3)" using ok2 by (simp add: files_ok_def restarted_def s3)
    show "cached_answer (restarted s3) key = None" by (simp add: cached_answer_def restarted_def)
    show "xe_has_results x' \<longrightarrow> result_at (results_of (restarted s3)) key = None"
      using assms(10) by (simp add: restarted_def s3 files2)
    show "intent_at (intents_of (restarted s3)) key = Some i" using a(3) by (simp add: restarted_def s3 files2)
    show "live_at (clk' 1) i" using a(6) assms(22) by (rule live_at_mono)
  qed (use a(4) amb assms(19) in auto)
  with y a(3,4) amb show ?thesis by (simp add: s3 files2)
qed


section \<open>A sample executor\<close>

definition pay_tool :: "nat tool_env tool_spec" where
  "pay_tool = \<lparr>ts_name = ''pay'', ts_handler = (\<lambda>_ e. (Value (VInt 7), e\<lparr>ve_world := Suc (ve_world e)\<rparr>)),
     ts_permissions = [''spend'']\<rparr>"

definition pay_executor :: "string list \<Rightarrow> nat executor" where
  "pay_executor perms =
     \<lparr>xe_sandbox = new_sandbox [(''pay'', pay_tool)] [(''a'', perms)], xe_bus = None,
      xe_has_results = True, xe_has_intents = True, xe_ttl = 60\<rparr>"

definition pay_state :: "(string \<times> intent) list \<Rightarrow> (string \<times> stored_result) list \<Rightarrow> nat xstate" where
  "pay_state is rs =
     \<lparr>xs_cache = [], xs_audit = \<lparr>ea_events = [], ea_log = None\<rparr>,
      xs_env = \<lparr>ve_files = \<lparr>bw_intents = Object is, bw_results = Object rs\<rparr>, ve_world = 0\<rparr>\<rparr>"

definition pay_ctx :: tool_context where
  "pay_ctx = \<lparr>tx_agent_id = ''a'', tx_permissions = [''spend'']\<rparr>"

lemma pay_simps [simp]:
  "xe_has_results (pay_executor p)" "xe_has_intents (pay_executor p)" "xe_ttl (pay_executor p) = 60"
  "tx_agent_id pay_ctx \<noteq> []" "tc_idempotency_key sample_call = Some ''k1''"
  "cached_answer (pay_state is rs) k = None" "results_of (pay_state is rs) = Object rs"
  "intents_of (pay_state is rs) = Object is" "ve_world (xs_env (pay_state is rs)) = 0"
  by (simp_all add: pay_executor_def pay_ctx_def sample_call_def pay_state_def cached_answer_def)

lemma pay_files_ok:
  "files_ok (pay_state [] [])" "files_ok (pay_state [(''k1'', sample_intent)] [])"
  "files_ok (pay_state [] [(''k1'', sample_result ''c1'' True)])"
  using sample_ledger_ok
  by (auto simp: files_ok_def bworld_ok_def pay_state_def ledger_ok_def results_ok_def sample_ledger_def
      sample_result_def split: if_splits)

theorem recorded_call_not_rerun_witness:
  "\<exists>y s'. execute (pay_executor [''spend'']) (\<lambda>n. int n) ''u'' ''w'' ''t'' sample_call pay_ctx None
       (pay_state [] [(''k1'', sample_result ''c1'' True)]) = (y, s')
     \<and> y = Inr (result_of_stored sample_call (sample_result ''c1'' True)) \<and> ve_world (xs_env s') = 0"
proof -
  let ?s = "pay_state [] [(''k1'', sample_result ''c1'' True)]"
  obtain y s' where ys: "(y, s') = execute (pay_executor [''spend'']) (\<lambda>n. int n) ''u'' ''w'' ''t'' sample_call pay_ctx None ?s"
    by (metis surj_pair)
  have m: "stored_matches_call (sample_result ''c1'' True) sample_call"
    by (simp add: stored_matches_call_def sample_result_def sample_call_def)
  from recorded_call_not_rerun [OF pay_files_ok(3) _ _ _ _ _ ys, of "''k1''" "sample_result ''c1'' True"]
  show ?thesis using ys [symmetric] by (auto simp: m)
qed

theorem claimed_call_not_run_witness:
  "execute (pay_executor [''spend'']) (\<lambda>_. 5) ''u'' ''w2'' ''t2'' sample_call pay_ctx None
     (pay_state [(''k1'', sample_intent)] []) =
   (Inr (tool_failure sample_call (Exc RuntimeError ''intent is already claimed'') False False),
    pay_state [(''k1'', sample_intent)] [])"
  by (rule claimed_call_not_run [OF pay_files_ok(2), where w = "''w1''" and t = "''t1''" and i = sample_intent and key = "''k1''"])
    (simp_all add: sample_intent_fields AMBIGUOUS_STATES_def live_at_def)

lemma pay_run:
  assumes "clean p = [''spend'']"
  shows "\<exists>a. execute_once (pay_executor p) clk uid sample_call pay_ctx ec s =
     (Inr (tool_success sample_call (VInt 7)),
      s\<lparr>xs_audit := a, xs_env := (xs_env s)\<lparr>ve_world := Suc (ve_world (xs_env s))\<rparr>\<rparr>)"
proof -
  have strip: "clean [''spend''] = [''spend'']" by code_simp
  obtain out audit env where se: "(out, audit, env) = sandbox_execute (xe_sandbox (pay_executor p)) clk (By_Call sample_call) pay_ctx []
      (xs_audit s, xs_env s)" by (metis surj_pair)
  have sb: "xe_sandbox (pay_executor p) = new_sandbox [(''pay'', pay_tool)] [(''a'', p)]"
    by (simp add: pay_executor_def)
  have "(out, env) = (Value (VInt 7), (xs_env s)\<lparr>ve_world := Suc (ve_world (xs_env s))\<rparr>)"
    using sandbox_verdict [OF sb se refl] assms
    by (simp add: sample_call_def pay_ctx_def pay_tool_def allowed_permissions_def sb new_sandbox_def dget_def)
  with se show ?thesis
    by (auto simp: execute_once_def pay_executor_def publish_opt_def Let_def split: prod.splits)
qed


lemma sample_call_json: "json_val (VDict (tc_arguments sample_call))" "wf_val (VDict (tc_arguments sample_call))"
  by (simp_all add: sample_call_def)

theorem outcome_survives_restart_witness:
  "\<exists>y s3 r'' s4.
     execute (pay_executor [''spend'']) (\<lambda>n. int n) ''u'' ''w'' ''t'' sample_call pay_ctx None (pay_state [] []) = (y, s3)
     \<and> ve_world (xs_env s3) = 1
     \<and> execute (pay_executor []) (\<lambda>n. 100) ''u2'' ''w2'' ''t2'' sample_call pay_ctx None (restarted s3) = (Inr r'', s4)
     \<and> tr_value r'' = VInt 7 \<and> ve_world (xs_env s4) = 1"
proof -
  let ?x = "pay_executor [''spend'']" and ?s = "pay_state [] []" and ?clk = "\<lambda>n. int n"
  have strip: "clean [''spend''] = [''spend'']" by code_simp
  obtain y1 s1 where adm: "(y1, s1) = admit ?x ?clk ''w'' ''t'' ''k1'' sample_call None ?s" by (metis surj_pair)
  obtain f i where go: "admit ?x ?clk ''w'' ''t'' ''k1'' sample_call None ?s = (Inr (Go True), set_intents f ?s)"
    by (rule admit_fresh [where x = ?x and clk = ?clk and s = ?s and key = "''k1''" and owner = "''w''"
        and token = "''t''" and call = sample_call and ec = None])
      (use pay_files_ok(1) in auto)
  then have w1: "ve_world (xs_env s1) = 0" using adm by simp
  obtain a where run: "execute_once ?x (\<lambda>i. ?clk (i + 2)) ''u'' sample_call pay_ctx None s1 =
     (Inr (tool_success sample_call (VInt 7)),
      s1\<lparr>xs_audit := a, xs_env := (xs_env s1)\<lparr>ve_world := Suc (ve_world (xs_env s1))\<rparr>\<rparr>)"
    using pay_run [OF strip] by blast
  obtain y s3 where fin: "(y, s3) = execute ?x ?clk ''u'' ''w'' ''t'' sample_call pay_ctx None ?s" by (metis surj_pair)
  obtain y' s4 where again: "(y', s4) = execute (pay_executor []) (\<lambda>n. 100) ''u2'' ''w2'' ''t2'' sample_call pay_ctx None (restarted s3)"
    by (metis surj_pair)
  have t: "tr_ok (tool_success sample_call (VInt 7))" "tr_value (tool_success sample_call (VInt 7)) = VInt 7"
    "\<not> tr_ambiguous (tool_success sample_call (VInt 7))" "\<not> tr_retryable (tool_success sample_call (VInt 7))"
    by (simp_all add: tool_success_def)
  note res = outcome_survives_restart [where key = "''k1''" and clk = ?clk and x' = "pay_executor []",
      OF pay_files_ok(1) _ _ _ _ _ _ _ _ _ _ sample_call_json adm run [symmetric] t(3,4) _ _ fin _ _ again]
  have w3: "ve_world (xs_env s3) = 1"
  proof -
    have "execute ?x ?clk ''u'' ''w'' ''t'' sample_call pay_ctx None ?s =
        run_admitted ?x ?clk ''u'' ''w'' ''t'' True ''k1'' sample_call pay_ctx None s1"
      using adm go look_stored_at [of ?s ?x "''k1''"] pay_files_ok(1)
      by (simp add: execute_keyed [where key = "''k1''"] uncached_def)
    then show ?thesis
      using fin run w1 t
      by (auto simp: run_admitted_def record_outcome_def simp del: add_2_eq_Suc' split: prod.splits sum.splits)
  qed
  from res show ?thesis
    using fin [symmetric] again [symmetric] w3 t by (auto simp: seconds_def)
qed

theorem denied_call_keeps_claim_witness:
  "\<exists>e s3. execute (pay_executor []) (\<lambda>n. int n) ''u'' ''w'' ''t'' sample_call pay_ctx None (pay_state [] []) = (Inl e, s3)
     \<and> execute (pay_executor [''spend'']) (\<lambda>n. 59000000) ''u2'' ''w2'' ''t2'' sample_call pay_ctx None (restarted s3) =
        (Inr (tool_failure sample_call (Exc RuntimeError ''intent is already claimed'') False False), restarted s3)"
proof -
  let ?x = "pay_executor []" and ?s = "pay_state [] []" and ?clk = "\<lambda>n. int n"
  obtain y1 s1 where adm: "(y1, s1) = admit ?x ?clk ''w'' ''t'' ''k1'' sample_call None ?s" by (metis surj_pair)
  obtain out audit env where se: "(out, audit, env) = sandbox_execute (xe_sandbox ?x) (\<lambda>i. ?clk (i + 2)) (By_Call sample_call)
      pay_ctx [] (xs_audit s1, xs_env s1)" by (metis surj_pair)
  have sb: "xe_sandbox ?x = new_sandbox [(''pay'', pay_tool)] [(''a'', [])]" by (simp add: pay_executor_def)
  have raised: "\<exists>m. out = Raised (Exc ToolPermissionError m) \<and> env = xs_env s1"
    using se by (simp add: sandbox_execute_def sb new_sandbox_def normalize_call_def registry_execute_def get_tool_def
        sample_call_def pay_ctx_def pay_tool_def granted_to_def allowed_permissions_def dget_def Let_def
        List.member_iff clean_def)
  then obtain e where e: "out = Raised e" "isinst e [ToolPermissionError, ToolBoundaryError]" "\<not> isinst e [TimeoutError]"
      "isinst e [CancelledError, ToolPermissionError, ToolBoundaryError]"
    by (auto simp: exc_simps List.member_iff)
  have run: "(Inl e, s1\<lparr>xs_audit := audit, xs_env := xs_env s1\<rparr>) =
      execute_once ?x (\<lambda>i. ?clk (i + 2)) ''u'' sample_call pay_ctx None s1"
    using se raised e by (auto simp: execute_once_def pay_executor_def publish_opt_def Let_def split: prod.split)
  obtain y s3 where fin: "(y, s3) = execute ?x ?clk ''u'' ''w'' ''t'' sample_call pay_ctx None ?s" by (metis surj_pair)
  show ?thesis
    using denied_call_keeps_claim [where key = "''k1''" and clk = ?clk and x' = "pay_executor [''spend'']"
        and clk' = "\<lambda>n. 59000000" and uid' = "''u2''" and owner' = "''w2''" and token' = "''t2''"
        and ctx' = pay_ctx and ec' = None,
        OF pay_files_ok(1) _ _ _ _ _ _ _ _ _ _ adm run e(2) _ fin] fin [symmetric]
    by (auto simp: seconds_def)
qed

end
