(* ===== verification/Reconciliation.thy ===== *)
theory Reconciliation
  imports Interfaces Execution_Store "HOL-Library.Char_ord" "HOL-Library.List_Lexorder"
begin

text \<open>
  \<^verbatim>\<open>runtime/reconciliation_journal.py\<close>: the durable record of what became of ambiguous tool
  intents, a JSON file written with sorted keys; and the recovery policy
  (\<^verbatim>\<open>runtime/recovery_policy.py\<close>) that decides from it. The file holds raw JSON, since the code
  validates the records it reads. (Keys are sorted at the top level; the order of keys inside a record
  is not modelled.)
\<close>

record recon =
  rr_key :: string
  rr_execution_id :: "string option"
  rr_status :: string
  rr_result :: pyval
  rr_updated :: pyval
  rr_version :: int

type_synonym recon_file = "pydict json_file"

definition SCHEMA_VERSION :: int where "SCHEMA_VERSION = 1"

definition asdict_recon :: "recon \<Rightarrow> pyval" where
  "asdict_recon r =
     VDict [(''intent_key'', VStr (rr_key r)), (''execution_id'', opt_str (rr_execution_id r)),
            (''status'', VStr (rr_status r)), (''result'', asdict_val (rr_result r)),
            (''updated_at'', rr_updated r), (''schema_version'', VInt (rr_version r))]"

definition read_recon :: "recon_file \<Rightarrow> pydict result" where
  "read_recon f =
     (case f of
        Missing \<Rightarrow> Inr []
      | Invalid_JSON \<Rightarrow> Inl (Exc JSONDecodeError ''invalid JSON'')
      | Not_Object \<Rightarrow> Inl (Exc AttributeError ''no attribute get'')
      | Object d \<Rightarrow> Inr d)"

definition write_recon :: "pydict \<Rightarrow> recon_file" where
  "write_recon d = Object (sort_key fst d)"

text \<open>\<^verbatim>\<open>_record\<close>\<close>

definition recon_fields :: "string list" where
  "recon_fields =
     [''intent_key'', ''execution_id'', ''status'', ''result'', ''updated_at'', ''schema_version'']"

definition schema_ok :: "pyval \<Rightarrow> unit result" where
  "schema_ok version =
     (case version of
        VInt n \<Rightarrow>
          (if n < 1 then Inl (Exc ValueError ''invalid journal schema version'')
           else if n > SCHEMA_VERSION then Inl (Exc ValueError ''unsupported journal schema version'')
           else Inr ())
      | _ \<Rightarrow> Inl (Exc ValueError ''invalid journal schema version''))"

definition construct_recon :: "pydict \<Rightarrow> recon result" where
  "construct_recon d =
     (if \<not> list_all (List.member recon_fields) (map fst d) then
        Inl (Exc TypeError ''ReconciliationRecord() arguments'')
      else case (as_str (dget d ''intent_key'' VNone), as_opt_str (dget d ''execution_id'' VNone),
                 as_str (dget d ''status'' VNone)) of
        (Some k, Some x, Some s) \<Rightarrow>
          Inr \<lparr>rr_key = k, rr_execution_id = x, rr_status = s, rr_result = dget d ''result'' VNone,
               rr_updated = dget d ''updated_at'' (VStr []), rr_version = SCHEMA_VERSION\<rparr>
      | _ \<Rightarrow> Inl (Exc TypeError ''ReconciliationRecord() field types''))"

definition recon_record :: "string \<Rightarrow> pyval \<Rightarrow> recon result" where
  "recon_record key raw =
     (case raw of
        VDict d \<Rightarrow>
          (if dget d ''intent_key'' VNone \<noteq> VStr key \<or> map_of d ''execution_id'' = None
              \<or> map_of d ''status'' = None then Inl (Exc ValueError ''invalid journal record'')
           else case schema_ok (dget d ''schema_version'' (VInt SCHEMA_VERSION)) of
             Inl e \<Rightarrow> Inl e
           | Inr _ \<Rightarrow> construct_recon d)
      | _ \<Rightarrow> Inl (Exc ValueError ''invalid journal record''))"

text \<open>\<^verbatim>\<open>if raw\<close>: the raw record of a key, unless it is absent or empty.\<close>

definition raw_of :: "pydict \<Rightarrow> string \<Rightarrow> pyval option" where
  "raw_of d key = (case map_of d key of None \<Rightarrow> None | Some raw \<Rightarrow> if truthy raw then Some raw else None)"

definition recon_get :: "string \<Rightarrow> recon_file \<Rightarrow> recon option result" where
  "recon_get key f =
     (case read_recon f of
        Inl e \<Rightarrow> Inl e
      | Inr d \<Rightarrow> (case raw_of d key of None \<Rightarrow> Inr None | Some raw \<Rightarrow> map_sum id Some (recon_record key raw)))"

definition recon_begin ::
    "string \<Rightarrow> string option \<Rightarrow> time \<Rightarrow> recon_file \<Rightarrow> recon result \<times> recon_file" where
  "recon_begin key execution_id now f =
     (case read_recon f of
        Inl e \<Rightarrow> (Inl e, f)
      | Inr d \<Rightarrow>
          (case raw_of d key of
             Some raw \<Rightarrow> (recon_record key raw, f)
           | None \<Rightarrow>
               (let r = \<lparr>rr_key = key, rr_execution_id = execution_id, rr_status = ''pending'',
                         rr_result = VNone, rr_updated = VStamp now, rr_version = SCHEMA_VERSION\<rparr>
                in (Inr r, write_recon (dset key (asdict_recon r) d)))))"

text \<open>\<^verbatim>\<open>raw.get("status") in {"completed","failed"}\<close>\<close>

definition raw_terminal :: "pyval \<Rightarrow> bool result" where
  "raw_terminal raw =
     (case raw of
        VDict d \<Rightarrow>
          (case dget d ''status'' VNone of
             VStr s \<Rightarrow> Inr (s = ''completed'' \<or> s = ''failed'')
           | VList _ \<Rightarrow> Inl (Exc TypeError ''unhashable type'')
           | VDict _ \<Rightarrow> Inl (Exc TypeError ''unhashable type'')
           | _ \<Rightarrow> Inr False)
      | _ \<Rightarrow> Inl (Exc AttributeError ''no attribute get''))"

text \<open>
  \<^verbatim>\<open>raw.get("execution_id")\<close>, which a record under any status carries over. (A value that is no
  string reads as absent in the typed record.)
\<close>

definition raw_execution_id :: "pyval option \<Rightarrow> string option" where
  "raw_execution_id raw =
     (case raw of Some (VDict d) \<Rightarrow>
        (case dget d ''execution_id'' VNone of VStr s \<Rightarrow> Some s | _ \<Rightarrow> None) | _ \<Rightarrow> None)"

definition recon_set ::
    "string \<Rightarrow> string \<Rightarrow> pyval \<Rightarrow> time \<Rightarrow> recon_file \<Rightarrow> recon result \<times> recon_file" where
  "recon_set key status res now f =
     (case read_recon f of
        Inl e \<Rightarrow> (Inl e, f)
      | Inr d \<Rightarrow>
          (let raw = raw_of d key in
           case (case raw of None \<Rightarrow> Inr False | Some r \<Rightarrow> raw_terminal r) of
             Inl e \<Rightarrow> (Inl e, f)
           | Inr True \<Rightarrow> (recon_record key (the raw), f)
           | Inr False \<Rightarrow>
               (let r = \<lparr>rr_key = key, rr_execution_id = raw_execution_id raw, rr_status = status,
                         rr_result = res, rr_updated = VStamp now, rr_version = SCHEMA_VERSION\<rparr>
                in (Inr r, write_recon (dset key (asdict_recon r) d)))))"

definition recon_complete :: "string \<Rightarrow> pyval \<Rightarrow> time \<Rightarrow> recon_file \<Rightarrow> recon result \<times> recon_file" where
  "recon_complete key res now f = recon_set key ''completed'' res now f"

definition recon_fail :: "string \<Rightarrow> pyval \<Rightarrow> time \<Rightarrow> recon_file \<Rightarrow> recon result \<times> recon_file" where
  "recon_fail key res now f = recon_set key ''failed'' res now f"

fun pending_records :: "pydict \<Rightarrow> recon list result" where
  "pending_records [] = Inr []"
| "pending_records ((k, raw) # d) =
     (case raw of
        VDict r \<Rightarrow>
          (if dget r ''status'' VNone = VStr ''pending'' then
             (case recon_record k raw of
                Inl e \<Rightarrow> Inl e
              | Inr x \<Rightarrow> map_sum id (Cons x) (pending_records d))
           else pending_records d)
      | _ \<Rightarrow> Inl (Exc AttributeError ''no attribute get''))"

definition recon_pending :: "recon_file \<Rightarrow> recon list result" where
  "recon_pending f = (case read_recon f of Inl e \<Rightarrow> Inl e | Inr d \<Rightarrow> pending_records d)"

text \<open>
  \<^verbatim>\<open>compact\<close>: terminal records whose time stamp is older than the cutoff go; a record without
  a readable time stamp stays.
\<close>

definition raw_expired :: "time \<Rightarrow> pyval \<Rightarrow> bool" where
  "raw_expired cutoff raw =
     (case raw of VDict d \<Rightarrow> (case dget d ''updated_at'' (VStr []) of VStamp t \<Rightarrow> t < cutoff | _ \<Rightarrow> False)
      | _ \<Rightarrow> False)"

fun compacted :: "time \<Rightarrow> pydict \<Rightarrow> pydict result" where
  "compacted cutoff [] = Inr []"
| "compacted cutoff ((k, raw) # d) =
     (case raw_terminal raw of
        Inl e \<Rightarrow> Inl e
      | Inr t \<Rightarrow> map_sum id (if t \<and> raw_expired cutoff raw then id else Cons (k, raw)) (compacted cutoff d))"

definition recon_compact :: "time \<Rightarrow> time \<Rightarrow> recon_file \<Rightarrow> nat result \<times> recon_file" where
  "recon_compact retention now f =
     (case read_recon f of
        Inl e \<Rightarrow> (Inl e, f)
      | Inr d \<Rightarrow>
          (case compacted (now - retention) d of
             Inl e \<Rightarrow> (Inl e, f)
           | Inr d' \<Rightarrow>
               (let removed = length d - length d'
                in (Inr removed, if removed > 0 then write_recon d' else f))))"

section \<open>The recovery policy\<close>

datatype recovery_action = RETRY | SKIP | QUARANTINE | MANUAL_REVIEW

fun action_value :: "recovery_action \<Rightarrow> string" where
  "action_value RETRY = ''retry''"
| "action_value SKIP = ''skip''"
| "action_value QUARANTINE = ''quarantine''"
| "action_value MANUAL_REVIEW = ''manual_review''"

record recovery_decision =
  rd_execution_id :: string
  rd_action :: recovery_action
  rd_reason :: string
  rd_attempt :: int

text \<open>\<^verbatim>\<open>reason or default\<close>\<close>

definition reason_or :: "string option \<Rightarrow> string \<Rightarrow> string" where
  "reason_or reason fallback = (if opt_list reason \<noteq> [] then opt_list reason else fallback)"

definition decide ::
    "int \<Rightarrow> string \<Rightarrow> string \<Rightarrow> int \<Rightarrow> bool \<Rightarrow> string option \<Rightarrow> recovery_decision" where
  "decide max_attempts x status attempt journal_corrupt reason =
     (if journal_corrupt then
        \<lparr>rd_execution_id = x, rd_action = QUARANTINE, rd_reason = reason_or reason ''corrupt commit journal'',
         rd_attempt = attempt\<rparr>
      else if status \<noteq> ''running'' \<and> status \<noteq> ''retrying'' then
        \<lparr>rd_execution_id = x, rd_action = SKIP,
         rd_reason = reason_or reason (''state '' @ status @ '' is not resumable''), rd_attempt = attempt\<rparr>
      else if attempt \<ge> max_attempts then
        \<lparr>rd_execution_id = x, rd_action = MANUAL_REVIEW,
         rd_reason = reason_or reason ''maximum recovery attempts reached'', rd_attempt = attempt\<rparr>
      else
        \<lparr>rd_execution_id = x, rd_action = RETRY, rd_reason = reason_or reason ''resumable execution'',
         rd_attempt = attempt\<rparr>)"

record evidence =
  ev_status :: string
  ev_reason :: string
  ev_result :: pyval

definition decide_evidence :: "recon option \<Rightarrow> evidence" where
  "decide_evidence record =
     (case record of
        None \<Rightarrow> \<lparr>ev_status = ''ambiguous'', ev_reason = ''no_durable_evidence'', ev_result = VNone\<rparr>
      | Some r \<Rightarrow>
          (if rr_status r \<noteq> ''completed'' \<and> rr_status r \<noteq> ''failed'' then
             \<lparr>ev_status = ''ambiguous'', ev_reason = ''terminal_evidence_missing'', ev_result = VNone\<rparr>
           else \<lparr>ev_status = rr_status r, ev_reason = ''durable_terminal_evidence'', ev_result = rr_result r\<rparr>))"

section \<open>Sound journals\<close>

text \<open>Every record was written by the journal, under its own key.\<close>

definition recon_entry :: "string \<times> pyval \<Rightarrow> bool" where
  "recon_entry p \<longleftrightarrow> (\<exists>r. snd p = asdict_recon r \<and> rr_key r = fst p \<and> rr_version r = SCHEMA_VERSION)"

definition recon_ok :: "recon_file \<Rightarrow> bool" where
  "recon_ok f \<longleftrightarrow> (case read_recon f of Inl _ \<Rightarrow> False
     | Inr d \<Rightarrow> distinct (map fst d) \<and> (\<forall>p \<in> set d. recon_entry p))"

text \<open>A record as it is read back.\<close>

definition norm_recon :: "recon \<Rightarrow> recon" where
  "norm_recon r = r\<lparr>rr_result := asdict_val (rr_result r), rr_version := SCHEMA_VERSION\<rparr>"

definition recon_at :: "recon_file \<Rightarrow> string \<Rightarrow> recon option" where
  "recon_at f key = (case recon_get key f of Inr r \<Rightarrow> r | Inl _ \<Rightarrow> None)"

lemma recon_record_asdict:
  "rr_key r = k \<Longrightarrow> rr_version r = SCHEMA_VERSION \<Longrightarrow> recon_record k (asdict_recon r) = Inr (norm_recon r)"
  by (simp add: recon_record_def asdict_recon_def construct_recon_def recon_fields_def dget_def schema_ok_def
      SCHEMA_VERSION_def norm_recon_def)

lemma raw_terminal_asdict:
  "raw_terminal (asdict_recon r) = Inr (rr_status r = ''completed'' \<or> rr_status r = ''failed'')"
  by (simp add: raw_terminal_def asdict_recon_def dget_def)

lemma raw_execution_id_asdict: "raw_execution_id (Some (asdict_recon r)) = rr_execution_id r"
  by (cases "rr_execution_id r") (simp_all add: raw_execution_id_def asdict_recon_def dget_def)

lemma truthy_asdict_recon [simp]: "truthy (asdict_recon r)"
  by (simp add: asdict_recon_def)

lemma distinct_keys_sorted: "distinct (map fst (sort_key fst d)) = distinct (map fst d)"
  by (simp add: distinct_map)

lemma map_of_sort_key:
  assumes "distinct (map fst (d :: ('k :: linorder \<times> 'v) list))"
  shows "map_of (sort_key fst d) = map_of d"
proof -
  have "distinct (map fst (sort_key fst d))"
    using assms by (simp add: distinct_keys_sorted)
  then show ?thesis using assms by (intro map_of_inject_set [THEN iffD2]) simp_all
qed

lemma recon_lookup:
  assumes "recon_ok f"
  obtains (Absent) d where "read_recon f = Inr d" "map_of d k = None" "recon_at f k = None" "recon_get k f = Inr None"
    | (Present) d r where "read_recon f = Inr d" "map_of d k = Some (asdict_recon r)" "rr_key r = k"
        "rr_version r = SCHEMA_VERSION" "recon_at f k = Some (norm_recon r)" "recon_get k f = Inr (Some (norm_recon r))"
proof -
  obtain d where d: "read_recon f = Inr d" "\<forall>p \<in> set d. recon_entry p"
    using assms by (auto simp: recon_ok_def split: sum.splits)
  show thesis
  proof (cases "map_of d k")
    case None
    then show thesis by (intro Absent [OF d(1)]) (simp_all add: recon_at_def recon_get_def d(1) raw_of_def)
  next
    case (Some raw)
    with d(2) have "recon_entry (k, raw)" by (auto dest: map_of_SomeD)
    then obtain r where "raw = asdict_recon r" "rr_key r = k" "rr_version r = SCHEMA_VERSION"
      by (auto simp: recon_entry_def)
    with Some show thesis
      by (intro Present [OF d(1)]) (simp_all add: recon_at_def recon_get_def d(1) raw_of_def recon_record_asdict)
  qed
qed

lemma read_write_recon: "read_recon (write_recon d) = Inr (sort_key fst d)"
  by (simp add: read_recon_def write_recon_def)

lemma recon_write:
  assumes "recon_ok f" and "read_recon f = Inr d" and "rr_key r = k" and "rr_version r = SCHEMA_VERSION"
  shows "recon_ok (write_recon (dset k (asdict_recon r) d))"
    and "recon_at (write_recon (dset k (asdict_recon r) d)) k' = (if k' = k then Some (norm_recon r) else recon_at f k')"
proof -
  let ?d = "dset k (asdict_recon r) d"
  have d: "distinct (map fst d)" "\<forall>p \<in> set d. recon_entry p" using assms(1,2) by (auto simp: recon_ok_def)
  have d': "distinct (map fst ?d)" by (rule distinct_dset [OF d(1)])
  have "recon_entry (k, asdict_recon r)" using assms(3,4) by (auto simp: recon_entry_def)
  then have all: "\<forall>p \<in> set ?d. recon_entry p" by (rule dset_all [OF d(2)])
  have sorted: "distinct (map fst (sort_key fst ?d))"
    using d' by (simp only: distinct_keys_sorted)
  then show "recon_ok (write_recon ?d)" using all
    unfolding recon_ok_def read_write_recon by (simp only: sum.case set_sort)
  show "recon_at (write_recon ?d) k' = (if k' = k then Some (norm_recon r) else recon_at f k')"
    unfolding recon_at_def recon_get_def read_write_recon raw_of_def sum.case map_of_sort_key [OF d'] assms(2)
    using assms(3,4) by (simp add: recon_record_asdict)
qed


section \<open>Terminal records are write-once\<close>

definition is_terminal :: "recon \<Rightarrow> bool" where
  "is_terminal r \<longleftrightarrow> rr_status r = ''completed'' \<or> rr_status r = ''failed''"

lemma is_terminal_norm [simp]: "is_terminal (norm_recon r) = is_terminal r"
  by (simp add: is_terminal_def norm_recon_def)

lemma recon_set_spec:
  assumes "recon_ok f"
  shows "case recon_at f k of
      Some r \<Rightarrow> if is_terminal r then recon_set k st v now f = (Inr r, f)
        else \<exists>r' f'. recon_set k st v now f = (Inr r', f') \<and> recon_ok f' \<and> rr_status r' = st \<and> rr_result r' = v
          \<and> rr_execution_id r' = rr_execution_id r \<and> (\<forall>k'. recon_at f' k' = (if k' = k then Some (norm_recon r') else recon_at f k'))
    | None \<Rightarrow> \<exists>r' f'. recon_set k st v now f = (Inr r', f') \<and> recon_ok f' \<and> rr_status r' = st \<and> rr_result r' = v
          \<and> rr_execution_id r' = None \<and> (\<forall>k'. recon_at f' k' = (if k' = k then Some (norm_recon r') else recon_at f k'))"
proof (cases rule: recon_lookup [OF assms, of k, case_names Absent Present])
  case (Absent d)
  let ?r = "\<lparr>rr_key = k, rr_execution_id = None, rr_status = st, rr_result = v, rr_updated = VStamp now,
    rr_version = SCHEMA_VERSION\<rparr>"
  have "recon_set k st v now f = (Inr ?r, write_recon (dset k (asdict_recon ?r) d))"
    by (simp add: recon_set_def Absent(1,2) raw_of_def raw_execution_id_def Let_def)
  with recon_write [OF assms Absent(1), of ?r k] Absent(3) show ?thesis by simp
next
  case (Present d r)
  have norm: "rr_status (norm_recon r) = rr_status r" "rr_execution_id (norm_recon r) = rr_execution_id r"
    by (simp_all add: norm_recon_def)
  show ?thesis
  proof (cases "is_terminal r")
    case True
    then have "recon_set k st v now f = (Inr (norm_recon r), f)"
      using Present(1-4)
      by (simp add: recon_set_def raw_of_def raw_terminal_asdict is_terminal_def recon_record_asdict Let_def)
    with True Present(5) show ?thesis by simp
  next
    case False
    let ?r = "\<lparr>rr_key = k, rr_execution_id = rr_execution_id r, rr_status = st, rr_result = v,
      rr_updated = VStamp now, rr_version = SCHEMA_VERSION\<rparr>"
    have "recon_set k st v now f = (Inr ?r, write_recon (dset k (asdict_recon ?r) d))"
      using False Present(1,2)
      by (simp add: recon_set_def raw_of_def raw_terminal_asdict is_terminal_def raw_execution_id_asdict Let_def)
    with False recon_write [OF assms Present(1), of ?r k] Present(5) norm show ?thesis by simp
  qed
qed

lemma recon_begin_spec:
  assumes "recon_ok f"
  shows "case recon_at f k of
      Some r \<Rightarrow> recon_begin k x now f = (Inr r, f)
    | None \<Rightarrow> \<exists>r f'. recon_begin k x now f = (Inr r, f') \<and> recon_ok f' \<and> rr_status r = ''pending''
          \<and> rr_execution_id r = x \<and> (\<forall>k'. recon_at f' k' = (if k' = k then Some r else recon_at f k'))"
proof (cases rule: recon_lookup [OF assms, of k, case_names Absent Present])
  case (Absent d)
  let ?r = "\<lparr>rr_key = k, rr_execution_id = x, rr_status = ''pending'', rr_result = VNone, rr_updated = VStamp now,
    rr_version = SCHEMA_VERSION\<rparr>"
  have "norm_recon ?r = ?r" by (simp add: norm_recon_def)
  moreover have "recon_begin k x now f = (Inr ?r, write_recon (dset k (asdict_recon ?r) d))"
    by (simp add: recon_begin_def Absent(1,2) raw_of_def Let_def)
  ultimately show ?thesis using recon_write [OF assms Absent(1), of ?r k] Absent(3) by simp
next
  case (Present d r)
  then show ?thesis by (simp add: recon_begin_def raw_of_def recon_record_asdict)
qed

text \<open>The outcomes a journal holds, and putting one.\<close>

definition outcome_at :: "recon_file \<Rightarrow> string \<Rightarrow> (string \<times> pyval) option" where
  "outcome_at f k =
     (case recon_at f k of Some r \<Rightarrow> if is_terminal r then Some (rr_status r, rr_result r) else None | None \<Rightarrow> None)"

definition outcome_put :: "time \<Rightarrow> recon_file \<Rightarrow> string \<times> string \<times> pyval \<Rightarrow> recon_file" where
  "outcome_put now f p = snd (recon_set (fst p) (fst (snd p)) (snd (snd p)) now f)"

definition outcome_fits :: "string \<Rightarrow> string \<times> pyval \<Rightarrow> bool" where
  "outcome_fits k p \<longleftrightarrow> (fst p = ''completed'' \<or> fst p = ''failed'') \<and> json_val (snd p)"

interpretation outcomes: write_once outcome_at "outcome_put now" recon_ok outcome_fits for now
proof unfold_locales
  fix f k p
  assume f: "recon_ok f" and p: "outcome_fits k p"
  obtain st v where sv: "p = (st, v)" by (cases p)
  with p have fits: "st = ''completed'' \<or> st = ''failed''" "asdict_val v = v"
    by (auto simp: outcome_fits_def asdict_json)
  note spec = recon_set_spec [OF f, of k st v now]
  show "recon_ok (outcome_put now f (k, p))"
    using spec f by (auto simp: outcome_put_def sv split: option.splits if_splits)
  have norm: "rr_status (norm_recon r) = rr_status r" "rr_result (norm_recon r) = asdict_val (rr_result r)" for r
    by (simp_all add: norm_recon_def)
  fix k'
  show "outcome_at (outcome_put now f (k, p)) k' =
      (if k' = k then Some (case outcome_at f k of None \<Rightarrow> p | Some w \<Rightarrow> w) else outcome_at f k')"
  proof (cases "recon_at f k")
    case None
    with spec fits show ?thesis
      by (auto simp: outcome_put_def outcome_at_def sv norm is_terminal_def)
  next
    case (Some r)
    show ?thesis
    proof (cases "is_terminal r")
      case True
      with spec Some show ?thesis by (auto simp: outcome_put_def outcome_at_def sv)
    next
      case False
      with spec Some fits show ?thesis
        by (auto simp: outcome_put_def outcome_at_def sv norm is_terminal_def)
    qed
  qed
qed


section \<open>Compaction\<close>

definition collectable :: "time \<Rightarrow> recon \<Rightarrow> bool" where
  "collectable cutoff r \<longleftrightarrow> is_terminal r \<and> (\<exists>t. rr_updated r = VStamp t \<and> t < cutoff)"

lemma raw_expired_asdict: "raw_expired cutoff (asdict_recon r) \<longleftrightarrow> (\<exists>t. rr_updated r = VStamp t \<and> t < cutoff)"
  by (cases "rr_updated r") (simp_all add: raw_expired_def asdict_recon_def dget_def)

definition drop_raw :: "time \<Rightarrow> pyval \<Rightarrow> bool" where
  "drop_raw cutoff raw \<longleftrightarrow> raw_terminal raw = Inr True \<and> raw_expired cutoff raw"

lemma drop_raw_asdict [simp]: "drop_raw cutoff (asdict_recon r) = collectable cutoff r"
  by (auto simp: drop_raw_def collectable_def raw_terminal_asdict raw_expired_asdict is_terminal_def)

lemma compacted_entries:
  "\<forall>p \<in> set d. recon_entry p \<Longrightarrow> compacted cutoff d = Inr (filter (\<lambda>p. \<not> drop_raw cutoff (snd p)) d)"
proof (induction d)
  case Nil
  then show ?case by simp
next
  case (Cons p d)
  obtain k raw where p: "p = (k, raw)" by (cases p)
  with Cons.prems obtain r where r: "raw = asdict_recon r" by (auto simp: recon_entry_def)
  have "raw_terminal raw = Inr (is_terminal r)" by (simp add: r raw_terminal_asdict is_terminal_def)
  moreover have "drop_raw cutoff raw = (is_terminal r \<and> raw_expired cutoff raw)"
    by (auto simp: drop_raw_def calculation)
  ultimately show ?case using Cons by (simp add: p)
qed

lemma map_of_filter_keys:
  assumes "distinct (map fst d)"
  shows "map_of (filter (\<lambda>p. P (snd p)) d) k =
    (case map_of d k of None \<Rightarrow> None | Some v \<Rightarrow> if P v then Some v else None)"
  using assms by (induction d) (auto simp: map_of_eq_None_iff image_iff split: option.splits)

text \<open>
  Compaction is safe and complete. On a sound journal \<^verbatim>\<open>compact\<close> never raises and leaves a
  sound journal. It removes exactly the completed and failed records stamped before the cutoff:
  a pending record is never removed, whatever its age, and every other record reads as before.
\<close>

theorem compact_exact:
  assumes "recon_ok f" and "(y, f') = recon_compact retention now f"
  shows "(\<exists>n. y = Inr n) \<and> recon_ok f'
    \<and> (\<forall>k. recon_at f' k = (case recon_at f k of None \<Rightarrow> None
         | Some r \<Rightarrow> if collectable (now - retention) r then None else Some r))"
proof -
  let ?c = "now - retention"
  obtain d where d: "read_recon f = Inr d" "distinct (map fst d)" "\<forall>p \<in> set d. recon_entry p"
    using assms(1) by (auto simp: recon_ok_def split: sum.splits)
  let ?d = "filter (\<lambda>p. \<not> drop_raw ?c (snd p)) d"
  have comp: "compacted ?c d = Inr ?d" by (rule compacted_entries [OF d(3)])
  have dist: "distinct (map fst ?d)" using d(2) by (simp add: distinct_map_filter)
  have "map_of (sort_key fst ?d) = map_of ?d" by (rule map_of_sort_key [OF dist])
  moreover have "?d = d" if "\<not> length d - length ?d > 0"
  proof -
    have "length ?d = length d" using that length_filter_le [of "\<lambda>p. \<not> drop_raw ?c (snd p)" d] by linarith
    then show ?thesis by (metis filter_id_conv length_filter_less less_irrefl)
  qed
  ultimately obtain g where g: "read_recon f' = Inr g" "map_of g = map_of ?d" "distinct (map fst g)"
      "\<forall>p \<in> set g. recon_entry p" and y: "\<exists>n. y = Inr n"
  proof (cases "length d - length ?d > 0")
    case True
    have ok: "distinct (map fst (sort_key fst ?d))" using dist by (simp only: distinct_keys_sorted)
    have "f' = write_recon ?d" and y: "\<exists>n. y = Inr n" using assms(2) d(1) comp True by (simp_all add: recon_compact_def)
    then have "read_recon f' = Inr (sort_key fst ?d)" by (simp only: read_write_recon)
    with that [of "sort_key fst ?d"] ok y map_of_sort_key [OF dist] d(3) show thesis by (simp only: set_sort set_filter) blast
  next
    case False
    then have "f' = f" and y: "\<exists>n. y = Inr n" using assms(2) d(1) comp by (simp_all add: recon_compact_def)
    moreover have "?d = d"
    proof -
      have "length ?d = length d" using False length_filter_le [of "\<lambda>p. \<not> drop_raw ?c (snd p)" d] by linarith
      then show ?thesis by (metis filter_id_conv length_filter_less less_irrefl)
    qed
    ultimately show thesis using that [of d] d y by simp
  qed
  have ok: "recon_ok f'" using g by (simp add: recon_ok_def)
  have mf: "map_of ?d k = (case map_of d k of None \<Rightarrow> None | Some v \<Rightarrow> if \<not> drop_raw ?c v then Some v else None)" for k
    by (rule map_of_filter_keys [where P = "\<lambda>v. \<not> drop_raw ?c v", OF d(2)])
  have "recon_at f' k = (case recon_at f k of None \<Rightarrow> None | Some r \<Rightarrow> if collectable ?c r then None else Some r)" for k
  proof (cases "map_of d k")
    case None
    then show ?thesis
      using g(1,2) d(1,2) by (simp add: recon_at_def recon_get_def raw_of_def mf)
  next
    case (Some raw)
    with d(3) have "recon_entry (k, raw)" by (auto dest: map_of_SomeD)
    then obtain r where r: "raw = asdict_recon r" "rr_key r = k" "rr_version r = SCHEMA_VERSION"
      by (auto simp: recon_entry_def)
    have "collectable ?c (norm_recon r) = collectable ?c r"
      by (simp add: collectable_def norm_recon_def is_terminal_def)
    then show ?thesis
      using Some r g(1,2) d(1,2)
      by (simp add: recon_at_def recon_get_def raw_of_def mf recon_record_asdict)
  qed
  with y ok show ?thesis by blast
qed

definition old_recon :: "string \<Rightarrow> string \<Rightarrow> recon" where
  "old_recon k st = \<lparr>rr_key = k, rr_execution_id = None, rr_status = st, rr_result = VNone,
     rr_updated = VStamp 5, rr_version = SCHEMA_VERSION\<rparr>"

theorem compact_exact_witness:
  "\<exists>y f'. (y, f') = recon_compact 10 100 (Object [(''a'', asdict_recon (old_recon ''a'' ''failed'')),
       (''b'', asdict_recon (old_recon ''b'' ''pending''))])
     \<and> recon_at f' ''a'' = None \<and> recon_at f' ''b'' = Some (old_recon ''b'' ''pending'')"
proof -
  let ?f = "Object [(''a'', asdict_recon (old_recon ''a'' ''failed'')), (''b'', asdict_recon (old_recon ''b'' ''pending''))]"
  have ok: "recon_ok ?f" by (auto simp: recon_ok_def read_recon_def recon_entry_def old_recon_def)
  obtain y f' where yf: "(y, f') = recon_compact 10 100 ?f" by (metis surj_pair)
  have "recon_record ''a'' (asdict_recon (old_recon ''a'' ''failed'')) = Inr (old_recon ''a'' ''failed'')"
    "recon_record ''b'' (asdict_recon (old_recon ''b'' ''pending'')) = Inr (old_recon ''b'' ''pending'')"
    by (simp_all add: recon_record_asdict old_recon_def norm_recon_def)
  then have "recon_at ?f ''a'' = Some (old_recon ''a'' ''failed'')" "recon_at ?f ''b'' = Some (old_recon ''b'' ''pending'')"
    by (simp_all add: recon_at_def recon_get_def read_recon_def raw_of_def)
  moreover have "collectable 90 (old_recon ''a'' ''failed'')" "\<not> collectable 90 (old_recon ''b'' ''pending'')"
    by (simp_all add: collectable_def is_terminal_def old_recon_def)
  moreover have "(100 :: time) - 10 = 90" by simp
  moreover note conjunct2 [OF conjunct2 [OF compact_exact [OF ok yf]]]
  ultimately have "recon_at f' ''a'' = None \<and> recon_at f' ''b'' = Some (old_recon ''b'' ''pending'')" by simp
  with yf show ?thesis by blast
qed

end
