(* ===== verification/Intent_Worker.thy ===== *)
theory Intent_Worker
  imports Intent_Store Reconciliation Lease
begin

text \<open>
  \<^verbatim>\<open>runtime/intent_recovery_worker.py\<close>: recovery of ambiguous tool intents under an
  execution lease, a claim and the reconciliation journal. The resolver is a parameter that may do
  anything to the whole world while it runs. \<open>clk i\<close> is the instant of the \<open>i\<close>-th
  locked section.
\<close>

record 'w rworld =
  rw_intents :: intent_file
  rw_leases :: lease_file
  rw_journal :: recon_file
  rw_world :: 'w

record worker =
  wk_owner :: string
  wk_has_journal :: bool
  wk_lease_ttl :: int
  wk_claim_ttl :: int

record recovery_result =
  rc_key :: string
  rc_status :: string
  rc_reason :: "string option"

type_synonym 'w resolver = "intent \<Rightarrow> 'w rworld \<Rightarrow> (string \<times> pyval) result \<times> 'w rworld"

definition outcome_of :: "intent \<Rightarrow> string \<Rightarrow> string option \<Rightarrow> recovery_result" where
  "outcome_of i status reason = \<lparr>rc_key = ti_key i, rc_status = status, rc_reason = reason\<rparr>"

text \<open>\<^verbatim>\<open>lease_key = intent.execution_id or intent.idempotency_key\<close>\<close>

definition lease_key :: "intent \<Rightarrow> string" where
  "lease_key i = (if opt_list (ti_execution_id i) \<noteq> [] then opt_list (ti_execution_id i) else ti_key i)"

definition still_owner :: "worker \<Rightarrow> intent \<Rightarrow> lease \<Rightarrow> time \<Rightarrow> 'w rworld \<Rightarrow> bool result" where
  "still_owner wk i l now w =
     is_owner_unlocked (lease_key i) (wk_owner wk) (Some (ls_fencing_token l)) now (rw_leases w)"

text \<open>Finalize the intent from terminal evidence, if the lease is still held under its lock.\<close>

definition finalize_if_owner ::
    "worker \<Rightarrow> intent \<Rightarrow> lease \<Rightarrow> string \<Rightarrow> time \<Rightarrow> 'w rworld \<Rightarrow> intent option result \<times> 'w rworld" where
  "finalize_if_owner wk i l status now w =
     (case still_owner wk i l now w of
        Inl e \<Rightarrow> (Inl e, w)
      | Inr False \<Rightarrow> (Inr None, w)
      | Inr True \<Rightarrow>
          (let (r, f) = finalize_from_journal (ti_key i) status (rw_intents w) in (r, w\<lparr>rw_intents := f\<rparr>)))"

definition terminal_evidence :: "recon option \<Rightarrow> string option" where
  "terminal_evidence record =
     (let s = ev_status (decide_evidence record) in if s = ''completed'' \<or> s = ''failed'' then Some s else None)"

text \<open>The last part: journal the resolver's outcome, then finish the claimed intent.\<close>

definition settle ::
    "worker \<Rightarrow> (nat \<Rightarrow> time) \<Rightarrow> intent \<Rightarrow> lease \<Rightarrow> string \<Rightarrow> string \<Rightarrow> pyval \<Rightarrow> 'w rworld \<Rightarrow>
     recovery_result result \<times> 'w rworld" where
  "settle wk clk i l token status v w =
     (case still_owner wk i l (clk 6) w of
        Inl e \<Rightarrow> (Inl e, w)
      | Inr False \<Rightarrow>
          (let (r, f) = release_claim (ti_key i) (wk_owner wk) token ''ambiguous'' (rw_intents w)
           in (map_sum id (\<lambda>_. outcome_of i ''skipped_by_lease'' None) r, w\<lparr>rw_intents := f\<rparr>))
      | Inr True \<Rightarrow>
          (case (if wk_has_journal wk then
                   (let (r, f) = (if status = ''completed'' then recon_complete (ti_key i) v (clk 7) (rw_journal w)
                                  else recon_fail (ti_key i) v (clk 7) (rw_journal w))
                    in (map_sum id (\<lambda>_. ()) r, w\<lparr>rw_journal := f\<rparr>))
                 else (Inr (), w)) of
             (Inl e, w1) \<Rightarrow> (Inl e, w1)
           | (Inr _, w1) \<Rightarrow>
               (let (r, f) = mark_claimed (ti_key i) (wk_owner wk) token status (clk 8) (rw_intents w1)
                in (map_sum id (\<lambda>m. outcome_of i (if m = None then ''stale_claim'' else status) None) r,
                    w1\<lparr>rw_intents := f\<rparr>))))"

definition resolve_claimed ::
    "worker \<Rightarrow> (nat \<Rightarrow> time) \<Rightarrow> 'w resolver \<Rightarrow> intent \<Rightarrow> lease \<Rightarrow> string \<Rightarrow> intent \<Rightarrow> 'w rworld \<Rightarrow>
     recovery_result result \<times> 'w rworld" where
  "resolve_claimed wk clk resolver i l token claimed_intent w =
     (case resolver claimed_intent w of
        (Inl e, w1) \<Rightarrow> (Inl e, w1)
      | (Inr (status, v), w1) \<Rightarrow>
          (if status \<noteq> ''completed'' \<and> status \<noteq> ''failed'' then
             (case (if wk_has_journal wk then
                      (let (r, f) = recon_begin (ti_key i) (ti_execution_id i) (clk 5) (rw_journal w1)
                       in (map_sum id (\<lambda>_. ()) r, w1\<lparr>rw_journal := f\<rparr>))
                    else (Inr (), w1)) of
                (Inl e, w2) \<Rightarrow> (Inl e, w2)
              | (Inr _, w2) \<Rightarrow>
                  (let (r, f) = release_claim (ti_key i) (wk_owner wk) token ''ambiguous'' (rw_intents w2)
                   in (map_sum id (\<lambda>_. outcome_of i ''ambiguous'' (Some ''resolver returned unknown state'')) r,
                       w2\<lparr>rw_intents := f\<rparr>)))
           else settle wk clk i l token status v w1))"

definition claim_and_resolve ::
    "worker \<Rightarrow> (nat \<Rightarrow> time) \<Rightarrow> 'w resolver \<Rightarrow> intent \<Rightarrow> lease \<Rightarrow> string \<Rightarrow> 'w rworld \<Rightarrow>
     recovery_result result \<times> 'w rworld" where
  "claim_and_resolve wk clk resolver i l token w =
     (case claim (wk_claim_ttl wk) (ti_key i) (wk_owner wk) token (clk 2) (rw_intents w) of
        (Inl e, f) \<Rightarrow> (Inl e, w\<lparr>rw_intents := f\<rparr>)
      | (Inr None, f) \<Rightarrow> (Inr (outcome_of i ''skipped_by_claim'' None), w\<lparr>rw_intents := f\<rparr>)
      | (Inr (Some c), f) \<Rightarrow>
          (let w1 = w\<lparr>rw_intents := f\<rparr> in
           if \<not> wk_has_journal wk then resolve_claimed wk clk resolver i l token c w1
           else case recon_begin (ti_key i) (ti_execution_id i) (clk 3) (rw_journal w1) of
             (Inl e, j) \<Rightarrow> (Inl e, w1\<lparr>rw_journal := j\<rparr>)
           | (Inr record, j) \<Rightarrow>
               (let w2 = w1\<lparr>rw_journal := j\<rparr> in
                case terminal_evidence (Some record) of
                  Some status \<Rightarrow>
                    (let (r, w3) = finalize_if_owner wk i l status (clk 4) w2
                     in (map_sum id (\<lambda>_. outcome_of i status (Some ''journal_replay'')) r, w3))
                | None \<Rightarrow> resolve_claimed wk clk resolver i l token c w2)))"

text \<open>The body of the \<^verbatim>\<open>try\<close>: a terminal journal record decides before anything is claimed.\<close>

definition recover_leased ::
    "worker \<Rightarrow> (nat \<Rightarrow> time) \<Rightarrow> 'w resolver \<Rightarrow> intent \<Rightarrow> lease \<Rightarrow> string \<Rightarrow> 'w rworld \<Rightarrow>
     recovery_result result \<times> 'w rworld" where
  "recover_leased wk clk resolver i l token w =
     (if \<not> wk_has_journal wk then claim_and_resolve wk clk resolver i l token w
      else case recon_get (ti_key i) (rw_journal w) of
        Inl e \<Rightarrow> (Inl e, w)
      | Inr record \<Rightarrow>
          (case terminal_evidence record of
             None \<Rightarrow> claim_and_resolve wk clk resolver i l token w
           | Some status \<Rightarrow>
               (case finalize_if_owner wk i l status (clk 1) w of
                  (Inl e, w1) \<Rightarrow> (Inl e, w1)
                | (Inr (Some _), w1) \<Rightarrow> (Inr (outcome_of i status (Some ''journal_replay'')), w1)
                | (Inr None, w1) \<Rightarrow> claim_and_resolve wk clk resolver i l token w1)))"

definition claim_token_of :: "worker \<Rightarrow> lease \<Rightarrow> string \<Rightarrow> string" where
  "claim_token_of wk l uid =
     ''recovery:'' @ wk_owner wk @ '':'' @ str_int (ls_fencing_token l) @ '':'' @ uid"

definition recover_one ::
    "worker \<Rightarrow> (nat \<Rightarrow> time) \<Rightarrow> string \<Rightarrow> 'w resolver \<Rightarrow> intent \<Rightarrow> 'w rworld \<Rightarrow> recovery_result result \<times> 'w rworld" where
  "recover_one wk clk uid resolver i w =
     (case acquire (wk_lease_ttl wk) (lease_key i) (wk_owner wk) (clk 0) (rw_leases w) of
        (Inl e, f) \<Rightarrow> (Inl e, w\<lparr>rw_leases := f\<rparr>)
      | (Inr None, f) \<Rightarrow> (Inr (outcome_of i ''skipped_by_lease'' None), w\<lparr>rw_leases := f\<rparr>)
      | (Inr (Some l), f) \<Rightarrow>
          (let (r, w1) = recover_leased wk clk resolver i l (claim_token_of wk l uid) (w\<lparr>rw_leases := f\<rparr>);
               (rel, f1) = release (lease_key i) (wk_owner wk) (Some (ls_fencing_token l)) (clk 9) (rw_leases w1)
           in ((case rel of Inl e \<Rightarrow> Inl e | Inr _ \<Rightarrow> r), w1\<lparr>rw_leases := f1\<rparr>)))"

text \<open>\<open>clks n\<close> and \<open>uids n\<close> are the clock and the fresh identity of the \<open>n\<close>-th intent.\<close>

fun recover_list ::
    "worker \<Rightarrow> (nat \<Rightarrow> nat \<Rightarrow> time) \<Rightarrow> (nat \<Rightarrow> string) \<Rightarrow> 'w resolver \<Rightarrow> nat \<Rightarrow> intent list \<Rightarrow> 'w rworld \<Rightarrow>
     recovery_result list result \<times> 'w rworld" where
  "recover_list wk clks uids resolver n [] w = (Inr [], w)"
| "recover_list wk clks uids resolver n (i # is) w =
     (case recover_one wk (clks n) (uids n) resolver i w of
        (Inl e, w1) \<Rightarrow> (Inl e, w1)
      | (Inr r, w1) \<Rightarrow>
          (let (rs, w2) = recover_list wk clks uids resolver (Suc n) is w1 in (map_sum id (Cons r) rs, w2)))"

definition recover_all ::
    "worker \<Rightarrow> (nat \<Rightarrow> nat \<Rightarrow> time) \<Rightarrow> (nat \<Rightarrow> string) \<Rightarrow> 'w resolver \<Rightarrow> 'w rworld \<Rightarrow>
     recovery_result list result \<times> 'w rworld" where
  "recover_all wk clks uids resolver w =
     (case pending_intents (rw_intents w) of
        Inl e \<Rightarrow> (Inl e, w)
      | Inr is \<Rightarrow> recover_list wk clks uids resolver 0 is w)"


section \<open>The lease around a recovery\<close>

lemma acquire_lookup:
  assumes "lease_inv f" and "x \<noteq> []" and "owner \<noteq> []"
    and "\<forall>l. lease_of f x = Some l \<longrightarrow> ls_expires_at l \<le> now \<or> ls_owner_id l = owner"
  obtains l f' where "acquire ttl x owner now f = (Inr (Some l), f')" "lease_of f' x = Some l"
    "ls_owner_id l = owner" "ls_expires_at l = now + seconds ttl" "lease_inv f'"
  using acquire_free [OF assms] acquire_granted [OF assms(1)] by metis

lemma still_owner_granted:
  assumes "lease_of (rw_leases w) (lease_key i) = Some l" and "ls_owner_id l = wk_owner wk"
    and "lease_inv (rw_leases w)" and "now < ls_expires_at l"
  shows "still_owner wk i l now w = Inr True"
  using assms lease_inv_Object [OF assms(3)]
  by (auto simp: still_owner_def is_owner_unlocked_def read_leases_def token_matches_def lease_of_def)

lemma release_granted:
  assumes "lease_of f x = Some l" and "ls_owner_id l = owner" and "lease_inv f"
  obtains f' where "release x owner (Some (ls_fencing_token l)) now f = (Inr True, f')"
  using assms lease_inv_Object [OF assms(3)]
  by (auto simp: release_def read_leases_def token_matches_def lease_of_def)

text \<open>
  C32. A durable record decides. When the reconciliation journal holds a terminal record for an
  intent that is still ambiguous, whoever holds a claim on it, a recovery that gets the lease
  finishes the intent in the recorded status and reports the replay. The resolver is not run, the
  journal is not written, and the lease is given back.
\<close>

theorem journal_record_decides:
  assumes "recon_ok (rw_journal w)" and "recon_at (rw_journal w) (ti_key i) = Some r" and "is_terminal r"
    and "ledger_ok (rw_intents w)" and "intent_at (rw_intents w) (ti_key i) = Some j" and "ambiguous_state (ti_state j)"
    and "lease_inv (rw_leases w)" and "lease_key i \<noteq> []" and "wk_owner wk \<noteq> []" and "wk_has_journal wk"
    and "\<forall>l. lease_of (rw_leases w) (lease_key i) = Some l \<longrightarrow> ls_expires_at l \<le> clk 0 \<or> ls_owner_id l = wk_owner wk"
    and "clk 1 < clk 0 + seconds (wk_lease_ttl wk)"
    and "(y, w') = recover_one wk clk uid resolver i w"
  shows "y = Inr (outcome_of i (rr_status r) (Some ''journal_replay''))
    \<and> intent_at (rw_intents w') (ti_key i) = Some (unclaimed (rr_status r) j)
    \<and> rw_journal w' = rw_journal w \<and> rw_world w' = rw_world w
    \<and> (\<exists>l. lease_of (rw_leases w') (lease_key i) = Some l \<and> ls_owner_id l = [] \<and> ls_expires_at l = clk 9)"
proof -
  obtain l f where l: "acquire (wk_lease_ttl wk) (lease_key i) (wk_owner wk) (clk 0) (rw_leases w) = (Inr (Some l), f)"
    "lease_of f (lease_key i) = Some l" "ls_owner_id l = wk_owner wk"
    "ls_expires_at l = clk 0 + seconds (wk_lease_ttl wk)" "lease_inv f"
    by (rule acquire_lookup [OF assms(7,8,9,11)])
  let ?w = "w\<lparr>rw_leases := f\<rparr>"
  have own: "still_owner wk i l (clk 1) ?w = Inr True"
    using still_owner_granted [of ?w i l wk "clk 1"] l assms(12) by simp
  have get: "recon_get (ti_key i) (rw_journal w) = Inr (Some r)"
    using assms(2) by (cases rule: recon_lookup [OF assms(1), of "ti_key i"]) simp_all
  have ev: "terminal_evidence (Some r) = Some (rr_status r)"
    using assms(3) by (auto simp: terminal_evidence_def decide_evidence_def is_terminal_def)
  obtain d where d: "read_intents (rw_intents w) = Inr d" "map_of d (ti_key i) = Some j"
    using assms(5) by (auto simp: intent_at_def split: sum.splits)
  let ?j = "unclaimed (rr_status r) j"
  have tm: "terminal_state (rr_status r)" using assms(3) by (auto simp: is_terminal_def TERMINAL_STATES_def)
  have "\<not> terminal_state (ti_state j)" using assms(6) states_disjoint by blast
  then have "finalize_from_journal (ti_key i) (rr_status r) (rw_intents w) =
      (Inr (Some ?j), Object (dset (ti_key i) ?j d))"
    using tm assms(6) d by (simp add: finalize_from_journal_def)
  then have body: "recover_leased wk clk resolver i l tok ?w =
      (Inr (outcome_of i (rr_status r) (Some ''journal_replay'')),
       ?w\<lparr>rw_intents := Object (dset (ti_key i) ?j d)\<rparr>)" for tok
    using own get ev assms(10) by (simp add: recover_leased_def finalize_if_owner_def)
  obtain f' where rel: "release (lease_key i) (wk_owner wk) (Some (ls_fencing_token l)) (clk 9) f = (Inr True, f')"
    by (rule release_granted [OF l(2,3,5)])
  then have freed: "\<exists>l. lease_of f' (lease_key i) = Some l \<and> ls_owner_id l = [] \<and> ls_expires_at l = clk 9"
    using release_expires by blast
  from assms(13) show ?thesis
    using l(1) body rel freed by (simp add: recover_one_def Let_def)
qed

text \<open>
  A worker cannot recover from its own crash. If a recovery died while it held the claim of an
  intent (and left no terminal journal record), then every later recovery by a worker of the same
  owner name, at any time, however long after the claim expired, is refused the claim: it reports
  \<^verbatim>\<open>skipped_by_claim\<close> and leaves the intent pending. (The token of an attempt is fresh, and a
  claim never passes to the same owner under another token.)
\<close>

theorem worker_locked_out_by_own_claim:
  assumes "recon_ok (rw_journal w)" and "\<forall>r. recon_at (rw_journal w) (ti_key i) = Some r \<longrightarrow> \<not> is_terminal r"
    and "intent_at (rw_intents w) (ti_key i) = Some j" and "held_by (wk_owner wk) t j" and "ambiguous_state (ti_state j)"
    and "lease_inv (rw_leases w)" and "lease_key i \<noteq> []" and "wk_owner wk \<noteq> []" and "ti_key i \<noteq> []"
    and "\<forall>l. lease_of (rw_leases w) (lease_key i) = Some l \<longrightarrow> ls_expires_at l \<le> clk 0 \<or> ls_owner_id l = wk_owner wk"
    and "\<forall>l. claim_token_of wk l uid \<noteq> t"
    and "(y, w') = recover_one wk clk uid resolver i w"
  shows "y = Inr (outcome_of i ''skipped_by_claim'' None)
    \<and> rw_intents w' = rw_intents w \<and> rw_journal w' = rw_journal w \<and> rw_world w' = rw_world w"
proof -
  obtain l f where l: "acquire (wk_lease_ttl wk) (lease_key i) (wk_owner wk) (clk 0) (rw_leases w) = (Inr (Some l), f)"
    "lease_of f (lease_key i) = Some l" "ls_owner_id l = wk_owner wk" "lease_inv f"
    by (rule acquire_lookup [OF assms(6,7,8,10)])
  let ?w = "w\<lparr>rw_leases := f\<rparr>"
  obtain d where d: "read_intents (rw_intents w) = Inr d" "map_of d (ti_key i) = Some j"
    using assms(3) by (auto simp: intent_at_def split: sum.splits)
  have "claim_token_of wk l uid \<noteq> []" by (simp add: claim_token_of_def)
  moreover have "claim_token_of wk l uid \<noteq> t" using assms(11) by blast
  ultimately have "claim (wk_claim_ttl wk) (ti_key i) (wk_owner wk) (claim_token_of wk l uid) (clk 2) (rw_intents w) =
      (Inr None, rw_intents w)"
    using d assms(4,5,8,9) by (simp add: claim_def held_by_def)
  then have "claim_and_resolve wk clk resolver i l (claim_token_of wk l uid) ?w =
      (Inr (outcome_of i ''skipped_by_claim'' None), ?w)"
    by (simp add: claim_and_resolve_def)
  moreover obtain r where "recon_get (ti_key i) (rw_journal w) = Inr r" "terminal_evidence r = None"
    using assms(2)
    by (cases rule: recon_lookup [OF assms(1), of "ti_key i"])
      (auto simp: terminal_evidence_def decide_evidence_def is_terminal_def)
  ultimately have body: "recover_leased wk clk resolver i l (claim_token_of wk l uid) ?w =
      (Inr (outcome_of i ''skipped_by_claim'' None), ?w)"
    by (simp add: recover_leased_def)
  obtain f' where rel: "release (lease_key i) (wk_owner wk) (Some (ls_fencing_token l)) (clk 9) f = (Inr True, f')"
    by (rule release_granted [OF l(2,3,4)])
  from assms(12) show ?thesis using l(1) body rel by (simp add: recover_one_def Let_def)
qed

section \<open>Samples\<close>

definition sample_worker :: worker where
  "sample_worker = \<lparr>wk_owner = ''w1'', wk_has_journal = True, wk_lease_ttl = 60, wk_claim_ttl = 60\<rparr>"

definition sample_recon :: recon where
  "sample_recon = \<lparr>rr_key = ''k1'', rr_execution_id = Some ''e1'', rr_status = ''completed'', rr_result = VInt 7,
     rr_updated = VStamp 0, rr_version = 1\<rparr>"

definition sample_rworld :: "pydict \<Rightarrow> unit rworld" where
  "sample_rworld j = \<lparr>rw_intents = sample_ledger, rw_leases = Object [], rw_journal = Object j, rw_world = ()\<rparr>"

lemma sample_recon_ok: "recon_ok (Object [(''k1'', asdict_recon sample_recon)])" "recon_ok (Object [])"
  by (auto simp: recon_ok_def read_recon_def recon_entry_def sample_recon_def SCHEMA_VERSION_def)

lemma sample_recon_at: "recon_at (Object [(''k1'', asdict_recon sample_recon)]) ''k1'' = Some sample_recon"
  "recon_at (Object []) ''k1'' = None"
proof -
  have "recon_record ''k1'' (asdict_recon sample_recon) = Inr (norm_recon sample_recon)"
    by (rule recon_record_asdict) (simp_all add: sample_recon_def SCHEMA_VERSION_def)
  moreover have "norm_recon sample_recon = sample_recon"
    by (simp add: norm_recon_def sample_recon_def SCHEMA_VERSION_def)
  ultimately show "recon_at (Object [(''k1'', asdict_recon sample_recon)]) ''k1'' = Some sample_recon"
    by (simp add: recon_at_def recon_get_def read_recon_def raw_of_def)
qed (simp add: recon_at_def recon_get_def read_recon_def raw_of_def)

lemma sample_lease_key: "lease_key sample_intent = ''e1''"
  by (simp add: lease_key_def sample_intent_def claimed_def new_intent_def opt_list_def)

theorem journal_record_decides_witness:
  "\<exists>y w'. recover_one sample_worker (\<lambda>n. int n) ''u'' (\<lambda>i w. (Inr (''failed'', VNone), w)) sample_intent
      (sample_rworld [(''k1'', asdict_recon sample_recon)]) = (y, w')
     \<and> y = Inr (outcome_of sample_intent ''completed'' (Some ''journal_replay''))
     \<and> intent_at (rw_intents w') ''k1'' = Some (unclaimed ''completed'' sample_intent)"
proof -
  let ?w = "sample_rworld [(''k1'', asdict_recon sample_recon)]"
  obtain y w' where yw: "(y, w') = recover_one sample_worker (\<lambda>n. int n) ''u'' (\<lambda>i w. (Inr (''failed'', VNone), w)) sample_intent ?w"
    by (metis surj_pair)
  have st: "rr_status sample_recon = ''completed''" by (simp add: sample_recon_def)
  show ?thesis
    using journal_record_decides [where r = sample_recon and j = sample_intent, OF _ _ _ _ _ _ _ _ _ _ _ _ yw]
      sample_ledger_ok sample_recon_ok sample_recon_at sample_lease_key yw [symmetric]
    by (simp add: sample_rworld_def sample_intent_fields sample_ledger_at is_terminal_def st
        sample_worker_def lease_inv_def lease_of_def AMBIGUOUS_STATES_def seconds_def)
qed

theorem worker_locked_out_by_own_claim_witness:
  "\<exists>y w'. recover_one sample_worker (\<lambda>n. 1000000000000 + int n) ''u'' (\<lambda>i w. (Inr (''failed'', VNone), w)) sample_intent (sample_rworld []) = (y, w')
     \<and> y = Inr (outcome_of sample_intent ''skipped_by_claim'' None) \<and> rw_intents w' = sample_ledger"
proof -
  obtain y w' where yw: "(y, w') = recover_one sample_worker (\<lambda>n. 1000000000000 + int n) ''u'' (\<lambda>i w. (Inr (''failed'', VNone), w)) sample_intent (sample_rworld [])"
    by (metis surj_pair)
  have tok: "\<forall>l. claim_token_of sample_worker l ''u'' \<noteq> ''t1''" by (simp add: claim_token_of_def)
  show ?thesis
    using worker_locked_out_by_own_claim [where t = "''t1''" and j = sample_intent, OF _ _ _ _ _ _ _ _ _ _ tok yw]
      sample_recon_ok sample_recon_at sample_lease_key yw [symmetric] sample_intent_fields
    by (simp add: sample_rworld_def sample_ledger_at sample_worker_def lease_inv_def lease_of_def AMBIGUOUS_STATES_def)
qed

end
