(* ===== verification/Operator_Queue.thy ===== *)
theory Operator_Queue
  imports Interfaces
begin

text \<open>
  \<^verbatim>\<open>runtime/recovery_queue.py\<close>, \<^verbatim>\<open>runtime/operator_audit.py\<close> and
  \<^verbatim>\<open>runtime/recovery_api.py\<close>: the durable queue of executions that wait for an operator, the
  operators' audit trail, and the service that resolves items and records who did. Both files are
  JSON-lines files; an absent file reads as no lines. A queue operation runs under the queue's lock
  and is one step.
\<close>

section \<open>The queue\<close>

record queue_item =
  qi_execution_id :: string
  qi_action :: string
  qi_reason :: string
  qi_attempt :: int
  qi_correlation_id :: "string option"
  qi_created_at :: time
  qi_resolved :: bool

type_synonym queue_file = "queue_item line list"

definition new_item :: "string \<Rightarrow> string \<Rightarrow> string \<Rightarrow> int \<Rightarrow> string option \<Rightarrow> time \<Rightarrow> queue_item" where
  "new_item x action reason attempt correlation_id now =
     \<lparr>qi_execution_id = x, qi_action = action, qi_reason = reason, qi_attempt = attempt,
      qi_correlation_id = correlation_id, qi_created_at = now, qi_resolved = False\<rparr>"

text \<open>An open item of the given execution and action.\<close>

definition open_for :: "string \<Rightarrow> string \<Rightarrow> queue_item \<Rightarrow> bool" where
  "open_for x action i \<longleftrightarrow> qi_execution_id i = x \<and> qi_action i = action \<and> \<not> qi_resolved i"

definition rewrite_queue :: "queue_item list \<Rightarrow> queue_file" where
  "rewrite_queue is = map Good is"

definition enqueue :: "queue_item \<Rightarrow> queue_file \<Rightarrow> queue_item result \<times> queue_file" where
  "enqueue item f =
     (case read_lines f of
        Inl e \<Rightarrow> (Inl e, f)
      | Inr is \<Rightarrow>
          (if list_ex (open_for (qi_execution_id item) (qi_action item)) is then (Inr item, f)
           else (Inr item, f @ [Good item])))"

definition close_item :: "string \<Rightarrow> string \<Rightarrow> queue_item \<Rightarrow> queue_item" where
  "close_item x action i = (if open_for x action i then i\<lparr>qi_resolved := True\<rparr> else i)"

definition queue_resolve :: "string \<Rightarrow> string \<Rightarrow> queue_file \<Rightarrow> bool result \<times> queue_file" where
  "queue_resolve x action f =
     (case read_lines f of
        Inl e \<Rightarrow> (Inl e, f)
      | Inr is \<Rightarrow>
          (let changed = list_ex (open_for x action) is
           in (Inr changed, if changed then rewrite_queue (map (close_item x action) is) else f)))"

definition queue_items :: "string option \<Rightarrow> bool \<Rightarrow> queue_file \<Rightarrow> queue_item list result" where
  "queue_items action unresolved_only f =
     map_sum id (filter (\<lambda>i. (action = None \<or> action = Some (qi_action i))
                           \<and> (\<not> unresolved_only \<or> \<not> qi_resolved i))) (read_lines f)"

section \<open>The operators' audit trail\<close>

record operator_event =
  oe_action :: string
  oe_execution_id :: string
  oe_actor :: string
  oe_outcome :: string
  oe_reason :: "string option"
  oe_correlation_id :: "string option"
  oe_created_at :: time

type_synonym operator_log = "operator_event line list"

definition operator_append :: "operator_event \<Rightarrow> operator_log \<Rightarrow> operator_event \<times> operator_log" where
  "operator_append e f = (e, f @ [Good e])"

definition operator_events :: "operator_log \<Rightarrow> operator_event list result" where
  "operator_events f = read_lines f"

section \<open>The service\<close>

record service =
  sv_queue :: queue_file
  sv_audit :: operator_log

definition service_list :: "string option \<Rightarrow> service \<Rightarrow> queue_item list result" where
  "service_list action sv = queue_items action True (sv_queue sv)"

definition service_audit_events :: "service \<Rightarrow> operator_event list result" where
  "service_audit_events sv = operator_events (sv_audit sv)"

definition audit_operator ::
    "time \<Rightarrow> string \<Rightarrow> string \<Rightarrow> string \<Rightarrow> string \<Rightarrow> string option \<Rightarrow> string option \<Rightarrow> service \<Rightarrow> service" where
  "audit_operator now action x actor outcome reason correlation_id sv =
     sv\<lparr>sv_audit := snd (operator_append
        \<lparr>oe_action = action, oe_execution_id = x, oe_actor = actor, oe_outcome = outcome,
         oe_reason = reason, oe_correlation_id = correlation_id, oe_created_at = now\<rparr> (sv_audit sv))\<rparr>"

record resolution =
  rs_execution_id :: string
  rs_action :: string
  rs_resolved :: bool
  rs_correlation_id :: "string option"

definition service_resolve ::
    "time \<Rightarrow> string \<Rightarrow> string \<Rightarrow> string \<Rightarrow> string option \<Rightarrow> string option \<Rightarrow> service \<Rightarrow>
     resolution result \<times> service" where
  "service_resolve now x action actor reason correlation_id sv =
     (case queue_resolve x action (sv_queue sv) of
        (Inl e, q) \<Rightarrow>
          (Inl e, audit_operator now action x actor ''failed'' (Some (exc_msg e)) correlation_id (sv\<lparr>sv_queue := q\<rparr>))
      | (Inr changed, q) \<Rightarrow>
          (let sv' = audit_operator now action x actor (if changed then ''resolved'' else ''not_found'')
                       reason correlation_id (sv\<lparr>sv_queue := q\<rparr>)
           in if \<not> changed then (Inl (Exc KeyError (''recovery item not found: '' @ x @ ''/'' @ action)), sv')
              else (Inr \<lparr>rs_execution_id = x, rs_action = action, rs_resolved = True,
                         rs_correlation_id = correlation_id\<rparr>, sv')))"

section \<open>The queue as a set of open cases\<close>

text \<open>
  What the queue promises: a set of open cases, each at most once, and a history that only grows.
  A sound queue is readable and has no two open items of one case.
\<close>

definition open_keys :: "queue_item list \<Rightarrow> (string \<times> string) list" where
  "open_keys is = map (\<lambda>i. (qi_execution_id i, qi_action i)) (filter (Not \<circ> qi_resolved) is)"

definition queue_ok :: "queue_file \<Rightarrow> bool" where
  "queue_ok f \<longleftrightarrow> (case read_lines f of Inl _ \<Rightarrow> False | Inr is \<Rightarrow> distinct (open_keys is))"

definition open_cases :: "queue_file \<Rightarrow> (string \<times> string) set" where
  "open_cases f = (case read_lines f of Inl _ \<Rightarrow> {} | Inr is \<Rightarrow> set (open_keys is))"

definition history :: "queue_file \<Rightarrow> queue_item list" where
  "history f = (case read_lines f of Inl _ \<Rightarrow> [] | Inr is \<Rightarrow> map (qi_resolved_update (\<lambda>_. False)) is)"

lemma open_keys_simps [simp]:
  "open_keys [] = []" "open_keys (is @ js) = open_keys is @ open_keys js"
  "open_keys (i # is) = (if qi_resolved i then open_keys is else (qi_execution_id i, qi_action i) # open_keys is)"
  by (auto simp: open_keys_def)

lemma open_for_keys: "list_ex (open_for x a) is \<longleftrightarrow> (x, a) \<in> set (open_keys is)"
  by (induction "is") (auto simp: open_for_def)

lemma open_keys_close: "open_keys (map (close_item x a) is) = filter (\<lambda>k. k \<noteq> (x, a)) (open_keys is)"
  by (induction "is") (auto simp: close_item_def open_for_def)

lemma reset_close: "(close_item x a i)\<lparr>qi_resolved := False\<rparr> = i\<lparr>qi_resolved := False\<rparr>"
  by (simp add: close_item_def)

lemma read_rewrite [simp]: "read_lines (rewrite_queue is) = Inr is"
  by (simp add: rewrite_queue_def)

lemma queue_ok_read: "queue_ok f \<Longrightarrow> \<exists>is. read_lines f = Inr is \<and> distinct (open_keys is)"
  by (auto simp: queue_ok_def split: sum.splits)

lemma enqueue_cases:
  assumes "queue_ok f" and "\<not> qi_resolved item" and "k = (qi_execution_id item, qi_action item)"
    and "enqueue item f = (r, f')"
  shows "r = Inr item" "queue_ok f'" "open_cases f' = insert k (open_cases f)"
    "history f' = history f @ (if k \<in> open_cases f then [] else [item])"
proof -
  obtain "is" where is_f: "read_lines f = Inr is" "distinct (open_keys is)" using queue_ok_read [OF assms(1)] by blast
  have item: "item\<lparr>qi_resolved := False\<rparr> = item" using assms(2) by (cases item) simp
  show "r = Inr item" "queue_ok f'" "open_cases f' = insert k (open_cases f)"
    "history f' = history f @ (if k \<in> open_cases f then [] else [item])"
    using assms(2-4) is_f item
    by (auto simp: enqueue_def queue_ok_def open_cases_def history_def read_lines_snoc open_for_keys split: if_splits)
qed

lemma resolve_cases:
  assumes "queue_ok f" and "queue_resolve x a f = (r, f')"
  shows "r = Inr ((x, a) \<in> open_cases f)" "queue_ok f'" "open_cases f' = open_cases f - {(x, a)}"
    "history f' = history f"
proof -
  obtain "is" where is_f: "read_lines f = Inr is" "distinct (open_keys is)" using queue_ok_read [OF assms(1)] by blast
  show "r = Inr ((x, a) \<in> open_cases f)" "queue_ok f'" "open_cases f' = open_cases f - {(x, a)}"
    "history f' = history f"
    using assms(2) is_f
    by (auto simp: queue_resolve_def queue_ok_def open_cases_def history_def open_for_keys
        open_keys_close reset_close o_def Let_def split: if_splits)
qed

datatype queue_op = Q_Enqueue queue_item | Q_Resolve string string

fun queue_step :: "queue_file \<Rightarrow> queue_op \<Rightarrow> queue_file" where
  "queue_step f (Q_Enqueue i) = (if qi_resolved i then f else snd (enqueue i f))"
| "queue_step f (Q_Resolve x a) = snd (queue_resolve x a f)"

interpretation queue: step_system queue_step queue_ok
proof unfold_locales
  fix f l assume "queue_ok f"
  then show "queue_ok (queue_step f l)"
    by (cases l) (auto intro: enqueue_cases(2) [OF _ _ refl prod.collapse [symmetric]]
        resolve_cases(2) [OF _ prod.collapse [symmetric]])
qed

text \<open>Every call of the service appends its event.\<close>

lemma service_resolve_audits:
  "\<exists>r sv' e. service_resolve now x action actor reason cid sv = (r, sv') \<and> sv_audit sv' = sv_audit sv @ [Good e]
    \<and> oe_execution_id e = x \<and> oe_action e = action \<and> oe_actor e = actor"
  by (cases "queue_resolve x action (sv_queue sv)"; cases "fst (queue_resolve x action (sv_queue sv))")
    (auto simp: service_resolve_def audit_operator_def operator_append_def Let_def)

section \<open>Properties\<close>

text \<open>
  C38. The operator queue refines a set of open cases. On a queue reached from a sound one by any
  operations, enqueueing a case opens it (and writes nothing when it is open already), resolving
  a case reports whether it was open and closes that case and no other; neither ever drops an item
  from the history, and no case is open twice.
\<close>

theorem queue_refines_open_cases:
  assumes "queue_ok f0" and "f = run queue_step f0 ops"
  shows "queue_ok f
    \<and> (\<not> qi_resolved i \<longrightarrow>
        (\<exists>f'. enqueue i f = (Inr i, f')
          \<and> open_cases f' = insert (qi_execution_id i, qi_action i) (open_cases f)
          \<and> history f' = history f @ (if (qi_execution_id i, qi_action i) \<in> open_cases f then [] else [i])))
    \<and> (\<exists>f'. queue_resolve x a f = (Inr ((x, a) \<in> open_cases f), f')
          \<and> open_cases f' = open_cases f - {(x, a)} \<and> history f' = history f)"
proof -
  have ok: "queue_ok f" unfolding assms(2) by (rule queue.run_inv [OF assms(1)])
  obtain r1 f1 where e: "enqueue i f = (r1, f1)" by (cases "enqueue i f") auto
  obtain r2 f2 where q: "queue_resolve x a f = (r2, f2)" by (cases "queue_resolve x a f") auto
  show ?thesis
    using ok enqueue_cases [OF ok _ refl e] resolve_cases [OF ok q] e q by auto
qed

definition sample_item :: queue_item where
  "sample_item = new_item ''e1'' ''manual_review'' ''maximum recovery attempts reached'' 3 None 7"

theorem queue_refines_open_cases_witness:
  "\<exists>f'. queue_resolve ''e1'' ''manual_review'' (run queue_step [] [Q_Enqueue sample_item]) = (Inr True, f')
     \<and> open_cases f' = {} \<and> history f' = [sample_item]"
proof -
  have ok: "queue_ok []" by (simp add: queue_ok_def)
  have f: "run queue_step [] [Q_Enqueue sample_item] = [Good sample_item]"
    by (simp add: sample_item_def new_item_def enqueue_def)
  have c: "open_cases [Good sample_item] = {(''e1'', ''manual_review'')}" "history [Good sample_item] = [sample_item]"
    by (simp_all add: open_cases_def history_def sample_item_def new_item_def)
  show ?thesis
    using queue_refines_open_cases [OF ok refl, of "[Q_Enqueue sample_item]" sample_item "''e1''" "''manual_review''"]
    unfolding f by (auto simp: c)
qed

text \<open>
  Every attempt to resolve a case leaves exactly one audit event naming the case, the actor and
  the correlation id, whatever the outcome: resolved (the case was open and is closed), not found (the
  call raises and nothing changes) or failed (the queue could not be read). Earlier events are kept.
\<close>

theorem resolutions_are_audited:
  shows "\<exists>r sv' e. service_resolve now x action actor reason cid sv = (r, sv')
    \<and> sv_audit sv' = sv_audit sv @ [Good e]
    \<and> oe_execution_id e = x \<and> oe_action e = action \<and> oe_actor e = actor \<and> oe_correlation_id e = cid
    \<and> oe_outcome e = (case fst (queue_resolve x action (sv_queue sv)) of
         Inl _ \<Rightarrow> ''failed'' | Inr True \<Rightarrow> ''resolved'' | Inr False \<Rightarrow> ''not_found'')
    \<and> (oe_outcome e = ''resolved'' \<longleftrightarrow> (\<exists>ok. r = Inr ok))
    \<and> (oe_outcome e = ''resolved'' \<or> sv_queue sv' = sv_queue sv)"
proof -
  obtain r q where rq: "queue_resolve x action (sv_queue sv) = (r, q)" by (cases "queue_resolve x action (sv_queue sv)") auto
  have same: "r \<noteq> Inr True \<Longrightarrow> q = sv_queue sv"
    using rq by (auto simp: queue_resolve_def Let_def split: sum.splits if_splits)
  show ?thesis
  proof (cases r)
    case (Inl e)
    with rq same show ?thesis
      by (simp add: service_resolve_def audit_operator_def operator_append_def)
  next
    case (Inr changed)
    with rq same show ?thesis
      by (cases changed) (simp_all add: service_resolve_def audit_operator_def operator_append_def Let_def)
  qed
qed

end
