(* ===== verification/Control_Plane.thy ===== *)
theory Control_Plane
  imports Operator_Queue
begin

text \<open>
  \<^verbatim>\<open>api/auth_config.py\<close>, \<^verbatim>\<open>api/security.py\<close>, \<^verbatim>\<open>api/recovery_rbac.py\<close>,
  \<^verbatim>\<open>api/app.py\<close>, \<^verbatim>\<open>api/main.py\<close>, \<^verbatim>\<open>api/operator_audit.py\<close> and
  \<^verbatim>\<open>runtime/recovery_http.py\<close>: who may see and resolve the operator queue over HTTP. A
  request is the two headers the code reads. A handler returns its value, an
  \<^verbatim>\<open>HTTPException\<close> with a status code, or an exception nobody handles (the framework
  answers it with status 500). The environment variables and the fresh UUID are arguments.
\<close>

section \<open>Roles\<close>

datatype role = VIEWER | OPERATOR | ADMIN

fun role_value :: "role \<Rightarrow> string" where
  "role_value VIEWER = ''viewer''"
| "role_value OPERATOR = ''operator''"
| "role_value ADMIN = ''admin''"

fun role_rank :: "role \<Rightarrow> nat" where
  "role_rank VIEWER = 0"
| "role_rank OPERATOR = 1"
| "role_rank ADMIN = 2"

definition allows :: "role \<Rightarrow> role \<Rightarrow> bool" where
  "allows r minimum \<longleftrightarrow> role_rank r \<ge> role_rank minimum"

text \<open>The roles are linearly ordered, and \<open>allows\<close> is that order.\<close>

instantiation role :: linorder
begin

definition less_eq_role :: "role \<Rightarrow> role \<Rightarrow> bool" where
  "less_eq_role a b \<longleftrightarrow> role_rank a \<le> role_rank b"

definition less_role :: "role \<Rightarrow> role \<Rightarrow> bool" where
  "less_role a b \<longleftrightarrow> role_rank a < role_rank b"

instance
proof
  fix a b c :: role
  show "a < b \<longleftrightarrow> a \<le> b \<and> \<not> b \<le> a" by (auto simp: less_eq_role_def less_role_def)
  show "a \<le> a" by (simp add: less_eq_role_def)
  show "a \<le> b \<Longrightarrow> b \<le> c \<Longrightarrow> a \<le> c" by (simp add: less_eq_role_def)
  show "a \<le> b \<Longrightarrow> b \<le> a \<Longrightarrow> a = b" by (cases a; cases b) (simp_all add: less_eq_role_def)
  show "a \<le> b \<or> b \<le> a" by (auto simp: less_eq_role_def)
qed

end

lemma allows_order: "allows r m \<longleftrightarrow> m \<le> r"
  by (simp add: allows_def less_eq_role_def)

text \<open>\<^verbatim>\<open>OperatorRole(text)\<close>\<close>

definition parse_role :: "string \<Rightarrow> role result" where
  "parse_role s =
     (case List.find (\<lambda>r. role_value r = s) [VIEWER, OPERATOR, ADMIN] of
        Some r \<Rightarrow> Inr r
      | None \<Rightarrow> Inl (Exc ValueError ''not a valid OperatorRole''))"

section \<open>Authentication\<close>

record auth_config =
  ac_token :: string
  ac_role :: string
  ac_actor :: string

record auth_env =
  env_token :: string
  env_role :: string
  env_actor :: string

definition from_env :: "auth_env \<Rightarrow> auth_config result" where
  "from_env env =
     (if env_token env = [] \<or> env_role env = [] \<or> env_actor env = [] then
        Inl (Exc RuntimeError ''AIOS operator authentication is not fully configured'')
      else if \<not> List.member [''viewer'', ''operator'', ''admin''] (env_role env) then
        Inl (Exc RuntimeError (''invalid AIOS_OPERATOR_ROLE: '' @ env_role env))
      else if length (env_token env) < 16 then
        Inl (Exc RuntimeError ''AIOS_OPERATOR_TOKEN must contain at least 16 characters'')
      else Inr \<lparr>ac_token = env_token env, ac_role = env_role env, ac_actor = env_actor env\<rparr>)"

record security_context =
  sc_actor :: string
  sc_role :: role
  sc_correlation_id :: string

record request =
  rq_authorization :: "string option"
  rq_correlation_id :: "string option"

text \<open>\<^verbatim>\<open>hmac.compare_digest\<close> of two texts: it accepts ASCII only.\<close>

definition is_ascii :: "string \<Rightarrow> bool" where
  "is_ascii s \<longleftrightarrow> list_all (\<lambda>c. of_char c < (128 :: nat)) s"

definition compare_digest :: "string \<Rightarrow> string \<Rightarrow> bool result" where
  "compare_digest a b =
     (if is_ascii a \<and> is_ascii b then Inr (a = b)
      else Inl (Exc TypeError ''comparing strings with non-ASCII characters is not supported''))"

definition bearer :: "request \<Rightarrow> string option" where
  "bearer req =
     (let authorization = opt_list (rq_authorization req)
      in if take 7 authorization = ''Bearer '' then Some (drop 7 authorization) else None)"

definition correlation_id :: "request \<Rightarrow> string \<Rightarrow> string" where
  "correlation_id req uuid = (if opt_list (rq_correlation_id req) = [] then uuid else opt_list (rq_correlation_id req))"

definition authenticate ::
    "auth_env \<Rightarrow> string \<Rightarrow> auth_config option \<Rightarrow> request \<Rightarrow> security_context option result" where
  "authenticate env uuid config req =
     (case (case config of Some c \<Rightarrow> Inr c | None \<Rightarrow> from_env env) of
        Inl e \<Rightarrow> Inr None
      | Inr c \<Rightarrow>
         (case bearer req of
            None \<Rightarrow> Inr None
          | Some supplied \<Rightarrow>
             (if supplied = [] then Inr None
              else case compare_digest supplied (ac_token c) of
                Inl e \<Rightarrow> Inl e
              | Inr False \<Rightarrow> Inr None
              | Inr True \<Rightarrow>
                 (if length (correlation_id req uuid) > 128 then Inr None
                  else map_sum id (\<lambda>r. Some \<lparr>sc_actor = ac_actor c, sc_role = r,
                                             sc_correlation_id = correlation_id req uuid\<rparr>)
                         (parse_role (ac_role c))))))"

text \<open>\<^verbatim>\<open>api/main.py: operator_validator\<close>, the legacy check on the token alone.\<close>

definition legacy_validator :: "auth_env \<Rightarrow> request \<Rightarrow> bool result" where
  "legacy_validator env req =
     (case bearer req of
        None \<Rightarrow> Inr False
      | Some supplied \<Rightarrow> if env_token env = [] then Inr False else compare_digest supplied (env_token env))"

section \<open>Handlers\<close>

datatype http_error = HTTP nat | Unhandled exc

type_synonym 'a response = "http_error + 'a"

text \<open>
  \<^verbatim>\<open>security.require_role\<close>, and the dependency of \<^verbatim>\<open>recovery_rbac.py\<close>, which
  reads the context a previous step has attached to the request.
\<close>

definition require_role :: "auth_env \<Rightarrow> string \<Rightarrow> request \<Rightarrow> role \<Rightarrow> security_context response" where
  "require_role env uuid req minimum =
     (case authenticate env uuid None req of
        Inl e \<Rightarrow> Inl (Unhandled e)
      | Inr None \<Rightarrow> Inl (HTTP 403)
      | Inr (Some c) \<Rightarrow> if allows (sc_role c) minimum then Inr c else Inl (HTTP 403))"

definition rbac_require_role :: "role \<Rightarrow> security_context option \<Rightarrow> security_context response" where
  "rbac_require_role required attached =
     (case attached of
        None \<Rightarrow> Inl (HTTP 401)
      | Some c \<Rightarrow> if allows (sc_role c) required then Inr c else Inl (HTTP 403))"

definition http_operator_audit :: "auth_env \<Rightarrow> string \<Rightarrow> request \<Rightarrow> service \<Rightarrow> operator_event list response" where
  "http_operator_audit env uuid req sv =
     (case require_role env uuid req VIEWER of
        Inl e \<Rightarrow> Inl e
      | Inr _ \<Rightarrow> map_sum Unhandled id (service_audit_events sv))"

text \<open>
  \<^verbatim>\<open>app.authorize\<close>, with the validator the application was built with (\<^verbatim>\<open>authenticate\<close>
  itself in \<^verbatim>\<open>api/main.py\<close>) or \<^verbatim>\<open>authenticate(request, config)\<close>.
\<close>

type_synonym validator_fun = "request \<Rightarrow> security_context option result"
type_synonym authorizer = "request \<Rightarrow> security_context response"

definition app_config :: "auth_env \<Rightarrow> validator_fun option \<Rightarrow> auth_config option \<Rightarrow> auth_config option result" where
  "app_config env operator_validator config =
     (if config = None \<and> operator_validator = None then map_sum id Some (from_env env) else Inr config)"

definition app_authorize ::
    "auth_env \<Rightarrow> string \<Rightarrow> validator_fun option \<Rightarrow> auth_config option \<Rightarrow> authorizer" where
  "app_authorize env uuid operator_validator config req =
     (case (case operator_validator of Some v \<Rightarrow> v req | None \<Rightarrow> authenticate env uuid config req) of
        Inl e \<Rightarrow> Inl (Unhandled e)
      | Inr None \<Rightarrow> Inl (HTTP 403)
      | Inr (Some c) \<Rightarrow> Inr c)"

definition http_ready :: "bool result option \<Rightarrow> unit response" where
  "http_ready readiness_check =
     (case readiness_check of
        None \<Rightarrow> Inr ()
      | Some (Inl e) \<Rightarrow> Inl (Unhandled e)
      | Some (Inr ok) \<Rightarrow> if ok then Inr () else Inl (HTTP 503))"

section \<open>The recovery router\<close>

definition router_context :: "authorizer option \<Rightarrow> request \<Rightarrow> security_context response" where
  "router_context authorize_operator req =
     (case authorize_operator of None \<Rightarrow> Inl (HTTP 403) | Some a \<Rightarrow> a req)"

definition require_operator :: "authorizer option \<Rightarrow> request \<Rightarrow> security_context response" where
  "require_operator authorize_operator req =
     (case router_context authorize_operator req of
        Inl e \<Rightarrow> Inl e
      | Inr c \<Rightarrow>
          (if \<not> List.member [''operator'', ''admin''] (role_value (sc_role c)) then Inl (HTTP 403) else Inr c))"

text \<open>
  The bodies of the two POST requests. The framework checks them against the declared models before
  it calls the handler and answers 422 when they do not fit.
\<close>

record resolve_request =
  rr_execution_id :: string
  rr_action :: string
  rr_reason :: "string option"

definition resolve_request :: "string \<Rightarrow> string \<Rightarrow> string option \<Rightarrow> resolve_request response" where
  "resolve_request x action reason =
     (if x \<noteq> [] \<and> List.member [''quarantine'', ''manual_review'', ''retry''] action
      then Inr \<lparr>rr_execution_id = x, rr_action = action, rr_reason = reason\<rparr> else Inl (HTTP 422))"

definition http_queue :: "authorizer option \<Rightarrow> request \<Rightarrow> string option \<Rightarrow> service \<Rightarrow> queue_item list response" where
  "http_queue auth req action sv =
     (case router_context auth req of
        Inl e \<Rightarrow> Inl e
      | Inr _ \<Rightarrow> map_sum Unhandled id (service_list action sv))"

definition http_quarantine :: "authorizer option \<Rightarrow> request \<Rightarrow> service \<Rightarrow> queue_item list response" where
  "http_quarantine auth req sv = http_queue auth req (Some ''quarantine'') sv"

definition http_manual_review :: "authorizer option \<Rightarrow> request \<Rightarrow> service \<Rightarrow> queue_item list response" where
  "http_manual_review auth req sv = http_queue auth req (Some ''manual_review'') sv"

definition http_resolve ::
    "time \<Rightarrow> authorizer option \<Rightarrow> request \<Rightarrow> resolve_request \<Rightarrow> service \<Rightarrow> resolution response \<times> service" where
  "http_resolve now auth req payload sv =
     (case require_operator auth req of
        Inl e \<Rightarrow> (Inl e, sv)
      | Inr op \<Rightarrow>
         (case service_resolve now (rr_execution_id payload) (rr_action payload) (sc_actor op)
                 (rr_reason payload) (Some (sc_correlation_id op)) sv of
            (Inl e, sv') \<Rightarrow> (Inl (if isinst e [KeyError] then HTTP 404 else Unhandled e), sv')
          | (Inr x, sv') \<Rightarrow> (Inr x, sv')))"

definition http_retry ::
    "time \<Rightarrow> authorizer option \<Rightarrow> request \<Rightarrow> string \<Rightarrow> string option \<Rightarrow> service \<Rightarrow> resolution response \<times> service" where
  "http_retry now auth req x reason sv =
     http_resolve now auth req \<lparr>rr_execution_id = x, rr_action = ''retry'', rr_reason = reason\<rparr> sv"

section \<open>Who gets in\<close>

text \<open>The configuration a request is checked against, and the proof of identity it must carry.\<close>

definition configured :: "auth_env \<Rightarrow> auth_config option \<Rightarrow> auth_config option" where
  "configured env config = (case config of Some c \<Rightarrow> Some c | None \<Rightarrow> (case from_env env of Inl _ \<Rightarrow> None | Inr c \<Rightarrow> Some c))"

definition entitled :: "auth_config \<Rightarrow> request \<Rightarrow> bool" where
  "entitled c req \<longleftrightarrow> rq_authorization req = Some (''Bearer '' @ ac_token c) \<and> ac_token c \<noteq> []"

lemma parse_role_value [simp]: "parse_role (role_value r) = Inr r"
  by (cases r) (simp_all add: parse_role_def)

lemma parse_role_Inr: "parse_role s = Inr r \<Longrightarrow> s = role_value r"
  by (auto simp: parse_role_def split: option.splits if_splits)

lemma role_names: "List.member [''viewer'', ''operator'', ''admin''] s \<Longrightarrow> \<exists>r. s = role_value r"
  by (simp only: List.member_iff list.set insert_iff empty_iff) (metis role_value.simps)

lemma guards_passed:
  "(if a then Inl x else if \<not> b then Inl y else if d then Inl z else Inr w) = Inr c \<Longrightarrow> \<not> a \<and> b \<and> \<not> d \<and> w = c"
  by (auto split: if_splits)

lemma from_env_Inr:
  assumes "from_env env = Inr c"
  shows "List.member [''viewer'', ''operator'', ''admin''] (ac_role c) \<and> 16 \<le> length (ac_token c) \<and> ac_actor c \<noteq> []"
proof -
  note g = guards_passed [OF assms [unfolded from_env_def]]
  then have "c = \<lparr>ac_token = env_token env, ac_role = env_role env, ac_actor = env_actor env\<rparr>" by blast
  with g show ?thesis by (simp only: auth_config.select_convs not_less) blast
qed

lemma from_env_role: "from_env env = Inr c \<Longrightarrow> \<exists>r. ac_role c = role_value r"
  using from_env_Inr role_names by blast

lemma bearer_Some:
  assumes "bearer req = Some t"
  shows "rq_authorization req = Some (''Bearer '' @ t)"
proof -
  let ?a = "opt_list (rq_authorization req)"
  have t: "take 7 ?a = ''Bearer ''" "drop 7 ?a = t"
    using assms unfolding bearer_def Let_def by (metis option.distinct(1), metis option.distinct(1) option.inject)
  then have a: "?a = ''Bearer '' @ t" by (metis append_take_drop_id)
  then show ?thesis by (cases "rq_authorization req") (simp_all add: opt_list_def)
qed

lemma authenticate_Some:
  assumes "authenticate env uuid config req = Inr (Some s)"
  obtains c where "configured env config = Some c" "entitled c req" "sc_actor s = ac_actor c"
    "ac_role c = role_value (sc_role s)"
proof -
  obtain c where cfg: "(case config of Some c \<Rightarrow> Inr c | None \<Rightarrow> from_env env) = Inr c" "configured env config = Some c"
    using assms by (auto simp: authenticate_def configured_def split: option.splits sum.splits)
  obtain t where t: "bearer req = Some t" "t \<noteq> []"
    using assms cfg(1) by (auto simp: authenticate_def split: option.splits if_splits)
  have dig: "compare_digest t (ac_token c) = Inr True" and len: "length (correlation_id req uuid) \<le> 128"
    using assms cfg(1) t by (auto simp: authenticate_def split: sum.splits bool.splits if_splits)
  then have tok: "t = ac_token c" by (simp add: compare_digest_def split: if_splits)
  obtain r where r: "parse_role (ac_role c) = Inr r"
    using assms cfg(1) t dig len by (cases "parse_role (ac_role c)") (auto simp: authenticate_def)
  then have s: "sc_actor s = ac_actor c" "sc_role s = r"
    using assms cfg(1) t dig len by (auto simp: authenticate_def)
  have "entitled c req" using t tok by (simp add: entitled_def bearer_Some)
  then show thesis by (intro that [OF cfg(2)]) (use s parse_role_Inr [OF r] in auto)
qed

lemma operator_roles: "List.member [''operator'', ''admin''] (role_value r) \<longleftrightarrow> allows r OPERATOR"
  by (cases r) (simp_all add: List.member_iff allows_def)

text \<open>
  The application as it is deployed: \<^verbatim>\<open>api/main.py\<close> passes \<^verbatim>\<open>authenticate\<close> as the
  validator and no configuration; an embedding application passes a configuration and no validator.
\<close>

definition control_plane :: "auth_env \<Rightarrow> string \<Rightarrow> auth_config option \<Rightarrow> authorizer option" where
  "control_plane env uuid config =
     Some (app_authorize env uuid (if config = None then Some (authenticate env uuid None) else None) config)"

lemma control_plane_context:
  "router_context (control_plane env uuid config) req =
     (case authenticate env uuid config req of
        Inl e \<Rightarrow> Inl (Unhandled e) | Inr None \<Rightarrow> Inl (HTTP 403) | Inr (Some s) \<Rightarrow> Inr s)"
  by (simp add: router_context_def control_plane_def app_authorize_def)

lemma require_operator_plane:
  "require_operator (control_plane env uuid config) req =
     (case authenticate env uuid config req of
        Inl e \<Rightarrow> Inl (Unhandled e)
      | Inr None \<Rightarrow> Inl (HTTP 403)
      | Inr (Some s) \<Rightarrow> if OPERATOR \<le> sc_role s then Inr s else Inl (HTTP 403))"
  unfolding require_operator_def operator_roles allows_order control_plane_context
  by (auto split: sum.splits option.splits)

lemma resolve_authorized:
  assumes "require_operator auth req = Inr s"
  shows "snd (http_resolve now auth req payload sv) =
    snd (service_resolve now (rr_execution_id payload) (rr_action payload) (sc_actor s) (rr_reason payload)
       (Some (sc_correlation_id s)) sv)"
  by (simp add: http_resolve_def assms split: prod.splits sum.splits)

lemma authenticate_entitled:
  assumes "configured env config = Some c" and "entitled c req" and "is_ascii (ac_token c)"
    and "length (correlation_id req uuid) \<le> 128" and "ac_role c = role_value r"
  shows "authenticate env uuid config req =
    Inr (Some \<lparr>sc_actor = ac_actor c, sc_role = r, sc_correlation_id = correlation_id req uuid\<rparr>)"
proof -
  have "(case config of Some c \<Rightarrow> Inr c | None \<Rightarrow> from_env env) = Inr c"
    using assms(1) by (auto simp: configured_def split: option.splits sum.splits)
  moreover have "bearer req = Some (ac_token c)" "ac_token c \<noteq> []"
    using assms(2) by (simp_all add: entitled_def bearer_def opt_list_def)
  ultimately show ?thesis
    using assms(3-5) by (simp add: authenticate_def compare_digest_def)
qed

section \<open>Properties\<close>

text \<open>
  Only an authenticated operator or administrator changes the operator queue or its audit trail.
  Whatever a resolve request is, either it is answered 403 (or with an unhandled exception) and
  nothing changes, or it carries the configured secret token of a role of at least operator, and the
  trail grows by one event that names the configured actor, never a name the caller chose.
\<close>

theorem only_operators_resolve:
  assumes "http_resolve now (control_plane env uuid config) req payload sv = (res, sv')"
  shows "sv' = sv \<and> (res = Inl (HTTP 403) \<or> (\<exists>e. res = Inl (Unhandled e)))
    \<or> (\<exists>c r e. configured env config = Some c \<and> entitled c req \<and> ac_role c = role_value r \<and> OPERATOR \<le> r
         \<and> sv_audit sv' = sv_audit sv @ [Good e] \<and> oe_actor e = ac_actor c
         \<and> oe_execution_id e = rr_execution_id payload \<and> oe_action e = rr_action payload)"
proof (cases "require_operator (control_plane env uuid config) req")
  case (Inl e)
  then have "sv' = sv" "res = Inl e" using assms by (simp_all add: http_resolve_def)
  with Inl show ?thesis
    by (auto simp: require_operator_plane split: sum.splits option.splits if_splits)
next
  case (Inr s)
  then have auth: "authenticate env uuid config req = Inr (Some s)" and r: "OPERATOR \<le> sc_role s"
    by (auto simp: require_operator_plane split: sum.splits option.splits if_splits)
  obtain c where c: "configured env config = Some c" "entitled c req" "sc_actor s = ac_actor c"
    "ac_role c = role_value (sc_role s)"
    using auth by (rule authenticate_Some)
  obtain r0 sv0 e where "service_resolve now (rr_execution_id payload) (rr_action payload) (sc_actor s) (rr_reason payload)
      (Some (sc_correlation_id s)) sv = (r0, sv0)" "sv_audit sv0 = sv_audit sv @ [Good e]"
    "oe_execution_id e = rr_execution_id payload" "oe_action e = rr_action payload" "oe_actor e = sc_actor s"
    using service_resolve_audits by blast
  then show ?thesis
    using c r resolve_authorized [OF Inr, of now payload sv] assms by (intro disjI2 exI [of _ c] exI [of _ "sc_role s"] exI [of _ e]) simp
qed

definition sample_env :: auth_env where
  "sample_env = \<lparr>env_token = ''0123456789abcdef'', env_role = ''operator'', env_actor = ''alice''\<rparr>"

definition sample_config :: auth_config where
  "sample_config = \<lparr>ac_token = ''0123456789abcdef'', ac_role = ''operator'', ac_actor = ''alice''\<rparr>"

definition sample_request :: request where
  "sample_request = \<lparr>rq_authorization = Some ''Bearer 0123456789abcdef'', rq_correlation_id = Some ''c1''\<rparr>"

definition sample_service :: service where
  "sample_service = \<lparr>sv_queue = [Good sample_item], sv_audit = []\<rparr>"

lemma sample_configured: "configured sample_env None = Some sample_config"
  by code_simp

theorem only_operators_resolve_witness:
  "\<exists>res sv'. http_resolve 9 (control_plane sample_env ''u'' None) (sample_request\<lparr>rq_authorization := Some ''Bearer wrong''\<rparr>)
     \<lparr>rr_execution_id = ''e1'', rr_action = ''manual_review'', rr_reason = None\<rparr> sample_service = (res, sv')
     \<and> sv' = sample_service \<and> (res = Inl (HTTP 403) \<or> (\<exists>e. res = Inl (Unhandled e)))"
proof -
  let ?req = "sample_request\<lparr>rq_authorization := Some ''Bearer wrong''\<rparr>"
  let ?p = "\<lparr>rr_execution_id = ''e1'', rr_action = ''manual_review'', rr_reason = None\<rparr>"
  obtain res sv' where r: "http_resolve 9 (control_plane sample_env ''u'' None) ?req ?p sample_service = (res, sv')"
    by (cases "http_resolve 9 (control_plane sample_env ''u'' None) ?req ?p sample_service") auto
  have "\<not> entitled sample_config ?req" by code_simp
  with only_operators_resolve [OF r] sample_configured r show ?thesis by auto
qed

text \<open>
  What an authenticated caller may do follows its role. With the configured token, every role
  sees the open items; a viewer's resolve request is refused with 403 and changes nothing; an
  operator's or administrator's request for an open case succeeds and closes that case alone.
\<close>

theorem roles_govern_the_queue:
  assumes "configured env config = Some c" and "entitled c req" and "is_ascii (ac_token c)"
    and "length (correlation_id req uuid) \<le> 128" and "ac_role c = role_value r"
    and "queue_ok (sv_queue sv)" and "(x, a) \<in> open_cases (sv_queue sv)"
  shows "(\<exists>is. http_queue (control_plane env uuid config) req None sv = Inr is \<and> set (open_keys is) = open_cases (sv_queue sv))
    \<and> (\<exists>res sv'. http_resolve now (control_plane env uuid config) req \<lparr>rr_execution_id = x, rr_action = a, rr_reason = why\<rparr> sv
          = (res, sv')
        \<and> (if OPERATOR \<le> r then (\<exists>ok. res = Inr ok) \<and> open_cases (sv_queue sv') = open_cases (sv_queue sv) - {(x, a)}
           else res = Inl (HTTP 403) \<and> sv' = sv))"
proof -
  note auth = authenticate_entitled [OF assms(1-5)]
  obtain "is" where is_q: "read_lines (sv_queue sv) = Inr is" using queue_ok_read [OF assms(6)] by blast
  let ?open = "filter (\<lambda>i. \<not> qi_resolved i) is"
  have "http_queue (control_plane env uuid config) req None sv = Inr ?open"
    by (simp add: http_queue_def control_plane_context auth service_list_def queue_items_def is_q)
  moreover have "set (open_keys ?open) = open_cases (sv_queue sv)"
    by (simp add: open_cases_def is_q open_keys_def o_def)
  moreover obtain q where q: "queue_resolve x a (sv_queue sv) = (Inr True, q)"
    "open_cases q = open_cases (sv_queue sv) - {(x, a)}"
    using resolve_cases(1,3) [OF assms(6) prod.collapse [symmetric]] assms(7) by (intro that [of "snd (queue_resolve x a (sv_queue sv))"]) (auto simp: prod_eq_iff)
  moreover have "\<exists>res sv'. http_resolve now (control_plane env uuid config) req \<lparr>rr_execution_id = x, rr_action = a, rr_reason = why\<rparr> sv
      = (res, sv') \<and> (\<exists>ok. res = Inr ok) \<and> sv_queue sv' = q" if "OPERATOR \<le> r"
    using that by (simp add: http_resolve_def require_operator_plane auth service_resolve_def Let_def audit_operator_def q(1))
  moreover have "http_resolve now (control_plane env uuid config) req \<lparr>rr_execution_id = x, rr_action = a, rr_reason = why\<rparr> sv
      = (Inl (HTTP 403), sv)" if "\<not> OPERATOR \<le> r"
    using that by (simp add: http_resolve_def require_operator_plane auth)
  ultimately show ?thesis by (cases "OPERATOR \<le> r") (simp_all, fastforce)
qed

theorem roles_govern_the_queue_witness:
  "\<exists>res sv'. http_resolve 9 (control_plane sample_env ''u'' None) sample_request
     \<lparr>rr_execution_id = ''e1'', rr_action = ''manual_review'', rr_reason = None\<rparr> sample_service = (res, sv')
     \<and> (\<exists>ok. res = Inr ok) \<and> open_cases (sv_queue sv') = {}"
proof -
  have c: "open_cases (sv_queue sample_service) = {(''e1'', ''manual_review'')}" "queue_ok (sv_queue sample_service)"
    by (simp_all add: sample_service_def open_cases_def queue_ok_def sample_item_def new_item_def)
  have e: "entitled sample_config sample_request" "is_ascii (ac_token sample_config)"
    "ac_role sample_config = role_value OPERATOR" "length (correlation_id sample_request ''u'') \<le> 128"
    by code_simp+
  show ?thesis
    using roles_govern_the_queue [OF sample_configured e(1,2,4,3) c(2), of "''e1''" "''manual_review''" 9 None] c(1)
    by auto
qed

text \<open>
  A bearer token with a character outside ASCII is not refused but crashes the request: the
  comparison raises a \<^verbatim>\<open>TypeError\<close> that nothing handles, for every token of that kind and
  on every endpoint of the recovery router, where the documented answer is 403.
\<close>

theorem non_ascii_token_crashes:
  assumes "configured env config = Some c" and "rq_authorization req = Some (''Bearer '' @ t)" and "\<not> is_ascii t"
  shows "\<exists>e. exc_class e = TypeError \<and> http_queue (control_plane env uuid config) req action sv = Inl (Unhandled e)
    \<and> http_resolve now (control_plane env uuid config) req payload sv = (Inl (Unhandled e), sv)"
proof -
  have "(case config of Some c \<Rightarrow> Inr c | None \<Rightarrow> from_env env) = Inr c"
    using assms(1) by (auto simp: configured_def split: option.splits sum.splits)
  moreover have "bearer req = Some t" using assms(2) by (simp add: bearer_def opt_list_def)
  moreover have "t \<noteq> []" using assms(3) by (auto simp: is_ascii_def)
  ultimately have "authenticate env uuid config req = Inl (Exc TypeError ''comparing strings with non-ASCII characters is not supported'')"
    using assms(3) by (simp add: authenticate_def compare_digest_def)
  then show ?thesis
    by (simp add: http_queue_def http_resolve_def control_plane_context require_operator_plane)
qed

theorem non_ascii_token_crashes_witness:
  "\<exists>e. exc_class e = TypeError \<and> http_queue (control_plane sample_env ''u'' None)
     (sample_request\<lparr>rq_authorization := Some (''Bearer '' @ [CHR 0xE9])\<rparr>) None sample_service = Inl (Unhandled e)"
proof -
  let ?req = "sample_request\<lparr>rq_authorization := Some (''Bearer '' @ [CHR 0xE9])\<rparr>"
  have a: "rq_authorization ?req = Some (''Bearer '' @ [CHR 0xE9])" by simp
  have n: "\<not> is_ascii [CHR 0xE9]" by code_simp
  from non_ascii_token_crashes [OF sample_configured a n, of "''u''" None sample_service 9 undefined]
  show ?thesis by blast
qed

end
