(* ===== verification/Checkpoint.thy ===== *)
theory Checkpoint
  imports Store_Spec Lease
begin

text \<open>
  \<^verbatim>\<open>runtime/recovery_checkpoint.py\<close> and \<^verbatim>\<open>runtime/lease_aware_checkpoint.py\<close>: writing
  the progress of an execution by compare-and-set on the version the caller holds, and the adapter
  that first asks for a lease. The caller's state object is updated in place by a successful write, so
  the result is the object afterwards.
\<close>

section \<open>Plain checkpoints\<close>

definition cp_mark_running ::
    "host \<Rightarrow> time \<Rightarrow> exec_state \<Rightarrow> int \<Rightarrow> pyval \<Rightarrow> exec_store \<Rightarrow> exec_state result \<times> exec_store" where
  "cp_mark_running h now s attempt plan st =
     (let s1 = s\<lparr>es_status := ''running'', es_attempt := max 1 attempt\<rparr>;
          s2 = (if plan = VNone then s1 else s1\<lparr>es_plan := plan\<rparr>)
      in compare_and_set h now s2 (es_version s2) None None None st)"

definition cp_mark_completed ::
    "host \<Rightarrow> time \<Rightarrow> exec_state \<Rightarrow> pyval \<Rightarrow> exec_store \<Rightarrow> exec_state result \<times> exec_store" where
  "cp_mark_completed h now s res st =
     compare_and_set h now (s\<lparr>es_status := ''completed'', es_result := res, es_error := None\<rparr>)
       (es_version s) None None None st"

text \<open>The error is a text or absent; \<^verbatim>\<open>str(error)\<close> of a text is the text.\<close>

definition cp_mark_failed ::
    "host \<Rightarrow> time \<Rightarrow> exec_state \<Rightarrow> string option \<Rightarrow> exec_store \<Rightarrow> exec_state result \<times> exec_store" where
  "cp_mark_failed h now s error st =
     (case error of
        None \<Rightarrow> (Inl (Exc ValueError ''checkpoint failure requires an error''), st)
      | Some e \<Rightarrow>
          compare_and_set h now (s\<lparr>es_status := ''failed'', es_error := Some e\<rparr>)
            (es_version s) None None None st)"

section \<open>Lease-aware checkpoints\<close>

definition assert_owner ::
    "string \<Rightarrow> lease_file \<Rightarrow> time \<Rightarrow> string \<Rightarrow> int option \<Rightarrow> bool \<Rightarrow> int result" where
  "assert_owner owner leases now x fencing_token legacy_unpersisted =
     (if x = [] then Inl (Exc ValueError ''execution_id is required for lease-aware checkpointing'')
      else case (case fencing_token of
            Some t \<Rightarrow> Inr (Some t)
          | None \<Rightarrow>
              (if \<not> legacy_unpersisted then
                 Inl (Exc ValueError ''fencing_token is required for lease-aware checkpointing'')
               else case read_leases leases of
                 Inl e \<Rightarrow> Inl e
               | Inr d \<Rightarrow> Inr (case map_of d x of
                   None \<Rightarrow> None
                 | Some l \<Rightarrow> if ls_owner_id l = owner then Some (ls_fencing_token l) else None))) of
        Inl e \<Rightarrow> Inl e
      | Inr None \<Rightarrow> Inl (Exc RuntimeError ''lease is not owned'')
      | Inr (Some t) \<Rightarrow>
          (case is_owner x owner (Some t) now leases of
             Inl e \<Rightarrow> Inl e
           | Inr False \<Rightarrow> Inl (Exc RuntimeError ''lease is not owned'')
           | Inr True \<Rightarrow> Inr t))"

definition lease_check :: "string \<Rightarrow> lease_file \<Rightarrow> time \<Rightarrow> exec_state \<Rightarrow> int option \<Rightarrow> int result" where
  "lease_check owner leases now s fencing_token =
     assert_owner owner leases now (es_execution_id s) fencing_token (es_version s = 0)"

definition la_mark_running ::
    "host \<Rightarrow> string \<Rightarrow> lease_file \<Rightarrow> time \<Rightarrow> exec_state \<Rightarrow> int \<Rightarrow> pyval \<Rightarrow> int option \<Rightarrow> exec_store \<Rightarrow>
     exec_state result \<times> exec_store" where
  "la_mark_running h owner leases now s attempt plan fencing_token st =
     (case lease_check owner leases now s fencing_token of
        Inl e \<Rightarrow> (Inl e, st) | Inr _ \<Rightarrow> cp_mark_running h now s attempt plan st)"

definition la_mark_completed ::
    "host \<Rightarrow> string \<Rightarrow> lease_file \<Rightarrow> time \<Rightarrow> exec_state \<Rightarrow> pyval \<Rightarrow> int option \<Rightarrow> exec_store \<Rightarrow>
     exec_state result \<times> exec_store" where
  "la_mark_completed h owner leases now s res fencing_token st =
     (case lease_check owner leases now s fencing_token of
        Inl e \<Rightarrow> (Inl e, st) | Inr _ \<Rightarrow> cp_mark_completed h now s res st)"

definition la_mark_failed ::
    "host \<Rightarrow> string \<Rightarrow> lease_file \<Rightarrow> time \<Rightarrow> exec_state \<Rightarrow> string option \<Rightarrow> int option \<Rightarrow> exec_store \<Rightarrow>
     exec_state result \<times> exec_store" where
  "la_mark_failed h owner leases now s error fencing_token st =
     (case lease_check owner leases now s fencing_token of
        Inl e \<Rightarrow> (Inl e, st) | Inr _ \<Rightarrow> cp_mark_failed h now s error st)"

section \<open>When a write by version succeeds\<close>

lemma cas_succeeds:
  assumes "store_inv st" and "view (st_file st) x = Some p" and "es_execution_id s = x"
    and "es_version s = es_version p" and "can_transition (st_machine st) (es_status p) (es_status s)"
  obtains st' where
    "compare_and_set h now s (es_version s) None None None st =
       (Inr (s\<lparr>es_version := es_version s + 1, es_updated_at := now\<rparr>), st')"
    "store_inv st'" "st_machine st' = st_machine st"
    "view (st_file st') =
       (view (st_file st))(x \<mapsto> norm_state (s\<lparr>es_version := es_version s + 1, es_updated_at := now\<rparr>))"
proof -
  have f: "store_ok (st_file st)" using assms(1) by (simp add: store_inv_def)
  have p: "1 \<le> es_version p" using view_id [OF f assms(2)] by simp
  have ne: "x \<noteq> []" using assms(2) by (cases rule: store_lookup [OF f, of x]) auto
  let ?s = "s\<lparr>es_version := es_version s + 1, es_updated_at := now\<rparr>"
  have "spec_save (st_machine st) (view (st_file st)) now s (Some (es_version s)) True None None None = Inr ?s"
    using assms(2-5) ne
    by (simp add: spec_save_def map_version_def map_status_def validate_iff [THEN iffD2] Let_def)
  with save_refines [OF assms(1), of h now s "Some (es_version s)" True None None None]
  obtain st' where "save_unlocked h now s (Some (es_version s)) True None None None st = (Inr ?s, st')"
    "store_inv st'" "st_machine st' = st_machine st"
    "view (st_file st') = (view (st_file st))(x \<mapsto> norm_state ?s)"
    using assms(3) by auto
  with p assms(4) that show thesis by (simp add: compare_and_set_def)
qed

text \<open>Without a token, a checkpoint of a state that has ever been saved is refused.\<close>

lemma lease_check_persisted:
  assumes "es_execution_id s \<noteq> []" and "es_version s \<noteq> 0"
  shows "lease_check owner leases now s None =
     Inl (Exc ValueError ''fencing_token is required for lease-aware checkpointing'')"
  using assms by (simp add: lease_check_def assert_owner_def)

end
