(* ===== verification/Loop.thy ===== *)
theory Loop
  imports Checkpoint
begin

text \<open>
  \<^verbatim>\<open>runtime/replanning.py\<close> and \<^verbatim>\<open>runtime/autonomous_loop.py\<close> (with
  \<^verbatim>\<open>runtime/runtime_factory.py\<close>): the bounded loop that executes a plan, replans after failures
  and checkpoints its progress. The executor and the planner are parameters that may change the whole
  world. A loop without a store keeps its state in memory; with a store it has a checkpoint, so the
  branches of the code for a store without a checkpoint cannot be reached and are left out.
\<close>

section \<open>The replanning policy\<close>

record replan_decision =
  rp_retry :: bool
  rp_reason :: string
  rp_metadata :: pydict

definition policy_max :: "int \<Rightarrow> int" where
  "policy_max max_attempts = max 1 max_attempts"

definition replan_decide :: "int \<Rightarrow> int \<Rightarrow> string option \<Rightarrow> replan_decision" where
  "replan_decide max_attempts attempt error =
     (if attempt \<ge> max_attempts then
        \<lparr>rp_retry = False, rp_reason = ''retry_budget_exhausted'', rp_metadata = [(''attempt'', VInt attempt)]\<rparr>
      else
        \<lparr>rp_retry = True, rp_reason = ''execution_failure_requires_replan'',
         rp_metadata = [(''attempt'', VInt attempt), (''error'', opt_str error)]\<rparr>)"

type_synonym 's planner = "string \<Rightarrow> 's \<Rightarrow> pyval result \<times> 's"

definition replan_goal :: "string \<Rightarrow> int \<Rightarrow> string" where
  "replan_goal goal attempt = goal @ '' [replan attempt '' @ str_int attempt @ '']''"

text \<open>
  \<^verbatim>\<open>ReflectionReplanner.replan\<close>; \<open>remember\<close> is the memory's effect on the world (the
  identity when there is no memory).
\<close>

definition replan ::
    "'s planner \<Rightarrow> (pydict \<Rightarrow> 's \<Rightarrow> 's) \<Rightarrow> int \<Rightarrow> string \<Rightarrow> int \<Rightarrow> string option \<Rightarrow> 's \<Rightarrow>
     (replan_decision \<times> pyval) result \<times> 's" where
  "replan planner remember max_attempts goal attempt error s =
     (let d = replan_decide max_attempts attempt error;
          s1 = remember [(''goal'', VStr goal), (''attempt'', VInt attempt), (''error'', opt_str error)] s
      in if \<not> rp_retry d then (Inr (d, VNone), s1)
         else (let (r, s2) = planner (replan_goal goal (attempt + 1)) s1 in (map_sum id (\<lambda>plan. (d, plan)) r, s2)))"

section \<open>The loop\<close>

datatype checkpoint_kind = Plain | Lease_Aware string

record 'w lworld =
  lw_store :: exec_store
  lw_leases :: lease_file
  lw_world :: 'w

text \<open>The result of a step of the plan: a tool result or any other value.\<close>

datatype step_result = Tool_Step tool_result | Other_Step pyval

fun step_value :: "step_result \<Rightarrow> pyval" where
  "step_value (Tool_Step r) = tool_value r"
| "step_value (Other_Step v) = v"

definition first_failure :: "step_result list \<Rightarrow> tool_result option" where
  "first_failure rs =
     (case List.find (\<lambda>r. case r of Tool_Step t \<Rightarrow> \<not> tr_ok t | Other_Step _ \<Rightarrow> False) rs of
        Some (Tool_Step t) \<Rightarrow> Some t | _ \<Rightarrow> None)"

type_synonym 's plan_executor = "pyval \<Rightarrow> 's \<Rightarrow> step_result list result \<times> 's"

record 's loop_cfg =
  lc_store :: "checkpoint_kind option"
  lc_max_attempts :: int
  lc_executor :: "'s plan_executor"
  lc_planner :: "'s planner"
  lc_bus :: "'s bus option"

record loop_result =
  lr_status :: string
  lr_result :: "step_result list option"
  lr_attempts :: int

definition set_store :: "exec_state result \<times> exec_store \<Rightarrow> 'w lworld \<Rightarrow> exec_state result \<times> 'w lworld" where
  "set_store p w = (fst p, w\<lparr>lw_store := snd p\<rparr>)"

text \<open>
  \<^verbatim>\<open>_transition\<close>: the store's \<^verbatim>\<open>transition\<close>, which reads the current record; the
  caller's copy only names the execution. What comes back is copied into it.
\<close>

definition copy_back :: "exec_state \<Rightarrow> exec_state \<Rightarrow> exec_state" where
  "copy_back s u =
     s\<lparr>es_status := es_status u, es_version := es_version u, es_result := es_result u,
       es_error := es_error u, es_plan := es_plan u, es_attempt := es_attempt u\<rparr>"

definition loop_transition ::
    "host \<Rightarrow> 'w lworld loop_cfg \<Rightarrow> time \<Rightarrow> exec_state \<Rightarrow> string \<Rightarrow> state_update list \<Rightarrow> 'w lworld \<Rightarrow>
     exec_state result \<times> 'w lworld" where
  "loop_transition h cfg now s status updates w =
     (if lc_store cfg = None then (Inr (foldl apply_update (s\<lparr>es_status := status\<rparr>) updates), w)
      else (let (r, st) = transition h now (es_execution_id s) status updates (lw_store w)
            in (map_sum id (copy_back s) r, w\<lparr>lw_store := st\<rparr>)))"

definition checkpoint_running ::
    "host \<Rightarrow> 'w lworld loop_cfg \<Rightarrow> time \<Rightarrow> exec_state \<Rightarrow> int \<Rightarrow> pyval \<Rightarrow> 'w lworld \<Rightarrow>
     exec_state result \<times> 'w lworld" where
  "checkpoint_running h cfg now s attempt plan w =
     (let s1 = s\<lparr>es_attempt := attempt, es_plan := plan\<rparr> in
      case lc_store cfg of
        None \<Rightarrow> (Inr s, w)
      | Some Plain \<Rightarrow> set_store (cp_mark_running h now s1 attempt plan (lw_store w)) w
      | Some (Lease_Aware owner) \<Rightarrow>
          set_store (la_mark_running h owner (lw_leases w) now s1 attempt plan None (lw_store w)) w)"

definition checkpoint_completed ::
    "host \<Rightarrow> 'w lworld loop_cfg \<Rightarrow> time \<Rightarrow> exec_state \<Rightarrow> step_result list \<Rightarrow> 'w lworld \<Rightarrow>
     exec_state result \<times> 'w lworld" where
  "checkpoint_completed h cfg now s results w =
     (let v = VList (map step_value results) in
      case lc_store cfg of
        None \<Rightarrow> (Inr s, w)
      | Some Plain \<Rightarrow> set_store (cp_mark_completed h now s v (lw_store w)) w
      | Some (Lease_Aware owner) \<Rightarrow>
          set_store (la_mark_completed h owner (lw_leases w) now s v None (lw_store w)) w)"

definition checkpoint_failed ::
    "host \<Rightarrow> 'w lworld loop_cfg \<Rightarrow> time \<Rightarrow> exec_state \<Rightarrow> string option \<Rightarrow> 'w lworld \<Rightarrow>
     exec_state result \<times> 'w lworld" where
  "checkpoint_failed h cfg now s error w =
     (case lc_store cfg of
        None \<Rightarrow> (Inr s, w)
      | Some Plain \<Rightarrow> set_store (cp_mark_failed h now s error (lw_store w)) w
      | Some (Lease_Aware owner) \<Rightarrow>
          set_store (la_mark_failed h owner (lw_leases w) now s error None (lw_store w)) w)"

text \<open>
  One pass of the \<^verbatim>\<open>for\<close> loop, and the rest of it: \<open>n\<close> passes are left. \<open>clk a i\<close>
  is the instant of the \<open>i\<close>-th write of attempt \<open>a\<close>.
\<close>

definition goto_error :: "tool_result \<Rightarrow> string" where
  "goto_error r = (if opt_list (tr_error r) \<noteq> [] then opt_list (tr_error r) else ''tool execution failed'')"

fun attempts ::
    "host \<Rightarrow> 'w lworld loop_cfg \<Rightarrow> (int \<Rightarrow> nat \<Rightarrow> time) \<Rightarrow> exec_context \<Rightarrow> string \<Rightarrow> nat \<Rightarrow> int \<Rightarrow> exec_state \<Rightarrow>
     pyval \<Rightarrow> 'w lworld \<Rightarrow> loop_result result \<times> 'w lworld" where
  "attempts h cfg clk ctx goal 0 attempt s plan w =
     (let (r, w1) = checkpoint_failed h cfg (clk attempt 0) s (Some ''maximum attempts exceeded'') w
      in (map_sum id (\<lambda>_. \<lparr>lr_status = ''failed'', lr_result = None, lr_attempts = lc_max_attempts cfg\<rparr>) r, w1))"
| "attempts h cfg clk ctx goal (Suc n) attempt s plan w =
     (case checkpoint_running h cfg (clk attempt 0) s attempt plan w of
        (Inl e, w1) \<Rightarrow> (Inl e, w1)
      | (Inr s1, w1) \<Rightarrow>
         (case lc_executor cfg plan w1 of
            (Inl e, w2) \<Rightarrow> (Inl e, w2)
          | (Inr results, w2) \<Rightarrow>
             (case first_failure results of
                None \<Rightarrow>
                  (let (r, w3) = checkpoint_completed h cfg (clk attempt 1) s1 results w2
                   in (map_sum id (\<lambda>_. \<lparr>lr_status = ''completed'', lr_result = Some results, lr_attempts = attempt\<rparr>) r, w3))
              | Some failed \<Rightarrow>
                  (let d = replan_decide (lc_max_attempts cfg) attempt (Some (goto_error failed));
                       w3 = publish_opt (lc_bus cfg) REPLAN_REQUESTED ctx
                              [(''attempt'', VInt attempt), (''error'', opt_str (tr_error failed))] w2 in
                   if \<not> rp_retry d then
                     (let (r, w4) = checkpoint_failed h cfg (clk attempt 2) s1 (tr_error failed) w3
                      in (map_sum id (\<lambda>_. \<lparr>lr_status = ''failed'', lr_result = Some results, lr_attempts = attempt\<rparr>) r, w4))
                   else
                     (case loop_transition h cfg (clk attempt 3) s1 ''retrying''
                             [Set_Attempt attempt, Set_Error (tr_error failed)] w3 of
                        (Inl e, w4) \<Rightarrow> (Inl e, w4)
                      | (Inr s2, w4) \<Rightarrow>
                         (case lc_planner cfg (replan_goal goal (attempt + 1)) w4 of
                            (Inl e, w5) \<Rightarrow> (Inl e, w5)
                          | (Inr plan', w5) \<Rightarrow>
                             (case loop_transition h cfg (clk attempt 4) s2 ''running''
                                     [Set_Attempt (attempt + 1), Set_Plan plan', Set_Error None] w5 of
                                (Inl e, w6) \<Rightarrow> (Inl e, w6)
                              | (Inr s3, w6) \<Rightarrow>
                                  attempts h cfg clk ctx goal n (attempt + 1) s3 plan'
                                    (publish_opt (lc_bus cfg) REPLAN_COMPLETED ctx
                                       [(''attempt'', VInt (attempt + 1)), (''plan'', plan')] w6))))))))"

text \<open>
  \<^verbatim>\<open>_run_from_state\<close>: fetch or create the state, move it to running, and go through the attempts
  from \<^verbatim>\<open>max(1, start_attempt)\<close> up to the maximum.
\<close>

definition begin_state ::
    "host \<Rightarrow> 'w lworld loop_cfg \<Rightarrow> time \<Rightarrow> time \<Rightarrow> string \<Rightarrow> string \<Rightarrow> pyval \<Rightarrow> int \<Rightarrow> 'w lworld \<Rightarrow>
     exec_state result \<times> 'w lworld" where
  "begin_state h cfg now1 now2 x goal plan start_attempt w =
     (case (if lc_store cfg = None then Inr None else get_state now1 x (lw_store w)) of
        Inl e \<Rightarrow> (Inl e, w)
      | Inr None \<Rightarrow>
          (let s = (new_state x now1)\<lparr>es_goal := goal, es_plan := plan\<rparr> in
           if lc_store cfg = None then (Inr s, w) else set_store (save h now2 s (lw_store w)) w)
      | Inr (Some s) \<Rightarrow>
          (if es_status s = ''retrying'' \<or> es_status s = ''pending'' then
             loop_transition h cfg now2 s ''running'' [Set_Attempt (max 1 start_attempt), Set_Plan plan] w
           else if es_status s \<noteq> ''running'' then
             (Inl (Exc ValueError (''execution cannot run from '' @ es_status s)), w)
           else (Inr s, w)))"

definition run_from_state ::
    "host \<Rightarrow> 'w lworld loop_cfg \<Rightarrow> time \<Rightarrow> time \<Rightarrow> (int \<Rightarrow> nat \<Rightarrow> time) \<Rightarrow> exec_context \<Rightarrow> string \<Rightarrow> pyval \<Rightarrow> int \<Rightarrow>
     'w lworld \<Rightarrow> loop_result result \<times> 'w lworld" where
  "run_from_state h cfg now1 now2 clk ctx goal plan start_attempt w =
     (case begin_state h cfg now1 now2 (ctx_execution_id ctx) goal plan start_attempt w of
        (Inl e, w1) \<Rightarrow> (Inl e, w1)
      | (Inr s, w1) \<Rightarrow>
          (let first = max 1 start_attempt
           in attempts h cfg clk ctx goal (nat (lc_max_attempts cfg + 1 - first)) first s plan w1))"

definition loop_run ::
    "host \<Rightarrow> 'w lworld loop_cfg \<Rightarrow> time \<Rightarrow> time \<Rightarrow> (int \<Rightarrow> nat \<Rightarrow> time) \<Rightarrow> exec_context \<Rightarrow> string \<Rightarrow>
     'w lworld \<Rightarrow> loop_result result \<times> 'w lworld" where
  "loop_run h cfg now1 now2 clk ctx goal w =
     (case lc_planner cfg goal w of
        (Inl e, w1) \<Rightarrow> (Inl e, w1)
      | (Inr plan, w1) \<Rightarrow> run_from_state h cfg now1 now2 clk ctx goal plan 0 w1)"

definition loop_resume ::
    "host \<Rightarrow> 'w lworld loop_cfg \<Rightarrow> time \<Rightarrow> time \<Rightarrow> time \<Rightarrow> (int \<Rightarrow> nat \<Rightarrow> time) \<Rightarrow> string \<Rightarrow> pydict \<Rightarrow> string \<Rightarrow>
     'w lworld \<Rightarrow> loop_result result \<times> 'w lworld" where
  "loop_resume h cfg now0 now1 now2 clk agent_id metadata x w =
     (if lc_store cfg = None then (Inl (Exc RuntimeError ''execution store is required for resume''), w)
      else case get_state now0 x (lw_store w) of
        Inl e \<Rightarrow> (Inl e, w)
      | Inr (Some s) \<Rightarrow>
          (if es_status s = ''running'' \<or> es_status s = ''retrying'' then
             run_from_state h cfg now1 now2 clk (new_context (es_execution_id s) agent_id (es_goal s) metadata)
               (es_goal s) (es_plan s) (es_attempt s) w
           else (Inl (Exc ValueError ''execution is not resumable''), w))
      | Inr None \<Rightarrow> (Inl (Exc ValueError ''execution is not resumable''), w))"

text \<open>\<^verbatim>\<open>runtime_factory.build_execution_loop\<close>: always with a lease-aware checkpoint.\<close>

definition build_execution_loop ::
    "'w lworld plan_executor \<Rightarrow> 'w lworld planner \<Rightarrow> string \<Rightarrow> int option \<Rightarrow> 'w lworld bus option \<Rightarrow> 'w lworld loop_cfg" where
  "build_execution_loop executor planner owner policy bus =
     \<lparr>lc_store = Some (Lease_Aware owner),
      lc_max_attempts = policy_max (case policy of None \<Rightarrow> 2 | Some n \<Rightarrow> n),
      lc_executor = executor, lc_planner = planner, lc_bus = bus\<rparr>"

end
