(* ===== verification/Recovery.thy ===== *)
theory Recovery
  imports Commit_Spec Loop Operator_Queue
begin

text \<open>
  \<^verbatim>\<open>runtime/recovery_outcome.py\<close>, \<^verbatim>\<open>runtime/recovery_manager.py\<close> and
  \<^verbatim>\<open>runtime/recovery_orchestrator.py\<close>: after a restart, journaled commits are reconciled
  first, and then each resumable execution is resumed under its lease, one after the other, with the
  failure of one not touching the others. What resuming an execution does is a parameter.
\<close>

section \<open>Outcomes\<close>

record recovery_outcome =
  ro_execution_id :: string
  ro_status :: string

definition OUTCOME_STATUSES :: "string list" where
  "OUTCOME_STATUSES = [''recovered'', ''skipped_by_lease'', ''failed'', ''stale'']"

definition new_outcome :: "string \<Rightarrow> string \<Rightarrow> recovery_outcome result" where
  "new_outcome x status =
     (if x = [] then Inl (Exc ValueError ''execution_id must be a non-empty string'')
      else if \<not> List.member OUTCOME_STATUSES status then Inl (Exc ValueError ''unsupported recovery status'')
      else Inr \<lparr>ro_execution_id = x, ro_status = status\<rparr>)"

text \<open>Comparison with the pair of the older interface, which said \<^verbatim>\<open>resumed\<close>.\<close>

definition outcome_eq_pair :: "recovery_outcome \<Rightarrow> string \<times> string \<Rightarrow> bool" where
  "outcome_eq_pair r p \<longleftrightarrow>
     (ro_execution_id r, if ro_status r = ''recovered'' then ''resumed'' else ro_status r) = p"

text \<open>Comparison of two outcomes, and the value whose hash is the hash of an outcome.\<close>

definition outcome_eq :: "recovery_outcome \<Rightarrow> recovery_outcome \<Rightarrow> bool" where
  "outcome_eq r s \<longleftrightarrow> (ro_execution_id r, ro_status r) = (ro_execution_id s, ro_status s)"

definition outcome_hash_key :: "recovery_outcome \<Rightarrow> string \<times> string" where
  "outcome_hash_key r = (ro_execution_id r, ro_status r)"

text \<open>
  Equal outcomes have one hash key; but a recovered outcome equals the older interface's pair while its
  hash is that of another pair, so a set or dictionary that holds one does not find the other.
\<close>

lemma outcome_hash_splits:
  "outcome_eq r s \<Longrightarrow> outcome_hash_key r = outcome_hash_key s"
  "ro_status r = ''recovered'' \<Longrightarrow>
     outcome_eq_pair r (ro_execution_id r, ''resumed'') \<and> outcome_hash_key r \<noteq> (ro_execution_id r, ''resumed'')"
  by (simp_all add: outcome_eq_def outcome_hash_key_def outcome_eq_pair_def)

definition outcome_dict :: "recovery_outcome \<Rightarrow> pydict" where
  "outcome_dict r = [(''execution_id'', VStr (ro_execution_id r)), (''status'', VStr (ro_status r))]"

section \<open>The manager\<close>

record manager =
  rm_ttl :: int
  rm_leases :: bool
  rm_owner :: "string option"

definition new_manager :: "int \<Rightarrow> bool \<Rightarrow> string option \<Rightarrow> manager result" where
  "new_manager ttl has_leases owner =
     (if \<not> has_leases \<noteq> (owner = None) then
        Inl (Exc ValueError ''lease_store and owner_id must be provided together'')
      else Inr \<lparr>rm_ttl = ttl, rm_leases = has_leases, rm_owner = owner\<rparr>)"

text \<open>What the manager resumes: an object with \<^verbatim>\<open>resume\<close>, or only with \<^verbatim>\<open>run\<close>.\<close>

record 's recoverable =
  rl_resume :: "(string \<Rightarrow> 's \<Rightarrow> unit result \<times> 's) option"
  rl_run :: "string \<Rightarrow> 's \<Rightarrow> unit result \<times> 's"

definition resume_with :: "'s recoverable \<Rightarrow> exec_state \<Rightarrow> 's \<Rightarrow> unit result \<times> 's" where
  "resume_with loop s w =
     (case rl_resume loop of Some f \<Rightarrow> f (es_execution_id s) w | None \<Rightarrow> rl_run loop (es_goal s) w)"

definition rm_is_owner :: "manager \<Rightarrow> time \<Rightarrow> string \<Rightarrow> int option \<Rightarrow> lease_file \<Rightarrow> bool result" where
  "rm_is_owner m now x tok leases = is_owner x (opt_list (rm_owner m)) tok now leases"

text \<open>
  \<^verbatim>\<open>mark_failed\<close>. The result is \<open>None\<close> for \<^verbatim>\<open>return False\<close>. The second
  instant is that of the store's locked section, where the validator looks at the lease again.
\<close>

definition rm_mark_failed ::
    "host \<Rightarrow> manager \<Rightarrow> time \<Rightarrow> time \<Rightarrow> exec_state \<Rightarrow> string \<Rightarrow> lease option \<Rightarrow> 'w lworld \<Rightarrow>
     exec_state option result \<times> 'w lworld" where
  "rm_mark_failed h m now1 now2 s err lease w =
     (let u = s\<lparr>es_status := ''failed'', es_error := Some err\<rparr>;
          write = (\<lambda>tok val. let (r, st) = compare_and_set h now2 u (es_version s) None tok val (lw_store w)
                             in (map_sum id Some r, w\<lparr>lw_store := st\<rparr>))
      in case lease of
           None \<Rightarrow> write None None
         | Some l \<Rightarrow>
             (if \<not> rm_leases m then (Inr None, w)
              else case rm_is_owner m now1 (es_execution_id s) (Some (ls_fencing_token l)) (lw_leases w) of
                Inl e \<Rightarrow> (Inl e, w)
              | Inr False \<Rightarrow> (Inr None, w)
              | Inr True \<Rightarrow>
                  write (Some (ls_fencing_token l)) (Some (\<lambda>x tok. rm_is_owner m now2 x tok (lw_leases w)))))"

text \<open>
  The body of the \<^verbatim>\<open>try\<close>: check the lease, resume, check the lease again. \<open>False\<close> is
  the branch that finds the lease lost before it resumes.
\<close>

definition rm_attempt ::
    "manager \<Rightarrow> (nat \<Rightarrow> time) \<Rightarrow> 'w lworld recoverable \<Rightarrow> exec_state \<Rightarrow> lease option \<Rightarrow> 'w lworld \<Rightarrow>
     bool result \<times> 'w lworld" where
  "rm_attempt m clk loop s lease w =
     (let resume = (\<lambda>w. let (r, w1) = resume_with loop s w in (map_sum id (\<lambda>_. True) r, w1)) in
      case lease of
        None \<Rightarrow> resume w
      | Some l \<Rightarrow>
         (case rm_is_owner m (clk 1) (es_execution_id s) (Some (ls_fencing_token l)) (lw_leases w) of
            Inl e \<Rightarrow> (Inl e, w)
          | Inr False \<Rightarrow> (Inr False, w)
          | Inr True \<Rightarrow>
             (case resume w of
                (Inl e, w1) \<Rightarrow> (Inl e, w1)
              | (Inr _, w1) \<Rightarrow>
                 (case rm_is_owner m (clk 2) (es_execution_id s) (Some (ls_fencing_token l)) (lw_leases w1) of
                    Inl e \<Rightarrow> (Inl e, w1)
                  | Inr False \<Rightarrow> (Inl (Exc ExecutionFencingConflictError (''execution lease fenced: '' @ es_execution_id s)), w1)
                  | Inr True \<Rightarrow> (Inr True, w1)))))"

text \<open>
  The \<^verbatim>\<open>except\<close> clauses: the status of the outcome, and the exception to raise again when
  the caller does not want to continue. An exception outside \<^verbatim>\<open>Exception\<close> passes.
\<close>

definition rm_settle ::
    "host \<Rightarrow> manager \<Rightarrow> (nat \<Rightarrow> time) \<Rightarrow> exec_state \<Rightarrow> lease option \<Rightarrow> bool result \<times> 'w lworld \<Rightarrow>
     (string \<times> exc option) result \<times> 'w lworld" where
  "rm_settle h m clk s lease p =
     (case p of
        (Inr True, w) \<Rightarrow> (Inr (''recovered'', None), w)
      | (Inr False, w) \<Rightarrow> (Inr (''skipped_by_lease'', None), w)
      | (Inl e, w) \<Rightarrow>
         (if isinst e [ExecutionFencingConflictError] then (Inr (''stale'', Some e), w)
          else if isinst e [PyException] then
            (case rm_mark_failed h m (clk 3) (clk 4) s (exc_msg e) lease w of
               (Inl e', w1) \<Rightarrow>
                 (if isinst e' [ExecutionVersionConflictError, ExecutionFencingConflictError]
                  then (Inr (''stale'', Some e), w1) else (Inl e', w1))
             | (Inr None, w1) \<Rightarrow> (Inr (''stale'', Some e), w1)
             | (Inr (Some _), w1) \<Rightarrow> (Inr (''failed'', Some e), w1))
          else (Inl e, w)))"

definition rm_release :: "manager \<Rightarrow> time \<Rightarrow> string \<Rightarrow> lease option \<Rightarrow> 'w lworld \<Rightarrow> 'w lworld" where
  "rm_release m now x lease w =
     (case lease of
        None \<Rightarrow> w
      | Some l \<Rightarrow> w\<lparr>lw_leases := snd (release x (opt_list (rm_owner m)) (Some (ls_fencing_token l)) now (lw_leases w))\<rparr>)"

definition rm_leased ::
    "host \<Rightarrow> manager \<Rightarrow> (nat \<Rightarrow> time) \<Rightarrow> 'w lworld recoverable \<Rightarrow> exec_state \<Rightarrow> lease option \<Rightarrow> 'w lworld \<Rightarrow>
     (recovery_outcome \<times> exc option) result \<times> 'w lworld" where
  "rm_leased h m clk loop s lease w =
     (let (r, w1) = rm_settle h m clk s lease (rm_attempt m clk loop s lease w);
          w2 = rm_release m (clk 5) (es_execution_id s) lease w1
      in case r of
           Inl e \<Rightarrow> (Inl e, w2)
         | Inr (status, e) \<Rightarrow> (map_sum id (\<lambda>o1. (o1, e)) (new_outcome (es_execution_id s) status), w2))"

definition rm_recover_one ::
    "host \<Rightarrow> manager \<Rightarrow> (nat \<Rightarrow> time) \<Rightarrow> 'w lworld recoverable \<Rightarrow> exec_state \<Rightarrow> 'w lworld \<Rightarrow>
     (recovery_outcome \<times> exc option) result \<times> 'w lworld" where
  "rm_recover_one h m clk loop s w =
     (if \<not> rm_leases m then rm_leased h m clk loop s None w
      else let (r, f) = acquire (rm_ttl m) (es_execution_id s) (opt_list (rm_owner m)) (clk 0) (lw_leases w);
               w0 = w\<lparr>lw_leases := f\<rparr>
           in case r of
                Inl e \<Rightarrow> (Inl e, w0)
              | Inr None \<Rightarrow>
                  (map_sum id (\<lambda>o1. (o1, None)) (new_outcome (es_execution_id s) ''skipped_by_lease''), w0)
              | Inr (Some l) \<Rightarrow> rm_leased h m clk loop s (Some l) w0)"

fun rm_recover_list ::
    "host \<Rightarrow> manager \<Rightarrow> (nat \<Rightarrow> nat \<Rightarrow> time) \<Rightarrow> 'w lworld recoverable \<Rightarrow> bool \<Rightarrow> nat \<Rightarrow> exec_state list \<Rightarrow>
     'w lworld \<Rightarrow> recovery_outcome list result \<times> 'w lworld" where
  "rm_recover_list h m clk loop continue_on_error n [] w = (Inr [], w)"
| "rm_recover_list h m clk loop continue_on_error n (s # ss) w =
     (case rm_recover_one h m (clk n) loop s w of
        (Inl e, w1) \<Rightarrow> (Inl e, w1)
      | (Inr (o1, err), w1) \<Rightarrow>
         (if err \<noteq> None \<and> \<not> continue_on_error then (Inl (the err), w1)
          else let (r, w2) = rm_recover_list h m clk loop continue_on_error (Suc n) ss w1
               in (map_sum id (Cons o1) r, w2)))"

definition rm_recover ::
    "host \<Rightarrow> manager \<Rightarrow> time \<Rightarrow> (nat \<Rightarrow> nat \<Rightarrow> time) \<Rightarrow> 'w lworld recoverable \<Rightarrow> bool \<Rightarrow> 'w lworld \<Rightarrow>
     recovery_outcome list result \<times> 'w lworld" where
  "rm_recover h m now clk loop continue_on_error w =
     (case resumable now (lw_store w) of
        Inl e \<Rightarrow> (Inl e, w)
      | Inr ss \<Rightarrow> rm_recover_list h m clk loop continue_on_error 0 ss w)"

text \<open>The autonomous loop as what is resumed; \<open>uid\<close> is the identity of a fresh context.\<close>

definition loop_recoverable ::
    "host \<Rightarrow> 'w lworld loop_cfg \<Rightarrow> time \<Rightarrow> time \<Rightarrow> time \<Rightarrow> (int \<Rightarrow> nat \<Rightarrow> time) \<Rightarrow> string \<Rightarrow> string \<Rightarrow> pydict \<Rightarrow>
     'w lworld recoverable" where
  "loop_recoverable h cfg now0 now1 now2 clk uid agent_id metadata =
     \<lparr>rl_resume = Some (\<lambda>x w. let (r, w') = loop_resume h cfg now0 now1 now2 clk agent_id metadata x w
                           in (map_sum id (\<lambda>_. ()) r, w')),
      rl_run = (\<lambda>goal w. let (r, w') = loop_run h cfg now1 now2 clk (new_context uid agent_id goal metadata) goal w
                        in (map_sum id (\<lambda>_. ()) r, w'))\<rparr>"

section \<open>The orchestrator\<close>

text \<open>The files of the commit coordinator beside the store and the leases, and the operators' queue.\<close>

record 'w files =
  fl_journal :: journal_file
  fl_quarantine :: quarantine_file
  fl_audit :: audit_file
  fl_queue :: queue_file
  fl_world :: 'w

definition coord_of :: "'w files lworld \<Rightarrow> coord" where
  "coord_of w = \<lparr>co_store = lw_store w, co_leases = lw_leases w, co_journal = fl_journal (lw_world w),
     co_quarantine = fl_quarantine (lw_world w), co_audit = fl_audit (lw_world w)\<rparr>"

definition put_coord :: "coord \<Rightarrow> 'w files lworld \<Rightarrow> 'w files lworld" where
  "put_coord c w = w\<lparr>lw_store := co_store c, lw_leases := co_leases c,
     lw_world := (lw_world w)\<lparr>fl_journal := co_journal c, fl_quarantine := co_quarantine c, fl_audit := co_audit c\<rparr>\<rparr>"

record orchestrator_report =
  or_reconciled :: "string list"
  or_outcomes :: "recovery_outcome list"

definition or_count :: "string \<Rightarrow> orchestrator_report \<Rightarrow> nat" where
  "or_count status r = length (filter (\<lambda>i. ro_status i = status) (or_outcomes r))"

definition reconcile_commits ::
    "host \<Rightarrow> coord_cfg option \<Rightarrow> (nat \<Rightarrow> time) \<Rightarrow> 'w files lworld \<Rightarrow> string list result \<times> 'w files lworld" where
  "reconcile_commits h coordinator clk w =
     (case coordinator of
        None \<Rightarrow> (Inr [], w)
      | Some cfg \<Rightarrow> (let (r, c) = reconcile h cfg clk (coord_of w) in (r, put_coord c w)))"

definition orchestrator_recover ::
    "host \<Rightarrow> manager \<Rightarrow> coord_cfg option \<Rightarrow> (nat \<Rightarrow> time) \<Rightarrow> time \<Rightarrow> (nat \<Rightarrow> nat \<Rightarrow> time) \<Rightarrow>
     'w files lworld recoverable \<Rightarrow> bool \<Rightarrow> 'w files lworld \<Rightarrow> orchestrator_report result \<times> 'w files lworld" where
  "orchestrator_recover h m coordinator rclk now clk loop continue_on_error w =
     (case reconcile_commits h coordinator rclk w of
        (Inl e, w1) \<Rightarrow> (Inl e, w1)
      | (Inr reconciled, w1) \<Rightarrow>
          (let (r, w2) = rm_recover h m now clk loop continue_on_error w1
           in (map_sum id (\<lambda>os. \<lparr>or_reconciled = reconciled, or_outcomes = os\<rparr>) r, w2)))"

end
