(* ===== verification/Bootstrap.thy ===== *)
theory Bootstrap
  imports Recovery Reconciliation
begin

text \<open>
  \<^verbatim>\<open>runtime/runtime_bootstrap.py\<close>: startup recovery that asks the recovery policy about
  each resumable execution, queues the exhausted ones for an operator, and resumes the others under a
  lease that a heartbeat keeps alive. What is resumed is a coroutine; it and the heartbeat interleave
  as a schedule says, and a schedule that ends too early leaves the run unfinished (\<open>None\<close>).
\<close>

section \<open>Supervised coroutines\<close>

text \<open>
  A coroutine has finished, or is suspended at an \<^verbatim>\<open>await\<close>: it can go on to its next
  suspension, or be cancelled there, which runs its handlers to the end.
\<close>

datatype (dead 's) task =
    Done "unit result"
  | Await "'s \<Rightarrow> 's task \<times> 's" "'s \<Rightarrow> unit result \<times> 's"

text \<open>What the event loop runs next: the coroutine, or a heartbeat with its two clock readings.\<close>

datatype beat = Segment | Beat time time

definition heartbeat ::
    "int \<Rightarrow> string \<Rightarrow> string \<Rightarrow> int option \<Rightarrow> time \<Rightarrow> time \<Rightarrow> lease_file \<Rightarrow> unit result \<times> lease_file" where
  "heartbeat ttl owner x tok now1 now2 f =
     (case renew ttl x owner tok now1 f of
        (Inl e, f1) \<Rightarrow> (Inl e, f1)
      | (Inr None, f1) \<Rightarrow> (Inl (Exc RuntimeError (''execution lease lost: '' @ x)), f1)
      | (Inr (Some _), f1) \<Rightarrow>
          (if tok = None then (Inr (), f1)
           else case is_owner x owner tok now2 f1 of
             Inl e \<Rightarrow> (Inl e, f1)
           | Inr False \<Rightarrow> (Inl (Exc RuntimeError (''execution lease fenced: '' @ x)), f1)
           | Inr True \<Rightarrow> (Inr (), f1)))"

definition final_check :: "string \<Rightarrow> string \<Rightarrow> int option \<Rightarrow> time \<Rightarrow> lease_file \<Rightarrow> unit result" where
  "final_check owner x tok now f =
     (if tok = None then Inr ()
      else case is_owner x owner tok now f of
        Inl e \<Rightarrow> Inl e
      | Inr False \<Rightarrow> Inl (Exc RuntimeError (''execution lease fenced: '' @ x))
      | Inr True \<Rightarrow> Inr ())"

text \<open>
  The coroutine and the heartbeat race. A failing heartbeat cancels the coroutine and its exception
  is raised, unless the coroutine ends with another one than the cancellation. The heartbeat may still
  run after the coroutine has finished and before the supervisor notices.
\<close>

definition fail_closed :: "exc \<Rightarrow> unit result \<Rightarrow> unit result" where
  "fail_closed e r =
     (case r of Inl e' \<Rightarrow> if isinst e' [CancelledError] then Inl e else Inl e' | Inr _ \<Rightarrow> Inl e)"

fun supervise ::
    "int \<Rightarrow> string \<Rightarrow> string \<Rightarrow> int option \<Rightarrow> time \<Rightarrow> beat list \<Rightarrow> 'w lworld task \<Rightarrow> 'w lworld \<Rightarrow>
     (unit result \<times> 'w lworld) option" where
  "supervise ttl owner x tok now (Beat now1 now2 # es) (Done r) w =
     (case heartbeat ttl owner x tok now1 now2 (lw_leases w) of
        (Inr _, f) \<Rightarrow> supervise ttl owner x tok now es (Done r) (w\<lparr>lw_leases := f\<rparr>)
      | (Inl e, f) \<Rightarrow> Some (fail_closed e r, w\<lparr>lw_leases := f\<rparr>))"
| "supervise ttl owner x tok now es (Done r) w =
     (case r of Inl e \<Rightarrow> Some (Inl e, w) | Inr _ \<Rightarrow> Some (final_check owner x tok now (lw_leases w), w))"
| "supervise ttl owner x tok now [] (Await go cancel) w = None"
| "supervise ttl owner x tok now (Segment # es) (Await go cancel) w =
     (let (t, w1) = go w in supervise ttl owner x tok now es t w1)"
| "supervise ttl owner x tok now (Beat now1 now2 # es) (Await go cancel) w =
     (case heartbeat ttl owner x tok now1 now2 (lw_leases w) of
        (Inr _, f) \<Rightarrow> supervise ttl owner x tok now es (Await go cancel) (w\<lparr>lw_leases := f\<rparr>)
      | (Inl e, f) \<Rightarrow> (let (r, w1) = cancel (w\<lparr>lw_leases := f\<rparr>) in Some (fail_closed e r, w1)))"

text \<open>\<^verbatim>\<open>_run_with_heartbeat\<close>: a result that is no awaitable has already run.\<close>

definition run_with_heartbeat ::
    "int \<Rightarrow> string \<Rightarrow> string \<Rightarrow> int option \<Rightarrow> time \<Rightarrow> beat list \<Rightarrow> 'w lworld task option \<Rightarrow> 'w lworld \<Rightarrow>
     (unit result \<times> 'w lworld) option" where
  "run_with_heartbeat ttl owner x tok now es result w =
     (case result of
        None \<Rightarrow> Some (final_check owner x tok now (lw_leases w), w)
      | Some t \<Rightarrow> supervise ttl owner x tok now es t w)"

section \<open>Startup recovery\<close>

record bootstrap =
  bt_ttl :: int
  bt_owner :: string
  bt_manager :: manager
  bt_policy_max :: int
  bt_coordinator :: "coord_cfg option"

text \<open>\<^verbatim>\<open>RecoveryManager(self.store)\<close>, when no manager is given.\<close>

definition default_manager :: manager where
  "default_manager = \<lparr>rm_ttl = 60, rm_leases = False, rm_owner = None\<rparr>"

record boot_report =
  br_discovered :: nat
  br_attempted :: nat
  br_recovered :: nat
  br_failed :: nat
  br_skipped :: nat
  br_reconciled :: nat
  br_reconciliation_failed :: nat
  br_retried :: nat
  br_quarantined :: nat
  br_manual_review :: nat

record counts =
  ct_recovered :: nat
  ct_failed :: nat
  ct_skipped :: nat
  ct_retried :: nat
  ct_quarantined :: nat
  ct_manual_review :: nat

definition no_counts :: counts where
  "no_counts = \<lparr>ct_recovered = 0, ct_failed = 0, ct_skipped = 0, ct_retried = 0, ct_quarantined = 0, ct_manual_review = 0\<rparr>"

definition boot_reconcile ::
    "host \<Rightarrow> coord_cfg option \<Rightarrow> (nat \<Rightarrow> time) \<Rightarrow> 'w files lworld \<Rightarrow> (nat \<times> nat) \<times> 'w files lworld" where
  "boot_reconcile h coordinator clk w =
     (case reconcile_commits h coordinator clk w of
        (Inr is, w1) \<Rightarrow> ((length is, 0), w1)
      | (Inl e, w1) \<Rightarrow> ((0, 1), w1))"

type_synonym 'w resume_fun = "exec_state \<Rightarrow> 'w files lworld \<Rightarrow> 'w files lworld task option result \<times> 'w files lworld"

text \<open>The body of the \<^verbatim>\<open>try\<close>; \<open>False\<close> is the branch that skips.\<close>

definition boot_try ::
    "bootstrap \<Rightarrow> (nat \<Rightarrow> time) \<Rightarrow> beat list \<Rightarrow> 'w resume_fun \<Rightarrow> exec_state \<Rightarrow> lease \<Rightarrow> 'w files lworld \<Rightarrow>
     (bool result \<times> 'w files lworld) option" where
  "boot_try b clk es resume s l w =
     (let x = es_execution_id s; tok = Some (ls_fencing_token l) in
      case is_owner x (bt_owner b) tok (clk 1) (lw_leases w) of
        Inl e \<Rightarrow> Some (Inl e, w)
      | Inr False \<Rightarrow> Some (Inr False, w)
      | Inr True \<Rightarrow>
         (case resume s w of
            (Inl e, w1) \<Rightarrow> Some (Inl e, w1)
          | (Inr result, w1) \<Rightarrow>
              map_option (map_prod (map_sum id (\<lambda>_. True)) id)
                (run_with_heartbeat (bt_ttl b) (bt_owner b) x tok (clk 2) es result w1)))"

text \<open>
  The \<^verbatim>\<open>except\<close> and the \<^verbatim>\<open>finally\<close>. What \<^verbatim>\<open>mark_failed\<close> or
  \<^verbatim>\<open>release\<close> raise is not caught.
\<close>

definition boot_handle ::
    "host \<Rightarrow> bootstrap \<Rightarrow> (nat \<Rightarrow> time) \<Rightarrow> exec_state \<Rightarrow> lease \<Rightarrow> bool result \<times> 'w files lworld \<Rightarrow>
     counts result \<times> 'w files lworld \<Rightarrow> counts result \<times> 'w files lworld" where
  "boot_handle h b clk s l p c =
     (case p of
        (Inr True, w) \<Rightarrow> (map_sum id (\<lambda>c. c\<lparr>ct_recovered := ct_recovered c + 1\<rparr>) (fst c), w)
      | (Inr False, w) \<Rightarrow> (map_sum id (\<lambda>c. c\<lparr>ct_skipped := ct_skipped c + 1\<rparr>) (fst c), w)
      | (Inl e, w) \<Rightarrow>
         (if \<not> isinst e [PyException] then (Inl e, w)
          else case rm_mark_failed h (bt_manager b) (clk 3) (clk 4) s (exc_msg e) (Some l) w of
            (Inl e', w1) \<Rightarrow> (Inl e', w1)
          | (Inr _, w1) \<Rightarrow> (map_sum id (\<lambda>c. c\<lparr>ct_failed := ct_failed c + 1\<rparr>) (fst c), w1)))"

definition boot_finally ::
    "bootstrap \<Rightarrow> (nat \<Rightarrow> time) \<Rightarrow> exec_state \<Rightarrow> lease \<Rightarrow> counts result \<times> 'w files lworld \<Rightarrow> counts result \<times> 'w files lworld" where
  "boot_finally b clk s l p =
     (let (r, f) = release (es_execution_id s) (bt_owner b) (Some (ls_fencing_token l)) (clk 5) (lw_leases (snd p))
      in (case r of Inl e \<Rightarrow> Inl e | Inr _ \<Rightarrow> fst p, (snd p)\<lparr>lw_leases := f\<rparr>))"

definition boot_retry ::
    "host \<Rightarrow> bootstrap \<Rightarrow> (nat \<Rightarrow> time) \<Rightarrow> beat list \<Rightarrow> 'w resume_fun \<Rightarrow> exec_state \<Rightarrow> counts \<Rightarrow> 'w files lworld \<Rightarrow>
     (counts result \<times> 'w files lworld) option" where
  "boot_retry h b clk es resume s c w =
     (let c = c\<lparr>ct_retried := ct_retried c + 1\<rparr> in
      case acquire (bt_ttl b) (es_execution_id s) (bt_owner b) (clk 0) (lw_leases w) of
        (Inl e, f) \<Rightarrow> Some (Inl e, w\<lparr>lw_leases := f\<rparr>)
      | (Inr None, f) \<Rightarrow> Some (Inr (c\<lparr>ct_skipped := ct_skipped c + 1\<rparr>), w\<lparr>lw_leases := f\<rparr>)
      | (Inr (Some l), f) \<Rightarrow>
          map_option (\<lambda>p. boot_finally b clk s l (boot_handle h b clk s l p (Inr c, snd p)))
            (boot_try b clk es resume s l (w\<lparr>lw_leases := f\<rparr>)))"

definition boot_queue ::
    "(nat \<Rightarrow> time) \<Rightarrow> exec_state \<Rightarrow> recovery_decision \<Rightarrow> 'w files lworld \<Rightarrow> queue_item result \<times> 'w files lworld" where
  "boot_queue clk s d w =
     (let (r, f) = enqueue (new_item (es_execution_id s) (action_value (rd_action d)) (rd_reason d) (es_attempt s)
                             (es_correlation_id s) (clk 6)) (fl_queue (lw_world w))
      in (r, w\<lparr>lw_world := (lw_world w)\<lparr>fl_queue := f\<rparr>\<rparr>))"

definition boot_one ::
    "host \<Rightarrow> bootstrap \<Rightarrow> (nat \<Rightarrow> time) \<Rightarrow> beat list \<Rightarrow> 'w resume_fun \<Rightarrow> exec_state \<Rightarrow> counts \<Rightarrow> 'w files lworld \<Rightarrow>
     (counts result \<times> 'w files lworld) option" where
  "boot_one h b clk es resume s c w =
     (let d = decide (bt_policy_max b) (es_execution_id s) (es_status s) (es_attempt s) False None in
      case rd_action d of
        SKIP \<Rightarrow> Some (Inr (c\<lparr>ct_skipped := ct_skipped c + 1\<rparr>), w)
      | QUARANTINE \<Rightarrow>
          Some (let (r, w1) = boot_queue clk s d w in (map_sum id (\<lambda>_. c\<lparr>ct_quarantined := ct_quarantined c + 1\<rparr>) r, w1))
      | MANUAL_REVIEW \<Rightarrow>
          Some (let (r, w1) = boot_queue clk s d w in (map_sum id (\<lambda>_. c\<lparr>ct_manual_review := ct_manual_review c + 1\<rparr>) r, w1))
      | RETRY \<Rightarrow> boot_retry h b clk es resume s c w)"

fun boot_all ::
    "host \<Rightarrow> bootstrap \<Rightarrow> (nat \<Rightarrow> nat \<Rightarrow> time) \<Rightarrow> (nat \<Rightarrow> beat list) \<Rightarrow> 'w resume_fun \<Rightarrow> nat \<Rightarrow> exec_state list \<Rightarrow>
     counts \<Rightarrow> 'w files lworld \<Rightarrow> (counts result \<times> 'w files lworld) option" where
  "boot_all h b clk sched resume n [] c w = Some (Inr c, w)"
| "boot_all h b clk sched resume n (s # ss) c w =
     (case boot_one h b (clk n) (sched n) resume s c w of
        None \<Rightarrow> None
      | Some (Inl e, w1) \<Rightarrow> Some (Inl e, w1)
      | Some (Inr c1, w1) \<Rightarrow> boot_all h b clk sched resume (Suc n) ss c1 w1)"

definition recover_pending ::
    "host \<Rightarrow> bootstrap \<Rightarrow> (nat \<Rightarrow> time) \<Rightarrow> time \<Rightarrow> (nat \<Rightarrow> nat \<Rightarrow> time) \<Rightarrow> (nat \<Rightarrow> beat list) \<Rightarrow> 'w resume_fun \<Rightarrow>
     'w files lworld \<Rightarrow> (boot_report result \<times> 'w files lworld) option" where
  "recover_pending h b rclk now clk sched resume w =
     (let ((reconciled, rfailed), w0) = boot_reconcile h (bt_coordinator b) rclk w in
      case resumable now (lw_store w0) of
        Inl e \<Rightarrow> Some (Inl e, w0)
      | Inr pending \<Rightarrow>
          map_option (map_prod (map_sum id (\<lambda>c.
            \<lparr>br_discovered = length pending, br_attempted = ct_retried c, br_recovered = ct_recovered c,
             br_failed = ct_failed c, br_skipped = ct_skipped c, br_reconciled = reconciled,
             br_reconciliation_failed = rfailed, br_retried = ct_retried c,
             br_quarantined = ct_quarantined c, br_manual_review = ct_manual_review c\<rparr>)) id)
            (boot_all h b clk sched resume 0 pending no_counts w0))"

text \<open>
  \<^verbatim>\<open>recover_with_loop\<close>: the loop's \<^verbatim>\<open>resume\<close> as one segment of a coroutine.
  (The loop may suspend at its executor, its planner and its events; what runs there belongs to the
  segment.)
\<close>

definition resume_task ::
    "host \<Rightarrow> 'w files lworld loop_cfg \<Rightarrow> time \<Rightarrow> time \<Rightarrow> time \<Rightarrow> (int \<Rightarrow> nat \<Rightarrow> time) \<Rightarrow> string \<Rightarrow> pydict \<Rightarrow> 'w resume_fun" where
  "resume_task h cfg now0 now1 now2 clk agent_id metadata s w =
     (Inr (Some (Await
        (\<lambda>w. let (r, w') = loop_resume h cfg now0 now1 now2 clk agent_id metadata (es_execution_id s) w
              in (Done (map_sum id (\<lambda>_. ()) r), w'))
        (\<lambda>w. (Inl (Exc CancelledError []), w)))), w)"

definition recover_with_loop ::
    "host \<Rightarrow> bootstrap \<Rightarrow> (nat \<Rightarrow> time) \<Rightarrow> time \<Rightarrow> (nat \<Rightarrow> nat \<Rightarrow> time) \<Rightarrow> (nat \<Rightarrow> beat list) \<Rightarrow>
     'w files lworld loop_cfg \<Rightarrow> time \<times> time \<times> time \<Rightarrow> (int \<Rightarrow> nat \<Rightarrow> time) \<Rightarrow> string \<Rightarrow> pydict \<Rightarrow>
     'w files lworld \<Rightarrow> (boot_report result \<times> 'w files lworld) option" where
  "recover_with_loop h b rclk now clk sched cfg nows lclk agent_id metadata w =
     recover_pending h b rclk now clk sched
       (resume_task h cfg (fst nows) (fst (snd nows)) (snd (snd nows)) lclk agent_id metadata) w"

end
