(* ===== verification/Lifecycle.thy ===== *)
theory Lifecycle
  imports Bootstrap
begin

text \<open>
  \<^verbatim>\<open>runtime/shutdown_manager.py\<close> and \<^verbatim>\<open>runtime/runtime_orchestrator.py\<close>: the
  life of one runtime. Starting it recovers what the last process left behind, executing starts it
  when needed, and shutting it down cancels its tasks, gives its leases back and closes its resources.
\<close>

section \<open>Shutdown\<close>

text \<open>
  A tracked task has a name; its effect is what it still does when it is cancelled and awaited (its
  result is dropped by \<^verbatim>\<open>gather(..., return_exceptions=True)\<close>). A release callback and the
  close method of a resource may raise; a resource without such a method is \<open>None\<close>. Either gets
  the instants that it reads from the clock.
\<close>

type_synonym 's action = "(nat \<Rightarrow> time) \<Rightarrow> 's \<Rightarrow> unit result \<times> 's"

record 's shutdown =
  sh_tasks :: "(string \<times> ('s \<Rightarrow> 's)) list"
  sh_closers :: "'s action option list"
  sh_releases :: "'s action list"
  sh_closed :: bool

definition new_shutdown :: "'s shutdown" where
  "new_shutdown = \<lparr>sh_tasks = [], sh_closers = [], sh_releases = [], sh_closed = False\<rparr>"

definition track_task :: "string \<Rightarrow> ('s \<Rightarrow> 's) \<Rightarrow> 's shutdown \<times> 's \<Rightarrow> 's shutdown \<times> 's" where
  "track_task t cancel p =
     (let (m, w) = p in
      if sh_closed m then (m, cancel w) else (m\<lparr>sh_tasks := (t, cancel) # sh_tasks m\<rparr>, w))"

definition task_done :: "string \<Rightarrow> 's shutdown \<Rightarrow> 's shutdown" where
  "task_done t m = m\<lparr>sh_tasks := filter (\<lambda>p. fst p \<noteq> t) (sh_tasks m)\<rparr>"

definition register_closer :: "'s action option \<Rightarrow> 's shutdown \<Rightarrow> 's shutdown" where
  "register_closer c m = (if sh_closed m then m else m\<lparr>sh_closers := sh_closers m @ [c]\<rparr>)"

definition register_release :: "'s action \<Rightarrow> 's shutdown \<Rightarrow> 's shutdown" where
  "register_release f m = (if sh_closed m then m else m\<lparr>sh_releases := sh_releases m @ [f]\<rparr>)"

text \<open>Calls in order; the first that raises ends them.\<close>

fun call_all :: "(nat \<Rightarrow> nat \<Rightarrow> time) \<Rightarrow> nat \<Rightarrow> 's action list \<Rightarrow> 's \<Rightarrow> unit result \<times> 's" where
  "call_all clk n [] w = (Inr (), w)"
| "call_all clk n (f # fs) w =
     (case f (clk n) w of (Inl e, w1) \<Rightarrow> (Inl e, w1) | (Inr _, w1) \<Rightarrow> call_all clk (Suc n) fs w1)"

definition close_action :: "'s action option \<Rightarrow> 's action" where
  "close_action c = (case c of None \<Rightarrow> \<lambda>clk w. (Inr (), w) | Some f \<Rightarrow> f)"

definition shutdown ::
    "(nat \<Rightarrow> nat \<Rightarrow> time) \<Rightarrow> 's shutdown \<Rightarrow> 's \<Rightarrow> unit result \<times> 's shutdown \<times> 's" where
  "shutdown clk m w =
     (if sh_closed m then (Inr (), m, w)
      else
       (let m1 = m\<lparr>sh_closed := True\<rparr>;
            w1 = fold snd (sh_tasks m) w
        in case call_all clk 0 (rev (sh_releases m)) w1 of
             (Inl e, w2) \<Rightarrow> (Inl e, m1, w2)
           | (Inr _, w2) \<Rightarrow>
              (case call_all clk (length (sh_releases m)) (map close_action (rev (sh_closers m))) w2 of
                 (Inl e, w3) \<Rightarrow> (Inl e, m1, w3)
               | (Inr _, w3) \<Rightarrow> (Inr (), m1\<lparr>sh_tasks := [], sh_releases := [], sh_closers := []\<rparr>, w3))))"

section \<open>The runtime\<close>

text \<open>
  What the constructor builds: the recovery manager gets no leases, the bootstrap and the
  lease-aware loop get the same owner, and the only release callback gives the owner's leases back.
\<close>

record 'w runtime_cfg =
  rt_owner :: string
  rt_ttl :: int
  rt_coordinator :: coord_cfg
  rt_loop :: "'w files lworld loop_cfg"

definition new_runtime_cfg ::
    "'w files lworld plan_executor \<Rightarrow> 'w files lworld planner \<Rightarrow> string \<Rightarrow> int \<Rightarrow> int option \<Rightarrow>
     'w files lworld bus option \<Rightarrow> coord_cfg \<Rightarrow> 'w runtime_cfg" where
  "new_runtime_cfg executor planner owner ttl policy bus coordinator =
     \<lparr>rt_owner = owner, rt_ttl = ttl, rt_coordinator = coordinator,
      rt_loop = build_execution_loop executor planner owner policy bus\<rparr>"

definition rt_bootstrap :: "'w runtime_cfg \<Rightarrow> bootstrap" where
  "rt_bootstrap cfg =
     \<lparr>bt_ttl = rt_ttl cfg, bt_owner = rt_owner cfg, bt_manager = default_manager, bt_policy_max = 3,
      bt_coordinator = Some (rt_coordinator cfg)\<rparr>"

record 'w runtime =
  rs_world :: "'w files lworld"
  rs_shutdown :: "'w files lworld shutdown"
  rs_started :: bool

fun release_leases ::
    "string \<Rightarrow> (nat \<Rightarrow> time) \<Rightarrow> nat \<Rightarrow> exec_state list \<Rightarrow> lease_file \<Rightarrow> unit result \<times> lease_file" where
  "release_leases owner clk n [] f = (Inr (), f)"
| "release_leases owner clk n (s # ss) f =
     (case release (es_execution_id s) owner None (clk n) f of
        (Inl e, f1) \<Rightarrow> (Inl e, f1) | (Inr _, f1) \<Rightarrow> release_leases owner clk (Suc n) ss f1)"

definition release_owned_leases :: "string \<Rightarrow> 'w files lworld action" where
  "release_owned_leases owner clk w =
     (case resumable (clk 0) (lw_store w) of
        Inl e \<Rightarrow> (Inl e, w)
      | Inr ss \<Rightarrow> (let (r, f) = release_leases owner clk 1 ss (lw_leases w) in (r, w\<lparr>lw_leases := f\<rparr>)))"

definition new_runtime :: "'w runtime_cfg \<Rightarrow> 'w files lworld \<Rightarrow> 'w runtime" where
  "new_runtime cfg w =
     \<lparr>rs_world = w, rs_shutdown = register_release (release_owned_leases (rt_owner cfg)) new_shutdown,
      rs_started = False\<rparr>"

text \<open>The instants and schedules of one start.\<close>

record start_times =
  tm_reconcile :: "nat \<Rightarrow> time"
  tm_resumable :: time
  tm_boot :: "nat \<Rightarrow> nat \<Rightarrow> time"
  tm_schedule :: "nat \<Rightarrow> beat list"
  tm_resume :: "time \<times> time \<times> time"
  tm_loop :: "int \<Rightarrow> nat \<Rightarrow> time"

definition empty_report :: boot_report where
  "empty_report = \<lparr>br_discovered = 0, br_attempted = 0, br_recovered = 0, br_failed = 0, br_skipped = 0,
     br_reconciled = 0, br_reconciliation_failed = 0, br_retried = 0, br_quarantined = 0, br_manual_review = 0\<rparr>"

definition rt_start ::
    "host \<Rightarrow> 'w runtime_cfg \<Rightarrow> start_times \<Rightarrow> string \<Rightarrow> pydict \<Rightarrow> 'w runtime \<Rightarrow> (boot_report result \<times> 'w runtime) option" where
  "rt_start h cfg tm agent_id metadata s =
     (if rs_started s then Some (Inr empty_report, s)
      else map_option (\<lambda>(r, w).
             (r, s\<lparr>rs_world := w, rs_started := (case r of Inl _ \<Rightarrow> False | Inr _ \<Rightarrow> True)\<rparr>))
           (recover_with_loop h (rt_bootstrap cfg) (tm_reconcile tm) (tm_resumable tm) (tm_boot tm) (tm_schedule tm)
              (rt_loop cfg) (tm_resume tm) (tm_loop tm) agent_id metadata (rs_world s)))"

text \<open>\<open>uid\<close> is the identity of the fresh execution context.\<close>

definition rt_execute ::
    "host \<Rightarrow> 'w runtime_cfg \<Rightarrow> start_times \<Rightarrow> time \<Rightarrow> time \<Rightarrow> (int \<Rightarrow> nat \<Rightarrow> time) \<Rightarrow> string \<Rightarrow> string \<Rightarrow> string \<Rightarrow>
     pydict \<Rightarrow> 'w runtime \<Rightarrow> (loop_result result \<times> 'w runtime) option" where
  "rt_execute h cfg tm now1 now2 clk uid goal agent_id metadata s =
     (let run = (\<lambda>s. let (r, w) = loop_run h (rt_loop cfg) now1 now2 clk (new_context uid agent_id goal metadata) goal (rs_world s)
                     in (r, s\<lparr>rs_world := w\<rparr>))
      in if rs_started s then Some (run s)
         else case rt_start h cfg tm agent_id metadata s of
           None \<Rightarrow> None
         | Some (Inl e, s1) \<Rightarrow> Some (Inl e, s1)
         | Some (Inr _, s1) \<Rightarrow> Some (run s1))"

definition rt_shutdown :: "(nat \<Rightarrow> nat \<Rightarrow> time) \<Rightarrow> 'w runtime \<Rightarrow> unit result \<times> 'w runtime" where
  "rt_shutdown clk s =
     (let (r, m, w) = shutdown clk (rs_shutdown s) (rs_world s) in
      (r, s\<lparr>rs_shutdown := m, rs_world := w,
            rs_started := (case r of Inl _ \<Rightarrow> rs_started s | Inr _ \<Rightarrow> False)\<rparr>))"

text \<open>
  \<^verbatim>\<open>RuntimeOrchestrator.components\<close>: the parts as they are now. The store and the leases
  are the contents of their files.
\<close>

record 'w runtime_components =
  rc_store :: exec_store
  rc_lease_store :: lease_file
  rc_recovery_manager :: manager
  rc_bootstrap :: bootstrap
  rc_loop :: "'w files lworld loop_cfg"
  rc_shutdown_manager :: "'w files lworld shutdown"
  rc_commit_coordinator :: coord_cfg

definition rt_components :: "'w runtime_cfg \<Rightarrow> 'w runtime \<Rightarrow> 'w runtime_components" where
  "rt_components cfg s =
     \<lparr>rc_store = lw_store (rs_world s), rc_lease_store = lw_leases (rs_world s),
      rc_recovery_manager = default_manager, rc_bootstrap = rt_bootstrap cfg, rc_loop = rt_loop cfg,
      rc_shutdown_manager = rs_shutdown s, rc_commit_coordinator = rt_coordinator cfg\<rparr>"

text \<open>
  One owner name goes through the whole runtime: the bootstrap, the checkpoints of the loop and the
  release of leases at shutdown use it; the recovery manager has none.
\<close>

lemma components_of_new_runtime:
  assumes "cfg = new_runtime_cfg executor planner owner ttl policy bus coordinator"
  shows "bt_owner (rc_bootstrap (rt_components cfg (new_runtime cfg w))) = owner"
    and "lc_store (rc_loop (rt_components cfg (new_runtime cfg w))) = Some (Lease_Aware owner)"
    and "sh_releases (rc_shutdown_manager (rt_components cfg (new_runtime cfg w))) = [release_owned_leases owner]"
    and "rm_owner (rc_recovery_manager (rt_components cfg (new_runtime cfg w))) = None"
  by (simp_all add: assms rt_components_def new_runtime_cfg_def rt_bootstrap_def build_execution_loop_def
      new_runtime_def register_release_def new_shutdown_def default_manager_def)

end
