(* ===== verification/Loop_Spec.thy ===== *)
theory Loop_Spec
  imports Loop
begin

text \<open>
  What the loop guarantees with plain checkpoints: bounded attempts and a terminal status that the
  store records. And what the factory's lease-aware loop does instead: it raises before it executes
  anything.
\<close>

abbreviation record_of :: "'w lworld \<Rightarrow> string \<Rightarrow> exec_state option" where
  "record_of w \<equiv> view (st_file (lw_store w))"

text \<open>The caller's copy is the stored record: same execution, same version.\<close>

definition in_step :: "exec_state \<Rightarrow> exec_state \<Rightarrow> 'w lworld \<Rightarrow> bool" where
  "in_step s p w \<longleftrightarrow>
     store_inv (lw_store w) \<and> st_machine (lw_store w) = DEFAULT_TRANSITIONS
     \<and> record_of w (es_execution_id s) = Some p \<and> es_version s = es_version p"

lemma in_step_world: "in_step s p w \<Longrightarrow> lw_store w' = lw_store w \<Longrightarrow> in_step s p w'"
  by (simp add: in_step_def)

lemma edges:
  "can_transition DEFAULT_TRANSITIONS ''pending'' ''running''"
  "can_transition DEFAULT_TRANSITIONS ''running'' ''running''"
  "can_transition DEFAULT_TRANSITIONS ''running'' ''completed''"
  "can_transition DEFAULT_TRANSITIONS ''running'' ''failed''"
  "can_transition DEFAULT_TRANSITIONS ''running'' ''retrying''"
  "can_transition DEFAULT_TRANSITIONS ''retrying'' ''running''"
  by code_simp+

text \<open>A checkpoint of a copy in step succeeds and leaves the copy in step.\<close>

lemma cas_in_step:
  assumes "in_step s p w" and "es_execution_id u = es_execution_id s" and "es_version u = es_version s"
    and "can_transition DEFAULT_TRANSITIONS (es_status p) (es_status u)"
  obtains s' st' where "compare_and_set h now u (es_version u) None None None (lw_store w) = (Inr s', st')"
    "in_step s' (norm_state s') (w\<lparr>lw_store := st'\<rparr>)" "es_execution_id s' = es_execution_id s"
    "es_status s' = es_status u" "es_result s' = es_result u"
proof -
  have i: "store_inv (lw_store w)" "st_machine (lw_store w) = DEFAULT_TRANSITIONS"
    "record_of w (es_execution_id s) = Some p" "es_version s = es_version p"
    using assms(1) by (auto simp: in_step_def)
  let ?s = "u\<lparr>es_version := es_version u + 1, es_updated_at := now\<rparr>"
  obtain st' where st': "compare_and_set h now u (es_version u) None None None (lw_store w) = (Inr ?s, st')"
    "store_inv st'" "st_machine st' = st_machine (lw_store w)"
    "view (st_file st') = (record_of w)(es_execution_id s \<mapsto> norm_state ?s)"
    by (rule cas_succeeds [OF i(1,3) assms(2), of h now]) (use assms(3,4) i in auto)
  show thesis
    by (rule that [of ?s st']) (use st' i assms(2) in \<open>simp_all add: in_step_def\<close>)
qed

text \<open>A transition reads the stored record, so it needs no copy in step; it puts it in step.\<close>

lemma transition_in_step:
  assumes "in_step s p w" and "can_transition DEFAULT_TRANSITIONS (es_status p) t"
    and "\<forall>u \<in> set ups. (\<forall>v. u \<noteq> Set_Version v)"
  obtains u st' where "transition h now (es_execution_id s) t ups (lw_store w) = (Inr u, st')"
    "in_step (copy_back s u) (norm_state u) (w\<lparr>lw_store := st'\<rparr>)" "es_status u = t"
    "view (st_file st') = (record_of w)(es_execution_id s \<mapsto> norm_state u)"
proof -
  have i: "store_inv (lw_store w)" "st_machine (lw_store w) = DEFAULT_TRANSITIONS"
    "record_of w (es_execution_id s) = Some p"
    using assms(1) by (auto simp: in_step_def)
  have f: "store_ok (st_file (lw_store w))" using i(1) by (simp add: store_inv_def)
  have p: "es_execution_id p = es_execution_id s" "1 \<le> es_version p" using view_id [OF f i(3)] by auto
  let ?u = "foldl apply_update (p\<lparr>es_status := t\<rparr>) ups"
  have keep: "es_execution_id (foldl apply_update q us) = es_execution_id q \<and>
      es_status (foldl apply_update q us) = es_status q \<and> es_version (foldl apply_update q us) = es_version q"
    if "\<forall>u \<in> set us. (\<forall>v. u \<noteq> Set_Version v)" for q us
    using that
  proof (induction us arbitrary: q)
    case Nil
    then show ?case by simp
  next
    case (Cons a us)
    then show ?case by (cases a) auto
  qed
  have u: "es_execution_id ?u = es_execution_id s" "es_status ?u = t" "es_version ?u = es_version p"
    using keep [OF assms(3), of "p\<lparr>es_status := t\<rparr>"] p by auto
  let ?s = "?u\<lparr>es_version := es_version ?u + 1, es_updated_at := now\<rparr>"
  obtain st' where st': "compare_and_set h now ?u (es_version ?u) None None None (lw_store w) = (Inr ?s, st')"
    "store_inv st'" "st_machine st' = st_machine (lw_store w)"
    "view (st_file st') = (record_of w)(es_execution_id s \<mapsto> norm_state ?s)"
    by (rule cas_succeeds [OF i(1,3) u(1), of h now]) (use assms(2) i(2) u in auto)
  have "transition h now (es_execution_id s) t ups (lw_store w) = (Inr ?s, st')"
    using st'(1) p(2) u(3)
    by (simp add: transition_def get_unlocked_view [OF f] i(3) compare_and_set_def split: if_splits)
  then show thesis
    by (rule that) (use st' i u in \<open>simp_all add: in_step_def copy_back_def\<close>)
qed

lemma running_in_step:
  assumes "in_step s p w" and "lc_store cfg = Some Plain"
    and "es_status p = ''running'' \<or> es_status p = ''pending''"
  obtains s1 st1 where "checkpoint_running h cfg now s attempt plan w = (Inr s1, w\<lparr>lw_store := st1\<rparr>)"
    "in_step s1 (norm_state s1) (w\<lparr>lw_store := st1\<rparr>)" "es_execution_id s1 = es_execution_id s"
    "es_status s1 = ''running''"
proof -
  define u where "u = (let s1 = s\<lparr>es_attempt := attempt, es_plan := plan, es_status := ''running'',
      es_attempt := max 1 attempt\<rparr> in if plan = VNone then s1 else s1\<lparr>es_plan := plan\<rparr>)"
  have uf: "es_execution_id u = es_execution_id s" "es_version u = es_version s" "es_status u = ''running''"
    by (simp_all add: u_def Let_def)
  have e: "can_transition DEFAULT_TRANSITIONS (es_status p) (es_status u)"
    using assms(3) edges uf(3) by auto
  have "checkpoint_running h cfg now s attempt plan w =
      set_store (compare_and_set h now u (es_version u) None None None (lw_store w)) w"
    by (simp add: checkpoint_running_def assms(2) cp_mark_running_def u_def Let_def)
  moreover obtain s1 st1 where "compare_and_set h now u (es_version u) None None None (lw_store w) = (Inr s1, st1)"
    "in_step s1 (norm_state s1) (w\<lparr>lw_store := st1\<rparr>)" "es_execution_id s1 = es_execution_id s"
    "es_status s1 = ''running''"
    by (rule cas_in_step [OF assms(1) uf(1,2) e, of h now]) (use uf(3) in auto)
  ultimately show thesis by (intro that [of s1 st1]) (simp_all add: set_store_def)
qed

text \<open>
  Executors and planners that do not touch the store (the execution's only writer is the loop), and
  whose failing tool results carry an error.
\<close>

definition quiet :: "'w lworld loop_cfg \<Rightarrow> bool" where
  "quiet cfg \<longleftrightarrow>
     lc_store cfg = Some Plain \<and> lc_bus cfg = None
     \<and> (\<forall>plan w. \<exists>rs w'. lc_executor cfg plan w = (Inr rs, w') \<and> lw_store w' = lw_store w
          \<and> (\<forall>r. first_failure rs = Some r \<longrightarrow> tr_error r \<noteq> None))
     \<and> (\<forall>g w. \<exists>plan w'. lc_planner cfg g w = (Inr plan, w') \<and> lw_store w' = lw_store w)"

definition finished :: "'w lworld loop_cfg \<Rightarrow> string \<Rightarrow> loop_result \<Rightarrow> 'w lworld \<Rightarrow> bool" where
  "finished cfg x r w \<longleftrightarrow>
     lr_attempts r \<le> lc_max_attempts cfg \<and> (lr_status r = ''completed'' \<or> lr_status r = ''failed'')
     \<and> (\<exists>q. record_of w x = Some q \<and> es_status q = lr_status r
          \<and> (lr_status r = ''completed'' \<longrightarrow> (\<exists>rs. lr_result r = Some rs \<and> first_failure rs = None
               \<and> es_result q = decode_val (asdict_val (VList (map step_value rs))))))"

lemma attempts_finish:
  assumes "quiet cfg" and "in_step s p w" and "es_execution_id s = x"
    and "attempt + int n = lc_max_attempts cfg + 1"
    and "es_status p = ''running'' \<or> es_status p = ''pending'' \<and> 0 < n"
  shows "\<exists>r w'. attempts h cfg clk ctx goal n attempt s plan w = (Inr r, w') \<and> finished cfg x r w'"
  using assms
proof (induction n arbitrary: attempt s p plan w)
  case 0
  then have run: "es_status p = ''running''" and cfg: "lc_store cfg = Some Plain" by (auto simp: quiet_def)
  obtain s' st' where "compare_and_set h (clk attempt 0) (s\<lparr>es_status := ''failed'', es_error := Some ''maximum attempts exceeded''\<rparr>)
      (es_version s) None None None (lw_store w) = (Inr s', st')"
    "in_step s' (norm_state s') (w\<lparr>lw_store := st'\<rparr>)" "es_execution_id s' = es_execution_id s" "es_status s' = ''failed''"
    by (rule cas_in_step [OF 0(2), of "s\<lparr>es_status := ''failed'', es_error := Some ''maximum attempts exceeded''\<rparr>"
        h "clk attempt 0"]) (use run edges in auto)
  with cfg 0(3) show ?case
    by (simp add: checkpoint_failed_def cp_mark_failed_def set_store_def finished_def in_step_def)
next
  case (Suc n)
  note cfg = Suc.prems(1) [unfolded quiet_def]
  have st: "es_status p = ''running'' \<or> es_status p = ''pending''" using Suc.prems(5) by blast
  have plain: "lc_store cfg = Some Plain" using cfg by simp
  obtain s1 st1 where cp: "checkpoint_running h cfg (clk attempt 0) s attempt plan w = (Inr s1, w\<lparr>lw_store := st1\<rparr>)"
    and 1: "in_step s1 (norm_state s1) (w\<lparr>lw_store := st1\<rparr>)" "es_execution_id s1 = x" "es_status s1 = ''running''"
    by (rule running_in_step [OF Suc.prems(2) plain st, of h "clk attempt 0" attempt plan]) (use Suc.prems(3) in auto)
  let ?w1 = "w\<lparr>lw_store := st1\<rparr>"
  obtain rs w2 where ex: "lc_executor cfg plan ?w1 = (Inr rs, w2)" "lw_store w2 = st1"
    "\<forall>r. first_failure rs = Some r \<longrightarrow> tr_error r \<noteq> None"
    using cfg by force
  have i2: "in_step s1 (norm_state s1) w2" using 1(1) ex(2) by (simp add: in_step_def)
  show ?case
  proof (cases "first_failure rs")
    case None
    let ?c = "s1\<lparr>es_status := ''completed'', es_result := VList (map step_value rs), es_error := None\<rparr>"
    obtain s3 st3 where "compare_and_set h (clk attempt 1) ?c (es_version ?c) None None None (lw_store w2) = (Inr s3, st3)"
      "in_step s3 (norm_state s3) (w2\<lparr>lw_store := st3\<rparr>)" "es_execution_id s3 = x" "es_status s3 = ''completed''"
      "es_result s3 = VList (map step_value rs)"
      by (rule cas_in_step [OF i2, of ?c h "clk attempt 1"]) (use 1(2,3) edges in auto)
    moreover have "es_result (norm_state s3) = decode_val (asdict_val (es_result s3))" by (simp add: norm_state_def)
    ultimately show ?thesis
      using cp ex None cfg Suc.prems(4)
      by (simp add: checkpoint_completed_def cp_mark_completed_def set_store_def finished_def in_step_def)
  next
    case (Some failed)
    then obtain err where err: "tr_error failed = Some err" using ex(3) by blast
    show ?thesis
    proof (cases "attempt \<ge> lc_max_attempts cfg")
      case True
      let ?c = "s1\<lparr>es_status := ''failed'', es_error := Some err\<rparr>"
      obtain s3 st3 where "compare_and_set h (clk attempt 2) ?c (es_version ?c) None None None (lw_store w2) = (Inr s3, st3)"
        "in_step s3 (norm_state s3) (w2\<lparr>lw_store := st3\<rparr>)" "es_execution_id s3 = x" "es_status s3 = ''failed''"
        by (rule cas_in_step [OF i2, of ?c h "clk attempt 2"]) (use 1(2,3) edges in auto)
      then show ?thesis
        using cp ex(1,2) Some err cfg True Suc.prems(4)
        by (simp add: checkpoint_failed_def cp_mark_failed_def set_store_def finished_def in_step_def
            replan_decide_def publish_opt_def)
    next
      case False
      obtain u st3 where 3: "transition h (clk attempt 3) (es_execution_id s1) ''retrying''
          [Set_Attempt attempt, Set_Error (Some err)] (lw_store w2) = (Inr u, st3)"
        "in_step (copy_back s1 u) (norm_state u) (w2\<lparr>lw_store := st3\<rparr>)" "es_status u = ''retrying''"
        by (rule transition_in_step [OF i2, of "''retrying''" "[Set_Attempt attempt, Set_Error (Some err)]" h "clk attempt 3"])
          (use 1(3) edges in auto)
      obtain plan' w5 where pl: "lc_planner cfg (replan_goal goal (attempt + 1)) (w2\<lparr>lw_store := st3\<rparr>) = (Inr plan', w5)"
        "lw_store w5 = st3" using cfg by force
      have i5: "in_step (copy_back s1 u) (norm_state u) w5" using 3(2) pl(2) by (simp add: in_step_def)
      have x5: "es_execution_id (copy_back s1 u) = x" using 1(2) by (simp add: copy_back_def)
      obtain v st5 where 5: "transition h (clk attempt 4) (es_execution_id (copy_back s1 u)) ''running''
          [Set_Attempt (attempt + 1), Set_Plan plan', Set_Error None] (lw_store w5) = (Inr v, st5)"
        "in_step (copy_back (copy_back s1 u) v) (norm_state v) (w5\<lparr>lw_store := st5\<rparr>)" "es_status v = ''running''"
        by (rule transition_in_step [OF i5, of "''running''" "[Set_Attempt (attempt + 1), Set_Plan plan', Set_Error None]"
            h "clk attempt 4"]) (use 3(3) edges in auto)
      have x6: "es_execution_id (copy_back (copy_back s1 u) v) = x" using x5 by (simp add: copy_back_def)
      have "\<exists>r w'. attempts h cfg clk ctx goal n (attempt + 1) (copy_back (copy_back s1 u) v) plan' (w5\<lparr>lw_store := st5\<rparr>)
          = (Inr r, w') \<and> finished cfg x r w'"
        by (rule Suc.IH [OF Suc.prems(1) 5(2) x6]) (use Suc.prems(4) 5(3) in auto)
      then show ?thesis
        using cp ex(1) Some err cfg False 3(1) 5(1) pl(1)
        by (simp add: replan_decide_def publish_opt_def loop_transition_def)
    qed
  qed
qed

text \<open>Fetching or creating the state puts the loop in step with the store.\<close>

definition startable :: "exec_state option \<Rightarrow> bool" where
  "startable p \<longleftrightarrow>
     (case p of None \<Rightarrow> True
      | Some s \<Rightarrow> es_status s = ''pending'' \<or> es_status s = ''retrying'' \<or> es_status s = ''running'')"

lemma save_new_in_step:
  assumes "store_inv (lw_store w)" and "st_machine (lw_store w) = DEFAULT_TRANSITIONS"
    and "record_of w x = None" and "x \<noteq> []" and "es_execution_id s = x"
  obtains s' st' where "save h now s (lw_store w) = (Inr s', st')" "in_step s' (norm_state s') (w\<lparr>lw_store := st'\<rparr>)"
    "s' = s\<lparr>es_version := 1, es_updated_at := now\<rparr>"
proof -
  let ?s = "s\<lparr>es_version := 1, es_updated_at := now\<rparr>"
  have "spec_save (st_machine (lw_store w)) (record_of w) now s None False None None None = Inr ?s"
    using assms(3-5) by (simp add: spec_save_def map_version_def Let_def)
  with save_refines [OF assms(1), of h now s None False None None None]
  obtain st' where "save_unlocked h now s None False None None None (lw_store w) = (Inr ?s, st')"
    "store_inv st'" "st_machine st' = st_machine (lw_store w)"
    "view (st_file st') = (record_of w)(x \<mapsto> norm_state ?s)"
    using assms(5) by auto
  then show thesis
    by (intro that [of ?s st']) (use assms in \<open>simp_all add: save_def in_step_def\<close>)
qed

lemma begin_in_step:
  assumes "store_inv (lw_store w)" and "st_machine (lw_store w) = DEFAULT_TRANSITIONS"
    and "startable (record_of w x)" and "x \<noteq> []" and "lc_store cfg = Some Plain"
  obtains s p w1 where "begin_state h cfg now1 now2 x goal plan start w = (Inr s, w1)" "in_step s p w1"
    "es_execution_id s = x" "es_status p = ''running'' \<or> es_status p = ''pending''"
proof (cases "record_of w x")
  case None
  let ?s = "(new_state x now1)\<lparr>es_goal := goal, es_plan := plan\<rparr>"
  have get: "get_state now1 x (lw_store w) = Inr None"
    using assms(1) None by (simp add: get_state_def store_inv_def get_unlocked_view)
  have x: "es_execution_id ?s = x" by (simp add: new_state_def)
  obtain s' st' where "save h now2 ?s (lw_store w) = (Inr s', st')" "in_step s' (norm_state s') (w\<lparr>lw_store := st'\<rparr>)"
    "s' = ?s\<lparr>es_version := 1, es_updated_at := now2\<rparr>"
    by (rule save_new_in_step [OF assms(1,2) None assms(4) x])
  then show thesis
    by (intro that [of s' "w\<lparr>lw_store := st'\<rparr>" "norm_state s'"])
      (use assms(5) get in \<open>simp_all add: begin_state_def set_store_def new_state_def\<close>)
next
  case (Some p)
  have get: "get_state now1 x (lw_store w) = Inr (Some p)"
    using assms(1) Some by (simp add: get_state_def store_inv_def get_unlocked_view)
  have idp: "es_execution_id p = x" using view_id [OF _ Some] assms(1) by (simp add: store_inv_def)
  have step: "in_step p p w" using assms(1,2) Some idp by (simp add: in_step_def)
  show thesis
  proof (cases "es_status p = ''running''")
    case True
    then show thesis
      by (intro that [of p w p]) (use assms(5) get idp step in \<open>simp_all add: begin_state_def\<close>)
  next
    case False
    then have st: "es_status p = ''retrying'' \<or> es_status p = ''pending''"
      using assms(3) Some by (auto simp: startable_def)
    obtain u st' where u: "transition h now2 (es_execution_id p) ''running''
        [Set_Attempt (max 1 start), Set_Plan plan] (lw_store w) = (Inr u, st')"
      "in_step (copy_back p u) (norm_state u) (w\<lparr>lw_store := st'\<rparr>)" "es_status u = ''running''"
      by (rule transition_in_step [OF step, of "''running''" "[Set_Attempt (max 1 start), Set_Plan plan]" h now2])
        (use st edges in auto)
    show thesis
      by (intro that [of "copy_back p u" "w\<lparr>lw_store := st'\<rparr>" "norm_state u"])
        (use assms(5) get idp st u in \<open>auto simp: begin_state_def loop_transition_def copy_back_def\<close>)
  qed
qed


text \<open>A store with one running execution, an executor that always fails, and a planner.\<close>

definition sample_lworld :: "unit lworld" where
  "sample_lworld = \<lparr>lw_store = sample_store, lw_leases = Missing, lw_world = ()\<rparr>"

definition sample_failure :: tool_result where
  "sample_failure = \<lparr>tr_call_id = ''c'', tr_tool = ''t'', tr_ok = False, tr_value = VNone, tr_error = Some ''boom'',
     tr_retryable = False, tr_idempotency_key = None, tr_ambiguous = False\<rparr>"

definition sample_cfg :: "unit lworld loop_cfg" where
  "sample_cfg = \<lparr>lc_store = Some Plain, lc_max_attempts = 2,
     lc_executor = (\<lambda>plan w. (Inr [Tool_Step sample_failure], w)),
     lc_planner = (\<lambda>g w. (Inr (VStr g), w)), lc_bus = None\<rparr>"

definition sample_ctx :: exec_context where
  "sample_ctx = new_context ''e1'' ''agent'' ''goal'' []"

lemma sample_quiet: "quiet sample_cfg"
  by (simp add: quiet_def sample_cfg_def first_failure_def sample_failure_def)

lemma sample_lworld_ok:
  "store_inv (lw_store sample_lworld)" "st_machine (lw_store sample_lworld) = DEFAULT_TRANSITIONS"
  "record_of sample_lworld = [''e1'' \<mapsto> run1]"
  using sample_store_inv sample_view by (simp_all add: sample_lworld_def) (simp add: sample_store_def)


section \<open>The lease-aware loop\<close>

lemma lease_aware_refuses:
  assumes "lc_store cfg = Some (Lease_Aware owner)" and "es_execution_id s \<noteq> []" and "es_version s \<noteq> 0" and "0 < n"
  shows "attempts h cfg clk ctx goal n a s plan w =
    (Inl (Exc ValueError ''fencing_token is required for lease-aware checkpointing''), w)"
proof -
  obtain m where "n = Suc m" using assms(4) by (cases n) auto
  then show ?thesis
    using assms(1-3) by (simp add: checkpoint_running_def la_mark_running_def lease_check_persisted set_store_def)
qed

text \<open>
  The loop that the runtime factory builds never runs a new execution: whoever holds the lease
  (the factory's own owner included) and whatever the executor is, the run raises a
  \<^verbatim>\<open>ValueError\<close> for a missing fencing token before the executor is called. The loop never
  passes a token, and the state it has just saved is no longer exempt from it. The execution stays
  behind as a pending record without an attempt, which is not resumable.
\<close>

theorem lease_aware_loop_never_runs:
  assumes "store_inv (lw_store w)" and "st_machine (lw_store w) = DEFAULT_TRANSITIONS"
    and "record_of w (ctx_execution_id ctx) = None" and "ctx_execution_id ctx \<noteq> []"
    and "planner goal w = (Inr plan, w0)" and "lw_store w0 = lw_store w"
  shows "\<exists>w' q. (\<forall>executor. loop_run h (build_execution_loop executor planner owner policy bus) now1 now2 clk ctx goal w =
       (Inl (Exc ValueError ''fencing_token is required for lease-aware checkpointing''), w'))
     \<and> record_of w' (ctx_execution_id ctx) = Some q \<and> es_status q = ''pending'' \<and> es_attempt q = 0
     \<and> lw_leases w' = lw_leases w0 \<and> lw_world w' = lw_world w0"
proof -
  let ?x = "ctx_execution_id ctx"
  let ?s = "(new_state ?x now1)\<lparr>es_goal := goal, es_plan := plan\<rparr>"
  let ?cfg = "\<lambda>executor. build_execution_loop executor planner owner policy bus"
  have get: "get_state now1 ?x (lw_store w0) = Inr None"
    using assms(1,3,6) by (simp add: get_state_def store_inv_def get_unlocked_view)
  have x: "es_execution_id ?s = ?x" by (simp add: new_state_def)
  have w0: "store_inv (lw_store w0)" "st_machine (lw_store w0) = DEFAULT_TRANSITIONS" "record_of w0 ?x = None"
    using assms(1-3,6) by simp_all
  obtain s' st' where s': "save h now2 ?s (lw_store w0) = (Inr s', st')" "in_step s' (norm_state s') (w0\<lparr>lw_store := st'\<rparr>)"
    "s' = ?s\<lparr>es_version := 1, es_updated_at := now2\<rparr>"
    by (rule save_new_in_step [OF w0 assms(4) x])
  let ?w1 = "w0\<lparr>lw_store := st'\<rparr>"
  have b: "begin_state h (?cfg executor) now1 now2 ?x goal plan 0 w0 = (Inr s', ?w1)" for executor
    by (simp add: begin_state_def build_execution_loop_def get s'(1) set_store_def)
  have n: "0 < nat (lc_max_attempts (?cfg executor) + 1 - 1)" for executor
    by (simp add: build_execution_loop_def policy_max_def)
  have st: "lc_store (?cfg executor) = Some (Lease_Aware owner)" for executor
    by (simp add: build_execution_loop_def)
  have pl: "lc_planner (?cfg executor) = planner" for executor
    by (simp add: build_execution_loop_def)
  have ident: "es_execution_id s' \<noteq> []" "es_version s' \<noteq> 0" using s'(3) x assms(4) by simp_all
  have "loop_run h (?cfg executor) now1 now2 clk ctx goal w =
      (Inl (Exc ValueError ''fencing_token is required for lease-aware checkpointing''), ?w1)" for executor
    using lease_aware_refuses [where h = h and clk = clk and ctx = ctx and goal = goal and a = 1 and plan = plan and w = ?w1,
        OF st ident n, of executor executor]
    by (simp add: loop_run_def run_from_state_def pl assms(5) b)
  moreover have "record_of ?w1 ?x = Some (norm_state s')"
    using s'(2,3) x by (simp add: in_step_def)
  moreover have "es_status s' = ''pending''" "es_attempt s' = 0"
    using s'(3) by (simp_all add: new_state_def)
  ultimately show ?thesis by (intro exI [of _ ?w1] exI [of _ "norm_state s'"]) simp
qed

theorem lease_aware_loop_never_runs_witness:
  "\<exists>w' q. (\<forall>executor. loop_run sample_host (build_execution_loop executor (\<lambda>g w. (Inr (VStr g), w)) ''me'' None None)
         1 2 (\<lambda>a i. 3) (sample_ctx\<lparr>ctx_execution_id := ''e2''\<rparr>) ''goal'' sample_lworld =
       (Inl (Exc ValueError ''fencing_token is required for lease-aware checkpointing''), w'))
     \<and> record_of w' ''e2'' = Some q \<and> es_status q = ''pending'' \<and> es_attempt q = 0
     \<and> lw_leases w' = lw_leases sample_lworld \<and> lw_world w' = lw_world sample_lworld"
  using lease_aware_loop_never_runs [OF sample_lworld_ok(1,2), of "sample_ctx\<lparr>ctx_execution_id := ''e2''\<rparr>"
      "\<lambda>g w. (Inr (VStr g), w)" "''goal''" "VStr ''goal''" sample_lworld "sample_host" "''me''" None None 1 2 "\<lambda>a i. 3"]
  by (simp add: sample_lworld_ok(3))

end
