(* ===== verification/Recovery_Spec.thy ===== *)
theory Recovery_Spec
  imports Recovery Loop_Spec
begin

text \<open>
  What recovery guarantees: one failing execution does not stop the others (and one kind that does),
  a failure is recorded only under the lease, and work that was committed is not resumed.
\<close>

section \<open>Recording a failure\<close>

definition files_ok :: "'w lworld \<Rightarrow> bool" where
  "files_ok w \<longleftrightarrow> store_inv (lw_store w) \<and> st_machine (lw_store w) = DEFAULT_TRANSITIONS \<and> lease_inv (lw_leases w)"

text \<open>The stored record is the one that was read, or a later version of it.\<close>

definition seen :: "exec_state \<Rightarrow> exec_state \<Rightarrow> bool" where
  "seen s q \<longleftrightarrow> q = s \<or> es_version s < es_version q"

definition in_flight :: "exec_state \<Rightarrow> bool" where
  "in_flight s \<longleftrightarrow> es_status s = ''running'' \<or> es_status s = ''retrying''"

definition conflict :: "exc \<Rightarrow> bool" where
  "conflict e \<longleftrightarrow> isinst e [ExecutionVersionConflictError, ExecutionFencingConflictError]"

lemma failing_edge: "in_flight s \<Longrightarrow> can_transition DEFAULT_TRANSITIONS (es_status s) ''failed''"
  by (auto simp: in_flight_def default_can_transition default_edge_def)

lemma mark_write:
  assumes "store_inv st" and "st_machine st = DEFAULT_TRANSITIONS" and "view (st_file st) x = Some q"
    and "seen s q" and "in_flight s" and "es_execution_id s = x" and "1 \<le> es_version s"
    and "val = None \<and> tok = None \<or> (\<exists>v b. val = Some v \<and> v x tok = Inr b)"
  obtains (Failed) s' st' where
    "compare_and_set h now (s\<lparr>es_status := ''failed'', es_error := err\<rparr>) (es_version s) None tok val st = (Inr s', st')"
    "store_inv st'" "st_machine st' = DEFAULT_TRANSITIONS" "q = s"
    "view (st_file st') = (view (st_file st))(x \<mapsto> norm_state s')" "es_version s' = es_version s + 1"
    "\<forall>v. val = Some v \<longrightarrow> v x tok = Inr True" "es_status s' = ''failed''" "es_error s' = err"
  | (Conflict) e where
    "compare_and_set h now (s\<lparr>es_status := ''failed'', es_error := err\<rparr>) (es_version s) None tok val st = (Inl e, st)"
    "conflict e"
proof -
  have f: "store_ok (st_file st)" using assms(1) by (simp add: store_inv_def)
  have id: "es_execution_id q = x" "1 \<le> es_version q" using view_id [OF f assms(3)] by auto
  have ne: "x \<noteq> []" using assms(3) by (cases rule: store_lookup [OF f, of x]) auto
  let ?u = "s\<lparr>es_status := ''failed'', es_error := err\<rparr>"
  let ?s = "?u\<lparr>es_version := es_version s + 1, es_updated_at := now\<rparr>"
  let ?spec = "spec_save (st_machine st) (view (st_file st)) now ?u (Some (es_version s)) True None tok val"
  note ref = save_refines [OF assms(1), of h now ?u "Some (es_version s)" True None tok val]
  have mv: "map_version (view (st_file st)) x = es_version q" "map_status (view (st_file st)) x = es_status q"
    by (simp_all add: map_version_def map_status_def assms(3))
  have cas: "compare_and_set h now ?u (es_version s) None tok val st = save_unlocked h now ?u (Some (es_version s)) True None tok val st"
    using assms(7) by (simp add: compare_and_set_def)
  show thesis
  proof (cases "es_version q = es_version s")
    case False
    then have "?spec = Inl (Exc ExecutionVersionConflictError ''version changed'')"
      using assms(6) ne mv(1) by (simp add: spec_save_def)
    with ref show thesis
      by (intro Conflict [of "Exc ExecutionVersionConflictError ''version changed''"]) (simp_all add: cas conflict_def exc_simps)
  next
    case True
    then have q: "q = s" using assms(4) by (auto simp: seen_def)
    have v: "validate (st_machine st) (map_status (view (st_file st)) x) ''failed'' = Inr ()"
      using failing_edge [OF assms(5)] by (simp add: validate_iff assms(2) mv(2) q)
    have tv: "\<not> (tok \<noteq> None \<and> val = None)" using assms(8) by auto
    consider (bad) v0 where "val = Some v0" "v0 x tok = Inr False"
      | (good) "(case val of None \<Rightarrow> Inr True | Some v0 \<Rightarrow> v0 x tok) = Inr True" "\<forall>v0. val = Some v0 \<longrightarrow> v0 x tok = Inr True"
      using assms(8) by (cases val) (auto, blast)
    then show thesis
    proof cases
      case bad
      then have "?spec = Inl (Exc ExecutionFencingConflictError ''fencing token is stale'')"
        using assms(6) ne mv(1) True by (simp add: spec_save_def)
      with ref show thesis
        by (intro Conflict [of "Exc ExecutionFencingConflictError ''fencing token is stale''"]) (simp_all add: cas conflict_def exc_simps)
    next
      case good
      have "?spec = Inr ?s"
        using assms(3,6) ne mv(1) True tv good(1) v by (simp add: spec_save_def)
      with ref obtain st' where "save_unlocked h now ?u (Some (es_version s)) True None tok val st = (Inr ?s, st')"
        "store_inv st'" "st_machine st' = st_machine st" "view (st_file st') = (view (st_file st))(x \<mapsto> norm_state ?s)"
        using assms(6) by auto
      then show thesis
        by (intro Failed [of ?s st']) (use cas q good(2) assms(2) in simp_all)
    qed
  qed
qed

text \<open>A compare-and-set either raises and writes nothing, or writes that one record.\<close>

lemma cas_cases:
  assumes "store_inv st"
  obtains (Raised) e where "compare_and_set h now s n est tok val st = (Inl e, st)"
  | (Written) s' st' where "compare_and_set h now s n est tok val st = (Inr s', st')" "store_inv st'"
    "st_machine st' = st_machine st" "view (st_file st') = (view (st_file st))(es_execution_id s \<mapsto> norm_state s')"
    "spec_save (st_machine st) (view (st_file st)) now s (Some n) True est tok val = Inr s'"
proof (cases "n < 0")
  case True
  then show thesis by (intro Raised) (simp add: compare_and_set_def)
next
  case False
  then have cas: "compare_and_set h now s n est tok val st = save_unlocked h now s (Some n) True est tok val st"
    by (simp add: compare_and_set_def)
  show thesis
    using save_refines [OF assms, of h now s "Some n" True est tok val] cas Raised Written
    by (cases "spec_save (st_machine st) (view (st_file st)) now s (Some n) True est tok val") auto
qed

lemma rm_mark_failed_effect:
  assumes "store_inv (lw_store w)" and "rm_mark_failed h m now1 now2 s err (Some l) w = (r, w')"
  shows "lw_leases w' = lw_leases w \<and> lw_world w' = lw_world w
    \<and> (case r of
         Inr (Some s') \<Rightarrow>
           rm_leases m \<and> (\<forall>now \<in> {now1, now2}. rm_is_owner m now (es_execution_id s) (Some (ls_fencing_token l)) (lw_leases w) = Inr True)
           \<and> es_status s' = ''failed'' \<and> es_error s' = Some err \<and> es_version s' = es_version s + 1
           \<and> record_of w' = (record_of w)(es_execution_id s \<mapsto> norm_state s')
       | _ \<Rightarrow> lw_store w' = lw_store w)"
proof (cases "rm_leases m \<and> rm_is_owner m now1 (es_execution_id s) (Some (ls_fencing_token l)) (lw_leases w) = Inr True")
  case False
  then have "w' = w \<and> (r = Inr None \<or> (\<exists>e. r = Inl e))"
    using assms(2) by (auto simp: rm_mark_failed_def Let_def split: if_splits sum.splits bool.splits)
  then show ?thesis by auto
next
  case True
  let ?u = "s\<lparr>es_status := ''failed'', es_error := Some err\<rparr>"
  let ?val = "Some (\<lambda>x tok. rm_is_owner m now2 x tok (lw_leases w))"
  have eq: "(r, w') = (let (r, st) = compare_and_set h now2 ?u (es_version s) None (Some (ls_fencing_token l)) ?val (lw_store w)
      in (map_sum id Some r, w\<lparr>lw_store := st\<rparr>))"
    using assms(2) True by (simp add: rm_mark_failed_def Let_def)
  show ?thesis
  proof (cases rule: cas_cases [OF assms(1), of h now2 ?u "es_version s" None "Some (ls_fencing_token l)" ?val,
      case_names Raised Written])
    case (Raised e)
    then show ?thesis using eq by simp
  next
    case (Written s' st')
    have "rm_is_owner m now2 (es_execution_id s) (Some (ls_fencing_token l)) (lw_leases w) = Inr True"
      "s' = ?u\<lparr>es_version := es_version s + 1, es_updated_at := now2\<rparr>"
      using Written(5) by (auto simp: spec_save_def Let_def split: if_splits sum.splits bool.splits)
    then show ?thesis using Written eq True by simp
  qed
qed

section \<open>One execution at a time\<close>

text \<open>No record disappears, and a changed record has a higher version.\<close>

definition advances :: "'w lworld \<Rightarrow> 'w lworld \<Rightarrow> bool" where
  "advances w w' \<longleftrightarrow> (\<forall>x p. record_of w x = Some p \<longrightarrow> (\<exists>q. record_of w' x = Some q \<and> seen p q))"

text \<open>
  What resuming may do: anything to the files through their operations, in the sense that it leaves
  them in order and only raises versions, and it may raise any exception but a cancellation.
\<close>

definition steady :: "'w lworld recoverable \<Rightarrow> bool" where
  "steady loop \<longleftrightarrow> (\<forall>s w r w'. files_ok w \<longrightarrow> resume_with loop s w = (r, w') \<longrightarrow>
     files_ok w' \<and> advances w w' \<and> (\<forall>e. r = Inl e \<longrightarrow> isinst e [PyException]))"

definition ready :: "exec_state \<Rightarrow> 'w lworld \<Rightarrow> bool" where
  "ready s w \<longleftrightarrow> in_flight s \<and> 1 \<le> es_version s \<and> (\<exists>q. record_of w (es_execution_id s) = Some q \<and> seen s q)"

lemma seen_trans: "seen p q \<Longrightarrow> seen q r \<Longrightarrow> seen p r"
  by (auto simp: seen_def)

lemma advances_refl [simp]: "advances w w"
  by (simp add: advances_def seen_def)

lemma advances_trans: "advances w w' \<Longrightarrow> advances w' w'' \<Longrightarrow> advances w w''"
  unfolding advances_def using seen_trans by metis

lemma advances_leases [simp]:
  "advances w (w'\<lparr>lw_leases := f\<rparr>) \<longleftrightarrow> advances w w'" "advances (w\<lparr>lw_leases := f\<rparr>) w' \<longleftrightarrow> advances w w'"
  by (simp_all add: advances_def)

lemma ready_advances: "ready s w \<Longrightarrow> advances w w' \<Longrightarrow> ready s w'"
  unfolding ready_def advances_def using seen_trans by metis

lemma ready_leases [simp]: "ready s (w\<lparr>lw_leases := f\<rparr>) \<longleftrightarrow> ready s w"
  by (simp add: ready_def)

lemma rm_is_owner_total: "lease_inv f \<Longrightarrow> \<exists>b. rm_is_owner m now x tok f = Inr b"
  using lease_inv_Object [of f] by (auto simp: rm_is_owner_def is_owner_def is_owner_unlocked_def read_leases_def)

lemma attempt_ok:
  assumes "steady loop" and "files_ok w" and "rm_attempt m clk loop s lease w = (r, w')"
  shows "files_ok w' \<and> advances w w' \<and> (\<forall>e. r = Inl e \<longrightarrow> isinst e [PyException])"
proof -
  obtain r1 w1 where run: "resume_with loop s w = (r1, w1)" by (cases "resume_with loop s w") auto
  have ok: "files_ok w1" "advances w w1" "\<forall>e. r1 = Inl e \<longrightarrow> isinst e [PyException]"
    using assms(1,2) run unfolding steady_def by blast+
  have fenced: "isinst (Exc ExecutionFencingConflictError msg) [PyException]" for msg
    by (simp add: exc_simps List.member_iff)
  show ?thesis
  proof (cases lease)
    case None
    then show ?thesis
      using assms(3) run ok by (cases r1) (auto simp: rm_attempt_def)
  next
    case (Some l)
    obtain b where b: "rm_is_owner m (clk 1) (es_execution_id s) (Some (ls_fencing_token l)) (lw_leases w) = Inr b"
      using rm_is_owner_total assms(2) unfolding files_ok_def by blast
    obtain b' where b': "rm_is_owner m (clk 2) (es_execution_id s) (Some (ls_fencing_token l)) (lw_leases w1) = Inr b'"
      using rm_is_owner_total ok(1) unfolding files_ok_def by blast
    show ?thesis
      using assms(2,3) run ok fenced Some b b'
      by (cases b; cases r1; cases b') (auto simp: rm_attempt_def)
  qed
qed

lemma mark_failed_ok:
  assumes "files_ok w" and "ready s w" and "rm_mark_failed h m now1 now2 s err lease w = (r, w')"
  shows "files_ok w' \<and> advances w w' \<and> (\<forall>e. r = Inl e \<longrightarrow> conflict e)"
proof -
  let ?x = "es_execution_id s"
  obtain q where q: "in_flight s" "1 \<le> es_version s" "record_of w ?x = Some q" "seen s q"
    using assms(2) by (auto simp: ready_def)
  have st: "store_inv (lw_store w)" "st_machine (lw_store w) = DEFAULT_TRANSITIONS" "lease_inv (lw_leases w)"
    using assms(1) by (auto simp: files_ok_def)
  have wr: "files_ok w1 \<and> advances w w1 \<and> (\<forall>e. r0 = Inl e \<longrightarrow> conflict e)"
    if "val = None \<and> tok = None \<or> (\<exists>v b. val = Some v \<and> v ?x tok = Inr b)"
      and "(r0, w1) = (let (r, st) = compare_and_set h now2 (s\<lparr>es_status := ''failed'', es_error := Some err\<rparr>)
         (es_version s) None tok val (lw_store w) in (map_sum id Some r, w\<lparr>lw_store := st\<rparr>))" for val tok r0 w1
  proof (cases rule: mark_write [OF st(1,2) q(3,4,1) refl q(2) that(1), of h now2 "Some err", case_names Failed Conflict])
    case (Failed s' st')
    have "seen q (norm_state s')" using Failed(4,6) by (simp add: seen_def)
    then have "advances w w1" using that(2) Failed(1,5) q(3) by (auto simp: advances_def seen_def)
    then show ?thesis using that(2) Failed st by (simp add: files_ok_def)
  next
    case (Conflict e)
    then show ?thesis using that(2) assms(1) by simp
  qed
  show ?thesis
  proof (cases lease)
    case None
    then show ?thesis using wr [of None None r w'] assms(3) by (simp add: rm_mark_failed_def)
  next
    case (Some l)
    obtain b where b: "rm_is_owner m now1 ?x (Some (ls_fencing_token l)) (lw_leases w) = Inr b"
      using rm_is_owner_total [OF st(3)] by blast
    obtain b' where b': "rm_is_owner m now2 ?x (Some (ls_fencing_token l)) (lw_leases w) = Inr b'"
      using rm_is_owner_total [OF st(3)] by blast
    show ?thesis
    proof (cases "rm_leases m \<and> b")
      case True
      then show ?thesis
        using wr [of "Some (\<lambda>x tok. rm_is_owner m now2 x tok (lw_leases w))" "Some (ls_fencing_token l)" r w']
          assms(3) Some b b' by (simp add: rm_mark_failed_def Let_def)
    next
      case False
      then have "r = Inr None \<and> w' = w"
        using assms(3) Some b by (cases "rm_leases m"; cases b) (simp_all add: rm_mark_failed_def Let_def)
      then show ?thesis using assms(1) by simp
    qed
  qed
qed

lemma settle_ok:
  assumes "files_ok w" and "ready s w" and "\<forall>e. r0 = Inl e \<longrightarrow> isinst e [PyException]"
    and "rm_settle h m clk s lease (r0, w) = (r, w')"
  shows "files_ok w' \<and> advances w w' \<and> (\<exists>st e. r = Inr (st, e) \<and> List.member OUTCOME_STATUSES st)"
proof (cases r0)
  case (Inr b)
  then show ?thesis
    using assms(1,4) by (cases b) (auto simp: rm_settle_def OUTCOME_STATUSES_def List.member_iff)
next
  case (Inl e)
  obtain r1 w1 where mf: "rm_mark_failed h m (clk 3) (clk 4) s (exc_msg e) lease w = (r1, w1)" by fastforce
  note ok = mark_failed_ok [OF assms(1,2) mf]
  have py: "isinst e [PyException]" using assms(3) Inl by simp
  show ?thesis
  proof (cases "isinst e [ExecutionFencingConflictError]")
    case True
    then show ?thesis
      using assms(1,4) Inl by (auto simp: rm_settle_def OUTCOME_STATUSES_def List.member_iff)
  next
    case False
    show ?thesis
    proof (cases r1)
      case (Inl e')
      then show ?thesis
        using assms(4) \<open>r0 = Inl e\<close> False py mf ok
        by (auto simp: rm_settle_def OUTCOME_STATUSES_def List.member_iff conflict_def)
    next
      case (Inr o1)
      then show ?thesis
        using assms(4) \<open>r0 = Inl e\<close> False py mf ok
        by (cases o1) (auto simp: rm_settle_def OUTCOME_STATUSES_def List.member_iff)
    qed
  qed
qed

lemma lease_files:
  assumes "files_ok w"
  shows "files_ok (w\<lparr>lw_leases := snd (acquire ttl x owner now (lw_leases w))\<rparr>)"
    and "files_ok (w\<lparr>lw_leases := snd (release x owner tok now (lw_leases w))\<rparr>)"
  using assms lease_step_inv [of "lw_leases w" ttl "(now, Op_Acquire x owner)"]
    lease_step_inv [of "lw_leases w" ttl "(now, Op_Release x owner tok)"]
  by (simp_all add: files_ok_def)

lemma acquire_returns:
  assumes "lease_inv f" and "x \<noteq> []" and "owner \<noteq> []"
  shows "\<exists>l. fst (acquire ttl x owner now f) = Inr l"
  using assms lease_inv_Object [OF assms(1)]
  by (auto simp: lease_ops split: option.splits)

lemma leased_ok:
  assumes "steady loop" and "files_ok w" and "ready s w" and "rm_leased h m clk loop s lease w = (r, w')"
  shows "files_ok w' \<and> advances w w' \<and> (\<exists>o1 e. r = Inr (o1, e) \<and> ro_execution_id o1 = es_execution_id s
    \<and> List.member OUTCOME_STATUSES (ro_status o1))"
proof -
  obtain r0 w0 where a: "rm_attempt m clk loop s lease w = (r0, w0)" by fastforce
  note ok0 = attempt_ok [OF assms(1,2) a]
  have ready: "ready s w0" using ready_advances [OF assms(3)] ok0 by blast
  obtain r1 w1 where b: "rm_settle h m clk s lease (r0, w0) = (r1, w1)" by fastforce
  obtain st e where ok1: "files_ok w1" "advances w0 w1" "r1 = Inr (st, e)" "List.member OUTCOME_STATUSES st"
    using settle_ok [OF _ ready _ b] ok0 by blast
  have ne: "es_execution_id s \<noteq> []"
  proof -
    have "store_ok (st_file (lw_store w))" using assms(2) by (simp add: files_ok_def store_inv_def)
    then show ?thesis
      using assms(3) by (cases rule: store_lookup [of "st_file (lw_store w)" "es_execution_id s"]) (auto simp: ready_def)
  qed
  let ?w2 = "rm_release m (clk 5) (es_execution_id s) lease w1"
  have "files_ok ?w2 \<and> advances w ?w2"
    using lease_files(2) [OF ok1(1)] ok1(1,2) ok0 advances_trans
    by (cases lease) (simp_all add: rm_release_def, blast+)
  moreover have "r = Inr (\<lparr>ro_execution_id = es_execution_id s, ro_status = st\<rparr>, e)" "w' = ?w2"
    using assms(4) a b ok1(3,4) ne by (simp_all add: rm_leased_def new_outcome_def)
  ultimately show ?thesis using ok1(4) by simp
qed

lemma recover_one_ok:
  assumes "steady loop" and "files_ok w" and "ready s w" and "rm_leases m \<longrightarrow> opt_list (rm_owner m) \<noteq> []"
    and "rm_recover_one h m clk loop s w = (r, w')"
  shows "files_ok w' \<and> advances w w' \<and> (\<exists>o1 e. r = Inr (o1, e) \<and> ro_execution_id o1 = es_execution_id s
    \<and> List.member OUTCOME_STATUSES (ro_status o1))"
proof (cases "rm_leases m")
  case False
  then show ?thesis using leased_ok [OF assms(1-3), of h m clk None r w'] assms(5) by (simp add: rm_recover_one_def)
next
  case True
  let ?x = "es_execution_id s"
  have ne: "?x \<noteq> []"
  proof -
    have "store_ok (st_file (lw_store w))" using assms(2) by (simp add: files_ok_def store_inv_def)
    then show ?thesis
      using assms(3) by (cases rule: store_lookup [of "st_file (lw_store w)" ?x]) (auto simp: ready_def)
  qed
  have li: "lease_inv (lw_leases w)" using assms(2) by (simp add: files_ok_def)
  obtain la f where acq: "acquire (rm_ttl m) ?x (opt_list (rm_owner m)) (clk 0) (lw_leases w) = (Inr la, f)"
    using acquire_returns [OF li ne] assms(4) True by (metis prod.collapse)
  let ?w0 = "w\<lparr>lw_leases := f\<rparr>"
  have w0: "files_ok ?w0" using lease_files(1) [OF assms(2), of "rm_ttl m" ?x "opt_list (rm_owner m)" "clk 0"] acq by simp
  show ?thesis
  proof (cases la)
    case None
    then show ?thesis
      using assms(5) True acq w0 ne by (auto simp: rm_recover_one_def new_outcome_def OUTCOME_STATUSES_def List.member_iff)
  next
    case (Some l)
    then show ?thesis
      using leased_ok [OF assms(1) w0, of s h m clk "Some l" r w'] assms(3,5) True acq
      by (simp add: rm_recover_one_def)
  qed
qed

lemma recover_list_ok:
  assumes "steady loop" and "files_ok w" and "\<forall>s \<in> set ss. ready s w"
    and "rm_leases m \<longrightarrow> opt_list (rm_owner m) \<noteq> []"
  shows "\<exists>os w'. rm_recover_list h m clk loop True n ss w = (Inr os, w') \<and> files_ok w' \<and> advances w w'
    \<and> map ro_execution_id os = map es_execution_id ss \<and> (\<forall>o1 \<in> set os. List.member OUTCOME_STATUSES (ro_status o1))"
  using assms
proof (induction ss arbitrary: n w)
  case Nil
  then show ?case by simp
next
  case (Cons s ss)
  obtain r w1 where one: "rm_recover_one h m (clk n) loop s w = (r, w1)" by fastforce
  obtain o1 e where ok: "files_ok w1" "advances w w1" "r = Inr (o1, e)" "ro_execution_id o1 = es_execution_id s"
    "List.member OUTCOME_STATUSES (ro_status o1)"
    using recover_one_ok [OF Cons.prems(1,2) _ Cons.prems(4) one] Cons.prems(3) by auto
  have "\<forall>s \<in> set ss. ready s w1" using Cons.prems(3) ready_advances ok(2) by auto
  from Cons.IH [OF Cons.prems(1) ok(1) this Cons.prems(4)] obtain os w' where
    rest: "rm_recover_list h m clk loop True (Suc n) ss w1 = (Inr os, w')" "files_ok w'" "advances w1 w'"
      "map ro_execution_id os = map es_execution_id ss" "\<forall>o1 \<in> set os. List.member OUTCOME_STATUSES (ro_status o1)"
    by blast
  have "advances w w'" using ok(2) rest(3) by (rule advances_trans)
  then show ?case using one ok rest by simp
qed

section \<open>Properties\<close>


definition failing_loop :: "'w lworld recoverable" where
  "failing_loop = \<lparr>rl_resume = Some (\<lambda>x w. (Inl (Exc RuntimeError ''boom''), w)), rl_run = (\<lambda>g w. (Inr (), w))\<rparr>"

definition sample_manager :: manager where
  "sample_manager = \<lparr>rm_ttl = 60, rm_leases = True, rm_owner = Some ''b''\<rparr>"

definition sample_rlworld :: "unit lworld" where
  "sample_rlworld = \<lparr>lw_store = sample_store, lw_leases = Object [], lw_world = ()\<rparr>"

lemma sample_rlworld_ok: "files_ok sample_rlworld"
  using sample_store_inv by (simp add: files_ok_def sample_rlworld_def lease_inv_def) (simp add: sample_store_def)

lemma single_resumable:
  assumes "store_ok (st_file st)" and "view (st_file st) = [es_execution_id s \<mapsto> s]" and "is_resumable s"
  shows "resumable now st = Inr [s]"
proof -
  obtain ss where ss: "resumable now st = Inr ss" using resumable_spec [OF assms(1), of now] by blast
  have "t \<in> set ss \<longleftrightarrow> t = s" for t
    using resumable_states(2) [OF assms(1) ss, of t] assms(2,3) by auto
  then have set: "set ss = {s}" by auto
  moreover have "length ss = card (set ss)"
    using resumable_states(1) [OF assms(1) ss] by (metis distinct_card distinct_map)
  ultimately have "length ss = 1" by simp
  with set ss show ?thesis by (cases ss) auto
qed

lemma sample_resumable: "resumable now sample_store = Inr [run1]"
  by (rule single_resumable)
    (use sample_store_inv in \<open>simp_all add: store_inv_def sample_view is_resumable_def run1_def new_state_def\<close>)


text \<open>
  A failure is recorded only under the lease. Marking a leased execution as failed writes only
  if the manager owns the lease with that very token both when it asks and inside the store's locked
  section; it then sets the status and the error of that execution, on exactly the version that was
  read. In every other case the store is untouched; the leases and the rest never change.
\<close>

theorem failure_recorded_only_under_lease:
  assumes "store_inv (lw_store w)" and "rm_mark_failed h m now1 now2 s err (Some l) w = (r, w')"
  shows "lw_leases w' = lw_leases w \<and> lw_world w' = lw_world w
    \<and> (case r of
         Inr (Some s') \<Rightarrow>
           rm_leases m \<and> (\<forall>now \<in> {now1, now2}. rm_is_owner m now (es_execution_id s) (Some (ls_fencing_token l)) (lw_leases w) = Inr True)
           \<and> es_status s' = ''failed'' \<and> es_error s' = Some err \<and> es_version s' = es_version s + 1
           \<and> record_of w' = (record_of w)(es_execution_id s \<mapsto> norm_state s')
       | _ \<Rightarrow> lw_store w' = lw_store w)"
  by (rule rm_mark_failed_effect [OF assms])

theorem failure_recorded_only_under_lease_witness:
  "\<exists>r w'. rm_mark_failed sample_host (sample_manager\<lparr>rm_leases := False, rm_owner := None\<rparr>) 0 1 run1 ''boom'' (Some lease_a) sample_rlworld = (r, w')
     \<and> lw_leases w' = Object []"
proof -
  let ?m = "sample_manager\<lparr>rm_leases := False, rm_owner := None\<rparr>"
  have st: "store_inv (lw_store sample_rlworld)" using sample_rlworld_ok by (simp add: files_ok_def)
  obtain r w' where r: "rm_mark_failed sample_host ?m 0 1 run1 ''boom'' (Some lease_a) sample_rlworld = (r, w')"
    by fastforce
  from failure_recorded_only_under_lease [OF st r] r show ?thesis by (auto simp: sample_rlworld_def)
qed

text \<open>
  One pending execution stops recovery. The store calls a pending execution with an attempt
  resumable, the loop refuses to resume it, and marking it as failed is no legal transition: the
  exception leaves \<^verbatim>\<open>recover\<close>, although it was told to continue on errors, and the
  executions behind it are not recovered. Nothing was written, so the next start fails the same way.
\<close>

theorem pending_attempt_blocks_recovery:
  assumes "files_ok w" and "\<not> rm_leases m" and "resumable now (lw_store w) = Inr (s # ss)"
    and "es_status s = ''pending''" and "lc_store cfg \<noteq> None"
  shows "\<exists>e. exc_class e = InvalidExecutionTransition
    \<and> rm_recover h m now rclk (loop_recoverable h cfg now0 now1 now2 clk uid agent md) True w = (Inl e, w)"
proof -
  let ?loop = "loop_recoverable h cfg now0 now1 now2 clk uid agent md"
  let ?e = "Exc ValueError ''execution is not resumable''"
  have f: "store_ok (st_file (lw_store w))" and i: "store_inv (lw_store w)"
    using assms(1) by (simp_all add: files_ok_def store_inv_def)
  have rec: "record_of w (es_execution_id s) = Some s" using resumable_states(2) [OF f assms(3), of s] by simp
  have v: "1 \<le> es_version s" using view_id [OF f rec] by simp
  have "get_state now0 (es_execution_id s) (lw_store w) = Inr (Some s)"
    using rec by (simp add: get_state_def get_unlocked_view [OF f])
  then have refuse: "resume_with ?loop s w = (Inl ?e, w)"
    using assms(4,5) by (simp add: resume_with_def loop_recoverable_def loop_resume_def)
  let ?u = "s\<lparr>es_status := ''failed'', es_error := Some ''execution is not resumable''\<rparr>"
  have no: "\<not> can_transition DEFAULT_TRANSITIONS ''pending'' ''failed''"
    by code_simp
  then obtain msg where val: "validate DEFAULT_TRANSITIONS ''pending'' ''failed'' = Inl (Exc InvalidExecutionTransition msg)"
    using validate_cases by metis
  have "es_execution_id s \<noteq> []" using rec by (cases rule: store_lookup [OF f, of "es_execution_id s"]) auto
  then have "spec_save (st_machine (lw_store w)) (record_of w) (rclk 0 4) ?u (Some (es_version s)) True None None None
      = Inl (Exc InvalidExecutionTransition msg)"
    using assms(1,4) rec val by (simp add: spec_save_def map_version_def map_status_def files_ok_def)
  with save_refines [OF i, of h "rclk 0 4" ?u "Some (es_version s)" True None None None]
  have "compare_and_set h (rclk 0 4) ?u (es_version s) None None None (lw_store w)
      = (Inl (Exc InvalidExecutionTransition msg), lw_store w)"
    using v by (simp add: compare_and_set_def)
  then have mf: "rm_mark_failed h m (rclk 0 3) (rclk 0 4) s ''execution is not resumable'' None w
      = (Inl (Exc InvalidExecutionTransition msg), w)"
    by (simp add: rm_mark_failed_def)
  have "rm_leased h m (rclk 0) ?loop s None w = (Inl (Exc InvalidExecutionTransition msg), w)"
    by (simp add: rm_leased_def rm_attempt_def refuse rm_settle_def mf exc_simps List.member_iff rm_release_def)
  then show ?thesis using assms(2,3) by (simp add: rm_recover_def rm_recover_one_def)
qed

definition stuck1 :: exec_state where
  "stuck1 = run1\<lparr>es_status := ''pending''\<rparr>"

definition stuck_store :: exec_store where
  "stuck_store = \<lparr>st_file = Object [(''e1'', VDict (asdict_state stuck1))], st_machine = DEFAULT_TRANSITIONS, st_audit = None\<rparr>"

lemma stuck1_fields: "es_execution_id stuck1 = ''e1''" "es_status stuck1 = ''pending''" "es_attempt stuck1 = 1"
    "1 \<le> es_version stuck1" "norm_state stuck1 = stuck1"
  by (simp_all add: stuck1_def run1_def new_state_def norm_state_def)

lemma stuck_store_ok: "store_inv stuck_store" "view (st_file stuck_store) = [''e1'' \<mapsto> stuck1]"
  using stuck1_fields by (auto simp: store_inv_def stuck_store_def store_ok_def record_ok_def view_def)

theorem pending_attempt_blocks_recovery_witness:
  "\<exists>e. exc_class e = InvalidExecutionTransition
     \<and> rm_recover sample_host \<lparr>rm_ttl = 60, rm_leases = False, rm_owner = None\<rparr> 0 (\<lambda>n i. int i)
         (loop_recoverable sample_host sample_cfg 0 0 0 (\<lambda>a i. 0) ''u'' ''agent'' []) True
         (sample_lworld\<lparr>lw_store := stuck_store, lw_leases := Object []\<rparr>)
       = (Inl e, sample_lworld\<lparr>lw_store := stuck_store, lw_leases := Object []\<rparr>)"
proof -
  let ?w = "sample_lworld\<lparr>lw_store := stuck_store, lw_leases := Object []\<rparr>"
  have w: "files_ok ?w"
    using stuck_store_ok(1) by (simp add: files_ok_def lease_inv_def) (simp add: stuck_store_def)
  have r: "resumable 0 (lw_store ?w) = Inr (stuck1 # [])"
    using single_resumable [of stuck_store stuck1 0] stuck_store_ok stuck1_fields
    by (simp add: store_inv_def is_resumable_def)
  show ?thesis
    by (rule pending_attempt_blocks_recovery [OF w _ r stuck1_fields(2)]) (simp_all add: sample_cfg_def)
qed

section \<open>Committed work\<close>

lemma recover_one_cong:
  assumes "resume_with loop s = resume_with loop' s"
  shows "rm_recover_one h m clk loop s w = rm_recover_one h m clk loop' s w"
proof -
  have "rm_leased h m clk loop s l v = rm_leased h m clk loop' s l v" for l v
    by (simp add: rm_leased_def rm_attempt_def assms)
  then show ?thesis
    by (auto simp: rm_recover_one_def Let_def split: prod.split sum.split option.split)
qed

lemma recover_list_cong:
  assumes "\<forall>s \<in> set ss. resume_with loop s = resume_with loop' s"
  shows "rm_recover_list h m clk loop cont n ss w = rm_recover_list h m clk loop' cont n ss w"
  using assms
proof (induction ss arbitrary: n w cont)
  case Nil
  then show ?case by simp
next
  case (Cons s ss)
  have one: "rm_recover_one h m (clk n) loop s w = rm_recover_one h m (clk n) loop' s w"
    using Cons.prems by (intro recover_one_cong) simp
  have rest: "rm_recover_list h m clk loop c (Suc n) ss w1 = rm_recover_list h m clk loop' c (Suc n) ss w1" for w1 c
    by (rule Cons.IH) (use Cons.prems in simp)
  show ?case
    by (cases "rm_recover_one h m (clk n) loop' s w" rule: result_cases_pair)
      (simp_all add: one rest case_prod_unfold)
qed

lemma coord_put [simp]: "coord_of (put_coord c w) = c" "lw_store (put_coord c w) = co_store c"
  by (simp_all add: coord_of_def put_coord_def)

lemma put_put [simp]: "put_coord c (put_coord d w) = put_coord c w"
  by (simp add: put_coord_def)

text \<open>
  C17. Committed work is not resumed. Suppose a process died while it committed an execution to
  completed or failed, after the journal record was written (and whatever else was). The orchestrator
  of the next process reconciles first, and from there on recovery does not depend on what resuming
  that execution would do: two loops that differ on that execution only give the same report and the
  same world. The reconciliation itself does not raise.
\<close>

theorem committed_work_not_resumed:
  assumes app: "commit_applies cfg (clk 2) s t (coord_of w) cs" and h: "digest_ok h" and st: "es_status s \<noteq> t"
    and k: "1 \<le> k" and t: "t = ''completed'' \<or> t = ''failed''"
    and lv: "lease_valid cfg' (clk' 1) (lw_leases w) (es_execution_id s) = Inr True"
    and v: "v = put_coord (commit_upto k h cfg clk s t cp r (coord_of w)) w"
    and agree: "\<forall>s'. es_execution_id s' \<noteq> es_execution_id s \<longrightarrow> resume_with loop s' = resume_with loop' s'"
  shows "orchestrator_recover h m (Some cfg') clk' now rclk loop cont v =
      orchestrator_recover h m (Some cfg') clk' now rclk loop' cont v
    \<and> (\<exists>is. fst (reconcile_commits h (Some cfg') clk' v) = Inr is)"
proof -
  obtain r' c' where rec: "(r', c') = reconcile h cfg' clk' (commit_upto k h cfg clk s t cp r (coord_of w))"
    by (metis surj_pair)
  have lv': "lease_valid cfg' (clk' 1) (co_leases (coord_of w)) (es_execution_id s) = Inr True"
    using lv by (simp add: coord_of_def)
  obtain "is" q where res: "r' = Inr is" "states c' = (states (coord_of w))(es_execution_id s \<mapsto> q)" "es_status q = t"
    "store_inv (co_store c')"
    using crash_recovered [where clk = clk and clk' = clk' and now = now, OF app h st k refl lv' rec] by blast
  have f: "store_ok (st_file (co_store c'))" using res(4) by (simp add: store_inv_def)
  have rc: "reconcile_commits h (Some cfg') clk' v = (Inr is, put_coord c' w)"
    using rec [symmetric] res(1) by (simp add: reconcile_commits_def v)
  obtain ss where ss: "resumable now (co_store c') = Inr ss" using resumable_spec [OF f, of now] by blast
  have "es_execution_id u \<noteq> es_execution_id s" if "u \<in> set ss" for u
  proof
    assume "es_execution_id u = es_execution_id s"
    then have "u = q" "is_resumable u" using that resumable_states(2) [OF f ss, of u] res(2) by auto
    with res(3) t show False by (auto simp: is_resumable_def)
  qed
  then have "rm_recover h m now rclk loop cont (put_coord c' w) = rm_recover h m now rclk loop' cont (put_coord c' w)"
    using agree recover_list_cong [of ss loop loop'] by (simp add: rm_recover_def ss)
  then show ?thesis by (simp add: orchestrator_recover_def rc)
qed

definition sample_files :: "unit files lworld" where
  "sample_files = \<lparr>lw_store = sample_store, lw_leases = Object [(''e1'', lease_b)],
     lw_world = \<lparr>fl_journal = [], fl_quarantine = [], fl_audit = [], fl_queue = [], fl_world = ()\<rparr>\<rparr>"

lemma sample_files_coord: "coord_of sample_files = sample_coord"
  by (simp add: coord_of_def sample_files_def sample_coord_def)

theorem committed_work_not_resumed_witness:
  "\<exists>is. fst (reconcile_commits sample_host (Some Commit_Spec.sample_cfg) sample_clk
     (put_coord (commit_upto 1 sample_host Commit_Spec.sample_cfg sample_clk run1 ''completed'' VNone None sample_coord) sample_files))
     = Inr is"
proof -
  have run1: "es_execution_id run1 = ''e1''" "es_status run1 \<noteq> ''completed''"
    by (simp_all add: run1_def new_state_def)
  have app: "commit_applies Commit_Spec.sample_cfg (sample_clk 2) run1 ''completed'' (coord_of sample_files) []"
    using sample_applies by (simp add: sample_files_coord)
  have lv: "lease_valid Commit_Spec.sample_cfg (sample_clk 1) (lw_leases sample_files) (es_execution_id run1) = Inr True"
    using sample_lease_valid by (simp add: run1 sample_files_def sample_coord_def)
  from committed_work_not_resumed [where clk = sample_clk and clk' = sample_clk and k = 1 and loop = failing_loop and loop' = failing_loop,
      OF app sample_digest run1(2) _ _ lv refl]
  show ?thesis by (simp add: sample_files_coord)
qed

end
