(* ===== verification/Bootstrap_Spec.thy ===== *)
theory Bootstrap_Spec
  imports Bootstrap Recovery_Spec
begin

text \<open>
  What startup recovery guarantees: its report adds up, a lost lease stops the work, and exhausted
  executions are left to the operators.
\<close>

section \<open>The report\<close>

definition exhausted :: "int \<Rightarrow> exec_state \<Rightarrow> bool" where
  "exhausted n s \<longleftrightarrow> in_flight s \<and> n \<le> es_attempt s"

definition retriable :: "int \<Rightarrow> exec_state \<Rightarrow> bool" where
  "retriable n s \<longleftrightarrow> in_flight s \<and> es_attempt s < n"

lemma decide_action:
  "rd_action (decide n x (es_status s) (es_attempt s) False r) =
     (if exhausted n s then MANUAL_REVIEW else if retriable n s then RETRY else SKIP)"
  by (auto simp: decide_def exhausted_def retriable_def in_flight_def)

lemma decide_exhausted:
  "exhausted n s \<Longrightarrow> decide n x (es_status s) (es_attempt s) False None =
     \<lparr>rd_execution_id = x, rd_action = MANUAL_REVIEW, rd_reason = ''maximum recovery attempts reached'',
      rd_attempt = es_attempt s\<rparr>"
  by (auto simp: decide_def exhausted_def in_flight_def reason_or_def opt_list_def)

text \<open>Every handled execution is counted once.\<close>

definition handled :: "counts \<Rightarrow> nat" where
  "handled c = ct_recovered c + ct_failed c + ct_skipped c + ct_manual_review c"

definition counted :: "int \<Rightarrow> exec_state list \<Rightarrow> counts \<Rightarrow> counts \<Rightarrow> bool" where
  "counted n ss c c' \<longleftrightarrow>
     handled c' = handled c + length ss
     \<and> ct_retried c' = ct_retried c + length (filter (retriable n) ss)
     \<and> ct_manual_review c' = ct_manual_review c + length (filter (exhausted n) ss)
     \<and> ct_quarantined c' = ct_quarantined c
     \<and> ct_recovered c' + ct_failed c' + ct_retried c \<le> ct_recovered c + ct_failed c + ct_retried c'"

lemma finally_counts:
  "boot_finally b clk s l p = (Inr c', w') \<Longrightarrow> fst p = Inr c'"
  by (auto simp: boot_finally_def split: prod.splits sum.splits)

lemma handle_counts:
  assumes "boot_handle h b clk s l p (Inr c, w0) = (Inr c', w')"
  shows "c' = c\<lparr>ct_recovered := ct_recovered c + 1\<rparr> \<or> c' = c\<lparr>ct_skipped := ct_skipped c + 1\<rparr>
    \<or> c' = c\<lparr>ct_failed := ct_failed c + 1\<rparr>"
proof (cases p rule: result_cases_pair)
  case (Raised e w)
  then show ?thesis
    using assms by (auto simp: boot_handle_def split: if_splits prod.splits sum.splits)
next
  case (Returned r w)
  then show ?thesis using assms by (cases r) (auto simp: boot_handle_def)
qed

lemma retry_counts:
  assumes "boot_retry h b clk es resume s c w = Some (Inr c', w')"
  shows "\<exists>c0. c0 = c\<lparr>ct_retried := ct_retried c + 1\<rparr>
    \<and> (c' = c0\<lparr>ct_recovered := ct_recovered c0 + 1\<rparr> \<or> c' = c0\<lparr>ct_skipped := ct_skipped c0 + 1\<rparr>
      \<or> c' = c0\<lparr>ct_failed := ct_failed c0 + 1\<rparr>)"
proof (cases "acquire (bt_ttl b) (es_execution_id s) (bt_owner b) (clk 0) (lw_leases w)" rule: result_cases_pair)
  case (Raised e f)
  then show ?thesis using assms by (simp add: boot_retry_def)
next
  case (Returned l f)
  show ?thesis
  proof (cases l)
    case None
    then show ?thesis using assms Returned by (simp add: boot_retry_def)
  next
    case (Some l)
    obtain p where "boot_finally b clk s l (boot_handle h b clk s l p (Inr (c\<lparr>ct_retried := ct_retried c + 1\<rparr>), snd p))
        = (Inr c', w')"
      using assms Returned Some by (auto simp: boot_retry_def)
    then show ?thesis using finally_counts handle_counts by (metis surj_pair fst_conv)
  qed
qed

lemma one_counts:
  assumes "boot_one h b clk es resume s c w = Some (Inr c', w')"
  shows "counted (bt_policy_max b) [s] c c'"
proof -
  consider (review) "exhausted (bt_policy_max b) s" | (retry) "retriable (bt_policy_max b) s"
    | (skip) "\<not> exhausted (bt_policy_max b) s" "\<not> retriable (bt_policy_max b) s" by blast
  then show ?thesis
  proof cases
    case review
    then have "c' = c\<lparr>ct_manual_review := ct_manual_review c + 1\<rparr>"
      using assms
      by (cases "boot_queue clk s (decide (bt_policy_max b) (es_execution_id s) (es_status s) (es_attempt s) False None) w"
          rule: result_cases_pair) (auto simp: boot_one_def decide_action)
    moreover have "\<not> retriable (bt_policy_max b) s" using review by (simp add: exhausted_def retriable_def)
    ultimately show ?thesis using review by (simp add: counted_def handled_def)
  next
    case retry
    then have ne: "\<not> exhausted (bt_policy_max b) s" by (simp add: exhausted_def retriable_def)
    then have "boot_retry h b clk es resume s c w = Some (Inr c', w')"
      using assms retry by (simp add: boot_one_def decide_action)
    then show ?thesis
      using retry_counts retry ne by (fastforce simp: counted_def handled_def)
  next
    case skip
    then show ?thesis using assms by (auto simp: boot_one_def decide_action counted_def handled_def)
  qed
qed

lemma counted_trans: "counted n ss c c1 \<Longrightarrow> counted n ts c1 c2 \<Longrightarrow> counted n (ss @ ts) c c2"
  by (simp add: counted_def)

lemma all_counts:
  "boot_all h b clk sched resume n ss c w = Some (Inr c', w') \<Longrightarrow> counted (bt_policy_max b) ss c c'"
proof (induction ss arbitrary: n c w)
  case Nil
  then show ?case by (simp add: counted_def)
next
  case (Cons s ss)
  obtain c1 w1 where one: "boot_one h b (clk n) (sched n) resume s c w = Some (Inr c1, w1)"
    and rest: "boot_all h b clk sched resume (Suc n) ss c1 w1 = Some (Inr c', w')"
    using Cons.prems by (auto split: option.splits sum.splits prod.splits)
  show ?case using counted_trans [OF one_counts [OF one] Cons.IH [OF rest]] by simp
qed

text \<open>
  The startup report adds up: of the executions found after reconciliation, each one was
  recovered, failed, skipped or sent to manual review, and none twice; the attempted ones are exactly
  those in flight with attempts left, the reviewed ones those without, and recovered and failed
  executions are among the attempted. Nothing is ever quarantined, since the policy is never told
  about a corrupt journal.
\<close>

theorem startup_report_adds_up:
  assumes "recover_pending h b rclk now clk sched resume w = Some (Inr rep, w')"
  shows "\<exists>pending. resumable now (lw_store (snd (boot_reconcile h (bt_coordinator b) rclk w))) = Inr pending
    \<and> br_discovered rep = length pending
    \<and> br_discovered rep = br_recovered rep + br_failed rep + br_skipped rep + br_manual_review rep
    \<and> br_attempted rep = length (filter (retriable (bt_policy_max b)) pending)
    \<and> br_manual_review rep = length (filter (exhausted (bt_policy_max b)) pending)
    \<and> br_recovered rep + br_failed rep \<le> br_attempted rep \<and> br_retried rep = br_attempted rep
    \<and> br_quarantined rep = 0"
proof -
  obtain p w0 where rc: "boot_reconcile h (bt_coordinator b) rclk w = (p, w0)" by (cases "boot_reconcile h (bt_coordinator b) rclk w")
  obtain reconciled rfailed where p: "p = (reconciled, rfailed)" by (cases p)
  obtain pending where pend: "resumable now (lw_store w0) = Inr pending"
    using assms rc p by (cases "resumable now (lw_store w0)") (simp_all add: recover_pending_def)
  obtain r w1 where all: "boot_all h b clk sched resume 0 pending no_counts w0 = Some (r, w1)"
    using assms rc p pend by (auto simp: recover_pending_def)
  then obtain c where c: "r = Inr c" using assms rc p pend by (cases r) (auto simp: recover_pending_def)
  have "counted (bt_policy_max b) pending no_counts c" using all_counts all c by blast
  moreover have "rep = \<lparr>br_discovered = length pending, br_attempted = ct_retried c, br_recovered = ct_recovered c,
             br_failed = ct_failed c, br_skipped = ct_skipped c, br_reconciled = reconciled,
             br_reconciliation_failed = rfailed, br_retried = ct_retried c,
             br_quarantined = ct_quarantined c, br_manual_review = ct_manual_review c\<rparr>"
    using assms rc p pend all c by (simp add: recover_pending_def)
  ultimately show ?thesis
    using rc pend by (simp add: counted_def handled_def no_counts_def)
qed


section \<open>Who is resumed\<close>

lemma retry_cong:
  assumes "resume s = resume' s"
  shows "boot_retry h b clk es resume s c w = boot_retry h b clk es resume' s c w"
proof -
  have "boot_try b clk es resume s l v = boot_try b clk es resume' s l v" for l v
    unfolding boot_try_def Let_def by (simp only: assms)
  then show ?thesis unfolding boot_retry_def Let_def by (simp only:)
qed

lemma one_cong:
  assumes "retriable (bt_policy_max b) s \<longrightarrow> resume s = resume' s"
  shows "boot_one h b clk es resume s c w = boot_one h b clk es resume' s c w"
proof (cases "retriable (bt_policy_max b) s")
  case True
  then have "boot_retry h b clk es resume s c w = boot_retry h b clk es resume' s c w"
    using assms retry_cong by blast
  then show ?thesis unfolding boot_one_def Let_def by (simp only:)
next
  case False
  then show ?thesis by (simp add: boot_one_def decide_action)
qed

lemma all_cong:
  assumes "\<forall>s \<in> set ss. retriable (bt_policy_max b) s \<longrightarrow> resume s = resume' s"
  shows "boot_all h b clk sched resume n ss c w = boot_all h b clk sched resume' n ss c w"
  using assms
proof (induction ss arbitrary: n c w)
  case Nil
  then show ?case by simp
next
  case (Cons s ss)
  have one: "boot_one h b (clk n) (sched n) resume s c w = boot_one h b (clk n) (sched n) resume' s c w"
    using Cons.prems by (intro one_cong) simp
  have rest: "boot_all h b clk sched resume (Suc n) ss c1 w1 = boot_all h b clk sched resume' (Suc n) ss c1 w1" for c1 w1
    by (rule Cons.IH) (use Cons.prems in simp)
  show ?case by (simp only: boot_all.simps one rest)
qed

lemma review_queued:
  assumes "exhausted (bt_policy_max b) s" and "queue_ok (fl_queue (lw_world w))"
  shows "\<exists>q. boot_one h b clk es resume s c w =
      Some (Inr (c\<lparr>ct_manual_review := ct_manual_review c + 1\<rparr>), w\<lparr>lw_world := (lw_world w)\<lparr>fl_queue := q\<rparr>\<rparr>)
    \<and> queue_ok q \<and> open_cases q = insert (es_execution_id s, ''manual_review'') (open_cases (fl_queue (lw_world w)))"
proof -
  let ?i = "new_item (es_execution_id s) ''manual_review'' ''maximum recovery attempts reached'' (es_attempt s)
      (es_correlation_id s) (clk 6)"
  obtain r q where e: "enqueue ?i (fl_queue (lw_world w)) = (r, q)" by (cases "enqueue ?i (fl_queue (lw_world w))")
  have i: "\<not> qi_resolved ?i" "qi_execution_id ?i = es_execution_id s" "qi_action ?i = ''manual_review''"
    by (simp_all add: new_item_def)
  show ?thesis
    using enqueue_cases(1-3) [OF assms(2) i(1) refl e] e i(2,3)
    by (intro exI [of _ q]) (simp add: boot_one_def decide_exhausted [OF assms(1)] boot_queue_def)
qed

text \<open>
  Who is resumed at startup. Only executions in flight with attempts left: what resuming any
  other would do has no influence on startup. An execution that has used up its attempts becomes an
  open case for the operators (once, however often the runtime restarts), and neither its record nor
  any lease is touched.
\<close>

theorem exhausted_left_to_operators:
  assumes "\<forall>s. retriable (bt_policy_max b) s \<longrightarrow> resume s = resume' s"
    and "exhausted (bt_policy_max b) s" and "queue_ok (fl_queue (lw_world w))"
  shows "recover_pending h b rclk now clk sched resume v = recover_pending h b rclk now clk sched resume' v
    \<and> (\<exists>q. boot_one h b clk1 es resume s c w =
          Some (Inr (c\<lparr>ct_manual_review := ct_manual_review c + 1\<rparr>), w\<lparr>lw_world := (lw_world w)\<lparr>fl_queue := q\<rparr>\<rparr>)
        \<and> queue_ok q
        \<and> open_cases q = insert (es_execution_id s, ''manual_review'') (open_cases (fl_queue (lw_world w))))"
proof -
  have "boot_all h b clk sched resume 0 ss no_counts u = boot_all h b clk sched resume' 0 ss no_counts u" for ss u
    using assms(1) by (intro all_cong) simp
  then have "recover_pending h b rclk now clk sched resume v = recover_pending h b rclk now clk sched resume' v"
    unfolding recover_pending_def Let_def by (simp only:)
  then show ?thesis using review_queued [OF assms(2,3)] by blast
qed

section \<open>Supervision\<close>

lemma fail_closed_Inl: "\<exists>e'. fail_closed e r = Inl e'"
  by (cases r) (auto simp: fail_closed_def)

lemma final_check_owner:
  "final_check owner x (Some t) now f = Inr () \<Longrightarrow> is_owner x owner (Some t) now f = Inr True"
  by (auto simp: final_check_def split: sum.splits bool.splits)

lemma supervise_owner:
  assumes "supervise ttl owner x (Some t) now es tk w = Some (Inr (), w')"
  shows "is_owner x owner (Some t) now (lw_leases w') = Inr True"
  using assms
proof (induction ttl owner x "Some t" now es tk w
    rule: supervise.induct [case_names done_beat ready due stuck resumed beat])
  case (done_beat ttl owner x now now1 now2 es r w)
  show ?case
  proof (cases "heartbeat ttl owner x (Some t) now1 now2 (lw_leases w)" rule: result_cases_pair)
    case (Raised e f)
    then show ?thesis using done_beat fail_closed_Inl [of e r] by auto
  next
    case (Returned u f)
    then show ?thesis using done_beat by auto
  qed
next
  case (ready ttl owner x now r w)
  then show ?case using final_check_owner by (cases r) auto
next
  case (due ttl owner x now es r w)
  then show ?case using final_check_owner by (cases r) auto
next
  case (stuck ttl owner x now go cancel w)
  then show ?case by simp
next
  case (resumed ttl owner x now es go cancel w)
  then show ?case by (cases "go w") auto
next
  case (beat ttl owner x now now1 now2 es go cancel w)
  show ?case
  proof (cases "heartbeat ttl owner x (Some t) now1 now2 (lw_leases w)" rule: result_cases_pair)
    case (Raised e f)
    obtain r w1 where c: "cancel (w\<lparr>lw_leases := f\<rparr>) = (r, w1)" by fastforce
    obtain e' where "fail_closed e r = Inl e'" using fail_closed_Inl by blast
    then show ?thesis using beat Raised c by simp
  next
    case (Returned u f)
    then show ?thesis using beat by auto
  qed
qed

lemma renew_lost:
  assumes "lease_inv f" and "is_owner x owner (Some t) now f \<noteq> Inr True"
  shows "renew ttl x owner (Some t) now f = (Inr None, f)"
  using assms lease_inv_Object [OF assms(1)]
  by (auto simp: lease_ops is_owner_def is_owner_unlocked_def split: option.splits)

lemma renew_owned:
  assumes "is_owner x owner (Some t) now f = Inr True"
  shows "\<exists>l f'. renew ttl x owner (Some t) now f = (Inr (Some l), f')
    \<and> (\<forall>n < now + seconds ttl. is_owner x owner (Some t) n f' = Inr True)"
  using assms
  by (cases f) (auto simp: lease_ops is_owner_def is_owner_unlocked_def token_matches_def split: option.splits)


section \<open>Witnesses\<close>

definition sample_boot :: bootstrap where
  "sample_boot = \<lparr>bt_ttl = 60, bt_owner = ''b'', bt_manager = default_manager, bt_policy_max = 3, bt_coordinator = None\<rparr>"

text \<open>Resuming sets a flag in one segment.\<close>

definition flag_resume :: "bool resume_fun" where
  "flag_resume s w = (Inr (Some (Await (\<lambda>w. (Done (Inr ()), w\<lparr>lw_world := (lw_world w)\<lparr>fl_world := True\<rparr>\<rparr>))
     (\<lambda>w. (Inl (Exc CancelledError []), w)))), w)"

definition flag_world :: "bool files lworld" where
  "flag_world = \<lparr>lw_store = sample_store, lw_leases = Object [],
     lw_world = \<lparr>fl_journal = [], fl_quarantine = [], fl_audit = [], fl_queue = [], fl_world = False\<rparr>\<rparr>"

lemma sample_startup:
  "recover_pending sample_host sample_boot (\<lambda>i. 0) 0 (\<lambda>n i. int i) (\<lambda>n. [Beat 1 1, Segment]) flag_resume flag_world =
     Some (Inr \<lparr>br_discovered = 1, br_attempted = 1, br_recovered = 1, br_failed = 0, br_skipped = 0, br_reconciled = 0,
       br_reconciliation_failed = 0, br_retried = 1, br_quarantined = 0, br_manual_review = 0\<rparr>,
       flag_world\<lparr>lw_leases := Object [(''e1'', \<lparr>ls_execution_id = ''e1'', ls_owner_id = [], ls_expires_at = 5, ls_fencing_token = 1\<rparr>)],
         lw_world := (lw_world flag_world)\<lparr>fl_world := True\<rparr>\<rparr>)"
  by (simp add: recover_pending_def boot_reconcile_def reconcile_commits_def sample_boot_def sample_resumable no_counts_def
        boot_one_def decide_def run1_def new_state_def reason_or_def boot_retry_def lease_ops flag_world_def boot_try_def
        flag_resume_def is_owner_def is_owner_unlocked_def token_matches_def run_with_heartbeat_def heartbeat_def
        final_check_def boot_handle_def boot_finally_def seconds_def)

theorem startup_report_adds_up_witness:
  "\<exists>pending. resumable 0 sample_store = Inr pending \<and> length pending = 1 \<and> length (filter (retriable 3) pending) = 1"
  using startup_report_adds_up [OF sample_startup]
  by (auto simp: boot_reconcile_def reconcile_commits_def sample_boot_def flag_world_def)

definition tired1 :: exec_state where
  "tired1 = run1\<lparr>es_attempt := 3\<rparr>"

theorem exhausted_left_to_operators_witness:
  "\<exists>q. boot_one sample_host sample_boot (\<lambda>i. int i) [] flag_resume tired1 no_counts flag_world =
      Some (Inr (no_counts\<lparr>ct_manual_review := 1\<rparr>), flag_world\<lparr>lw_world := (lw_world flag_world)\<lparr>fl_queue := q\<rparr>\<rparr>)
    \<and> open_cases q = {(''e1'', ''manual_review'')}"
proof -
  have s: "exhausted (bt_policy_max sample_boot) tired1" "es_execution_id tired1 = ''e1''"
    by (simp_all add: exhausted_def in_flight_def tired1_def run1_def new_state_def sample_boot_def)
  have q: "queue_ok (fl_queue (lw_world flag_world))" "open_cases (fl_queue (lw_world flag_world)) = {}"
    by (simp_all add: queue_ok_def open_cases_def flag_world_def)
  show ?thesis
    using exhausted_left_to_operators [OF _ s(1) q(1), of flag_resume flag_resume sample_host "\<lambda>i. 0" 0 "\<lambda>n i. int i"
        "\<lambda>n. []" flag_world "\<lambda>i. int i" "[]" no_counts]
    by (auto simp: s(2) q(2) no_counts_def)
qed


end
