(* ===== verification/Lifecycle_Spec.thy ===== *)
theory Lifecycle_Spec
  imports Lifecycle Bootstrap_Spec
begin

text \<open>
  What the life of a runtime comes to: as it is wired, starting recovers no execution; shutting down
  runs everything registered once, in reverse order, and gives back the owner's leases.
\<close>

section \<open>Starting\<close>

text \<open>No record is settled: at most a retrying execution is marked running again.\<close>

definition kept :: "'w lworld \<Rightarrow> 'w lworld \<Rightarrow> bool" where
  "kept w w' \<longleftrightarrow> (\<forall>y. case record_of w y of
      None \<Rightarrow> record_of w' y = None
    | Some p \<Rightarrow> (\<exists>q. record_of w' y = Some q \<and> (q = p \<or> es_status p = ''retrying'' \<and> es_status q = ''running'')))"

lemma kept_refl: "record_of w' = record_of w \<Longrightarrow> kept w w'"
  by (simp add: kept_def split: option.split)

lemma kept_trans:
  assumes "kept w w1" and "kept w1 w2"
  shows "kept w w2"
  unfolding kept_def
proof
  fix y
  note a = assms(1) [unfolded kept_def, THEN spec, of y] and b = assms(2) [unfolded kept_def, THEN spec, of y]
  show "case record_of w y of None \<Rightarrow> record_of w2 y = None
    | Some p \<Rightarrow> (\<exists>q. record_of w2 y = Some q \<and> (q = p \<or> es_status p = ''retrying'' \<and> es_status q = ''running''))"
  proof (cases "record_of w y")
    case None
    then show ?thesis using a b by simp
  next
    case (Some p)
    then obtain q where "record_of w1 y = Some q" "q = p \<or> es_status p = ''retrying'' \<and> es_status q = ''running''"
      using a by auto
    moreover then obtain r where "record_of w2 y = Some r" "r = q \<or> es_status q = ''retrying'' \<and> es_status r = ''running''"
      using b by auto
    ultimately show ?thesis using Some by (cases "q = p") auto
  qed
qed

lemma lease_aware_never_attempts:
  assumes "lc_store cfg = Some (Lease_Aware owner)" and "es_execution_id s \<noteq> []" and "es_version s \<noteq> 0"
  shows "attempts h cfg clk ctx goal n a s plan w =
    (Inl (Exc ValueError ''fencing_token is required for lease-aware checkpointing''), w)"
proof (cases n)
  case 0
  then show ?thesis
    using assms by (simp add: checkpoint_failed_def la_mark_failed_def lease_check_persisted set_store_def)
next
  case (Suc m)
  then show ?thesis by (intro lease_aware_refuses [OF assms]) simp
qed

lemma lease_aware_resume:
  assumes "files_ok w" and "lc_store cfg = Some (Lease_Aware owner)"
  obtains e w' where "loop_resume h cfg now0 now1 now2 clk agent md x w = (Inl e, w')" "isinst e [PyException]"
    "files_ok w'" "lw_leases w' = lw_leases w" "lw_world w' = lw_world w" "kept w w'"
proof -
  have f: "store_inv (lw_store w)" "st_machine (lw_store w) = DEFAULT_TRANSITIONS" "store_ok (st_file (lw_store w))"
    using assms(1) by (simp_all add: files_ok_def store_inv_def)
  have get: "get_state now x (lw_store w) = Inr (record_of w x)" for now
    using get_unlocked_view [OF f(3)] by (simp add: get_state_def)
  have py: "isinst (Exc ValueError m) [PyException]" for m by (simp add: exc_simps List.member_iff)
  show thesis
  proof (cases "\<exists>p. record_of w x = Some p \<and> in_flight p")
    case False
    then have "loop_resume h cfg now0 now1 now2 clk agent md x w = (Inl (Exc ValueError ''execution is not resumable''), w)"
      using assms(2) by (auto simp: loop_resume_def get in_flight_def split: option.split)
    then show thesis using that assms(1) py kept_refl by blast
  next
    case True
    then obtain p where p: "record_of w x = Some p" "in_flight p" by blast
    have idp: "es_execution_id p = x" "1 \<le> es_version p" using view_id [OF f(3) p(1)] by auto
    have ne: "x \<noteq> []" using p(1) by (cases rule: store_lookup [OF f(3), of x]) auto
    let ?ctx = "new_context x agent (es_goal p) md"
    have ctx: "ctx_execution_id ?ctx = x" by (simp add: new_context_def)
    have res: "loop_resume h cfg now0 now1 now2 clk agent md x w =
        run_from_state h cfg now1 now2 clk ?ctx (es_goal p) (es_plan p) (es_attempt p) w"
      using assms(2) p idp by (auto simp: loop_resume_def get in_flight_def)
    show thesis
    proof (cases "es_status p = ''running''")
      case True
      then have "begin_state h cfg now1 now2 x (es_goal p) (es_plan p) (es_attempt p) w = (Inr p, w)"
        using assms(2) p(1) by (simp add: begin_state_def get)
      then have "loop_resume h cfg now0 now1 now2 clk agent md x w =
          (Inl (Exc ValueError ''fencing_token is required for lease-aware checkpointing''), w)"
        using lease_aware_never_attempts [OF assms(2)] idp ne by (simp add: res run_from_state_def ctx)
      then show thesis using that assms(1) py kept_refl by blast
    next
      case False
      then have re: "es_status p = ''retrying''" using p(2) by (simp add: in_flight_def)
      have step: "in_step p p w" using f p(1) idp by (simp add: in_step_def)
      let ?ups = "[Set_Attempt (max 1 (es_attempt p)), Set_Plan (es_plan p)]"
      obtain u st' where u: "transition h now2 (es_execution_id p) ''running'' ?ups (lw_store w) = (Inr u, st')"
        "in_step (copy_back p u) (norm_state u) (w\<lparr>lw_store := st'\<rparr>)" "es_status u = ''running''"
        "view (st_file st') = (record_of w)(es_execution_id p \<mapsto> norm_state u)"
        by (rule transition_in_step [OF step, of "''running''" ?ups h now2]) (use re edges in auto)
      let ?w = "w\<lparr>lw_store := st'\<rparr>"
      have b: "begin_state h cfg now1 now2 x (es_goal p) (es_plan p) (es_attempt p) w = (Inr (copy_back p u), ?w)"
        using assms(2) p(1) re u(1) by (simp add: begin_state_def get loop_transition_def)
      have ok: "files_ok ?w" using assms(1) u(2) by (simp add: files_ok_def in_step_def)
      have "store_ok (st_file (lw_store ?w))" "record_of ?w x = Some (norm_state u)"
        using u(2,4) idp(1) by (simp_all add: in_step_def store_inv_def)
      then have "1 \<le> es_version (norm_state u)" using view_id by blast
      then have v: "es_version (copy_back p u) \<noteq> 0" "es_execution_id (copy_back p u) \<noteq> []"
        using idp ne by (simp_all add: copy_back_def)
      have "kept w ?w"
        using u(3,4) idp re p(1) by (simp add: kept_def split: option.split)
      moreover have "loop_resume h cfg now0 now1 now2 clk agent md x w =
          (Inl (Exc ValueError ''fencing_token is required for lease-aware checkpointing''), ?w)"
        using lease_aware_never_attempts [OF assms(2) v(2,1)] b by (simp add: res run_from_state_def ctx)
      ultimately show thesis using that ok py by simp
    qed
  qed
qed

text \<open>Starting leaves the queue, and what the executor works on, as they are.\<close>

definition idle :: "'w files lworld \<Rightarrow> 'w files lworld \<Rightarrow> bool" where
  "idle w w' \<longleftrightarrow> files_ok w' \<and> queue_ok (fl_queue (lw_world w')) \<and> fl_world (lw_world w') = fl_world (lw_world w) \<and> kept w w'"

lemma idle_trans: "idle w w1 \<Longrightarrow> idle w1 w2 \<Longrightarrow> idle w w2"
  unfolding idle_def using kept_trans by metis

lemma kept_world:
  "kept w (w'\<lparr>lw_leases := f\<rparr>) \<longleftrightarrow> kept w w'" "kept w (w'\<lparr>lw_world := v\<rparr>) \<longleftrightarrow> kept w w'"
  by (simp_all add: kept_def cong: option.case_cong)

lemma idle_leases: "idle w w1 \<Longrightarrow> lease_inv f \<Longrightarrow> idle w (w1\<lparr>lw_leases := f\<rparr>)"
  by (simp add: idle_def files_ok_def kept_world)

lemma heartbeat_inv:
  assumes "lease_inv f" and "heartbeat ttl owner x tok now1 now2 f = (r, f')"
  shows "lease_inv f' \<and> (\<forall>e. r = Inl e \<longrightarrow> isinst e [PyException])"
proof -
  obtain r1 f1 where rn: "renew ttl x owner tok now1 f = (r1, f1)" by fastforce
  have inv: "lease_inv f1"
    using lease_step_inv [OF assms(1), of ttl "(now1, Op_Renew x owner tok)"] rn by simp
  obtain d where d: "f = Object d" using lease_inv_Object [OF assms(1)] by blast
  have r1: "\<exists>l. r1 = Inr l" using rn by (auto simp: lease_ops d split: option.splits if_splits)
  have own: "\<exists>b. is_owner x owner tok now2 f1 = Inr b"
    using lease_inv_Object [OF inv] by (auto simp: is_owner_def is_owner_unlocked_def read_leases_def)
  have py: "isinst (Exc RuntimeError m) [PyException]" for m by (simp add: exc_simps List.member_iff)
  show ?thesis
    using assms(2) rn inv r1 own py by (auto simp: heartbeat_def split: option.splits if_splits bool.splits)
qed

lemma fail_closed_py:
  assumes "isinst e [PyException]" and "\<forall>e'. r = Inl e' \<longrightarrow> isinst e' [PyException] \<or> isinst e' [CancelledError]"
  shows "\<exists>e'. fail_closed e r = Inl e' \<and> isinst e' [PyException]"
  using assms by (cases r) (auto simp: fail_closed_def)

lemma supervise_dead:
  assumes "idle v w" and "isinst e [PyException]"
  shows "\<exists>e' w'. supervise ttl owner x tok now es (Done (Inl e)) w = Some (Inl e', w') \<and> isinst e' [PyException] \<and> idle v w'"
  using assms
proof (induction es arbitrary: w)
  case Nil
  then show ?case by auto
next
  case (Cons b es)
  show ?case
  proof (cases b)
    case Segment
    then show ?thesis using Cons.prems by auto
  next
    case (Beat now1 now2)
    have inv: "lease_inv (lw_leases w)" using Cons.prems by (simp add: idle_def files_ok_def)
    obtain r f where hb: "heartbeat ttl owner x tok now1 now2 (lw_leases w) = (r, f)" by fastforce
    note f = heartbeat_inv [OF inv hb]
    have i: "idle v (w\<lparr>lw_leases := f\<rparr>)" using idle_leases Cons.prems(1) f by blast
    show ?thesis
    proof (cases r)
      case (Inl e1)
      then obtain e' where "fail_closed e1 (Inl e) = Inl e'" "isinst e' [PyException]"
        using fail_closed_py [of e1 "Inl e"] f Cons.prems(2) by auto
      then show ?thesis using Beat hb Inl i by auto
    next
      case (Inr u)
      then show ?thesis using Beat hb Cons.IH [OF i Cons.prems(2)] by auto
    qed
  qed
qed

text \<open>A coroutine whose only segment raises and leaves everything idle.\<close>

lemma supervise_refused:
  assumes "idle v w" and "Segment \<in> set es"
    and go: "\<And>w. idle v w \<Longrightarrow> \<exists>e w'. go w = (Done (Inl e), w') \<and> isinst e [PyException] \<and> idle v w'"
  shows "\<exists>e w'. supervise ttl owner x tok now es (Await go (\<lambda>w. (Inl (Exc CancelledError []), w))) w = Some (Inl e, w')
    \<and> isinst e [PyException] \<and> idle v w'"
  using assms(1,2)
proof (induction es arbitrary: w)
  case Nil
  then show ?case by simp
next
  case (Cons b es)
  show ?case
  proof (cases b)
    case Segment
    obtain e w' where "go w = (Done (Inl e), w')" "isinst e [PyException]" "idle v w'" using go Cons.prems(1) by blast
    then show ?thesis using Segment supervise_dead by auto
  next
    case (Beat now1 now2)
    have inv: "lease_inv (lw_leases w)" using Cons.prems by (simp add: idle_def files_ok_def)
    obtain r f where hb: "heartbeat ttl owner x tok now1 now2 (lw_leases w) = (r, f)" by fastforce
    note f = heartbeat_inv [OF inv hb]
    have i: "idle v (w\<lparr>lw_leases := f\<rparr>)" using idle_leases Cons.prems(1) f by blast
    show ?thesis
    proof (cases r)
      case (Inl e1)
      then obtain e' where "fail_closed e1 (Inl (Exc CancelledError [])) = Inl e'" "isinst e' [PyException]"
        using fail_closed_py [of e1 "Inl (Exc CancelledError [])"] f by (auto simp: exc_simps)
      then show ?thesis using Beat hb Inl i by auto
    next
      case (Inr u)
      then show ?thesis using Beat hb Cons.IH [OF i] Cons.prems(2) by auto
    qed
  qed
qed

text \<open>One execution of the startup: whatever the policy decides, nothing is recovered.\<close>

definition rt_resume :: "host \<Rightarrow> 'w runtime_cfg \<Rightarrow> start_times \<Rightarrow> string \<Rightarrow> pydict \<Rightarrow> 'w resume_fun" where
  "rt_resume h cfg tm agent md =
     resume_task h (rt_loop cfg) (fst (tm_resume tm)) (fst (snd (tm_resume tm))) (snd (snd (tm_resume tm)))
       (tm_loop tm) agent md"

lemma release_inv:
  assumes "lease_inv f" and "release x owner tok now f = (r, f')"
  shows "lease_inv f' \<and> (\<exists>b. r = Inr b)"
proof -
  obtain d where d: "f = Object d" using lease_inv_Object [OF assms(1)] by blast
  have "lease_inv f'" using lease_step_inv [OF assms(1), of 0 "(now, Op_Release x owner tok)"] assms(2) by simp
  moreover have "\<exists>b. r = Inr b" using assms(2) d by (auto simp: lease_ops split: option.splits if_splits)
  ultimately show ?thesis by simp
qed

lemma boot_retry_fails:
  assumes "idle v w" and "lc_store (rt_loop cfg) = Some (Lease_Aware (rt_owner cfg))" and "rt_owner cfg \<noteq> []"
    and "es_execution_id s \<noteq> []" and "Segment \<in> set es"
  shows "\<exists>c' w'. boot_retry h (rt_bootstrap cfg) clk es (rt_resume h cfg tm agent md) s c w = Some (Inr c', w')
    \<and> ct_recovered c' = ct_recovered c \<and> idle v w'"
proof -
  let ?b = "rt_bootstrap cfg" let ?x = "es_execution_id s" let ?o = "rt_owner cfg"
  have inv: "lease_inv (lw_leases w)" using assms(1) by (simp add: idle_def files_ok_def)
  obtain a f where ac: "acquire (rt_ttl cfg) ?x ?o (clk 0) (lw_leases w) = (a, f)" by fastforce
  have finv: "lease_inv f" using lease_step_inv [OF inv, of "rt_ttl cfg" "(clk 0, Op_Acquire ?x ?o)"] ac by simp
  have i: "idle v (w\<lparr>lw_leases := f\<rparr>)" using idle_leases assms(1) finv by blast
  obtain l where l: "a = Inr l"
    using ac assms(3,4) lease_inv_Object [OF inv] by (auto simp: lease_ops split: option.splits if_splits)
  have b: "bt_ttl ?b = rt_ttl cfg" "bt_owner ?b = ?o" "bt_manager ?b = default_manager"
    by (simp_all add: rt_bootstrap_def)
  show ?thesis
  proof (cases l)
    case None
    then show ?thesis using ac l i b by (simp add: boot_retry_def)
  next
    case (Some l0)
    let ?c = "c\<lparr>ct_retried := ct_retried c + 1\<rparr>"
    let ?go = "\<lambda>u. let (r, w') = loop_resume h (rt_loop cfg) (fst (tm_resume tm)) (fst (snd (tm_resume tm)))
          (snd (snd (tm_resume tm))) (tm_loop tm) agent md ?x u in (Done (map_sum id (\<lambda>_. ()) r), w')"
    have go: "\<exists>e w'. ?go u = (Done (Inl e), w') \<and> isinst e [PyException] \<and> idle v w'" if "idle v u" for u
    proof -
      have ok: "files_ok u" using that by (simp add: idle_def)
      obtain e w' where "loop_resume h (rt_loop cfg) (fst (tm_resume tm)) (fst (snd (tm_resume tm)))
          (snd (snd (tm_resume tm))) (tm_loop tm) agent md ?x u = (Inl e, w')" "isinst e [PyException]"
        "files_ok w'" "lw_leases w' = lw_leases u" "lw_world w' = lw_world u" "kept u w'"
        by (rule lease_aware_resume [OF ok assms(2), of h "fst (tm_resume tm)" "fst (snd (tm_resume tm))"
            "snd (snd (tm_resume tm))" "tm_loop tm" agent md ?x])
      moreover have "idle u w'" using calculation that by (simp add: idle_def)
      ultimately show ?thesis using idle_trans [OF that] by auto
    qed
    have tried: "\<exists>r w'. boot_try ?b clk es (rt_resume h cfg tm agent md) s l0 (w\<lparr>lw_leases := f\<rparr>) = Some (r, w')
        \<and> idle v w' \<and> (r = Inr False \<or> (\<exists>e. r = Inl e \<and> isinst e [PyException]))"
    proof -
      obtain o1 where "is_owner ?x ?o (Some (ls_fencing_token l0)) (clk 1) f = Inr o1"
        using lease_inv_Object [OF finv] by (auto simp: is_owner_def is_owner_unlocked_def read_leases_def)
      moreover obtain e w' where "supervise (rt_ttl cfg) ?o ?x (Some (ls_fencing_token l0)) (clk 2) es
          (Await ?go (\<lambda>w. (Inl (Exc CancelledError []), w))) (w\<lparr>lw_leases := f\<rparr>) = Some (Inl e, w')"
        "isinst e [PyException]" "idle v w'"
        using supervise_refused [where go = ?go and ttl = "rt_ttl cfg" and owner = ?o and x = ?x
            and tok = "Some (ls_fencing_token l0)" and now = "clk 2", OF i assms(5) go] by blast
      ultimately show ?thesis
        using i by (cases o1) (simp_all add: boot_try_def b rt_resume_def resume_task_def run_with_heartbeat_def Let_def)
    qed
    then obtain r w1 where t: "boot_try ?b clk es (rt_resume h cfg tm agent md) s l0 (w\<lparr>lw_leases := f\<rparr>) = Some (r, w1)"
      "idle v w1" "r = Inr False \<or> (\<exists>e. r = Inl e \<and> isinst e [PyException])" by blast
    obtain c' where hd: "boot_handle h ?b clk s l0 (r, w1) (Inr ?c, w1) = (Inr c', w1)" "ct_recovered c' = ct_recovered c"
      using t(3) by (auto simp: boot_handle_def b default_manager_def rm_mark_failed_def)
    obtain r2 f2 where rl: "release ?x ?o (Some (ls_fencing_token l0)) (clk 5) (lw_leases w1) = (r2, f2)" by fastforce
    have "lease_inv (lw_leases w1)" using t(2) by (simp add: idle_def files_ok_def)
    note rel = release_inv [OF this rl]
    have "boot_finally ?b clk s l0 (Inr c', w1) = (Inr c', w1\<lparr>lw_leases := f2\<rparr>)"
      using rel rl b by (auto simp: boot_finally_def)
    then show ?thesis
      using ac l Some t(1) hd b idle_leases [OF t(2)] rel by (auto simp: boot_retry_def)
  qed
qed

lemma boot_one_fails:
  assumes "idle v w" and "lc_store (rt_loop cfg) = Some (Lease_Aware (rt_owner cfg))" and "rt_owner cfg \<noteq> []"
    and "es_execution_id s \<noteq> []" and "Segment \<in> set es"
  shows "\<exists>c' w'. boot_one h (rt_bootstrap cfg) clk es (rt_resume h cfg tm agent md) s c w = Some (Inr c', w')
    \<and> ct_recovered c' = ct_recovered c \<and> idle v w'"
proof -
  let ?n = "bt_policy_max (rt_bootstrap cfg)"
  consider (review) "exhausted ?n s" | (retry) "retriable ?n s" "\<not> exhausted ?n s"
    | (skip) "\<not> exhausted ?n s" "\<not> retriable ?n s" by blast
  then show ?thesis
  proof cases
    case review
    have q: "queue_ok (fl_queue (lw_world w))" using assms(1) by (simp add: idle_def)
    obtain q' where q': "boot_one h (rt_bootstrap cfg) clk es (rt_resume h cfg tm agent md) s c w =
        Some (Inr (c\<lparr>ct_manual_review := ct_manual_review c + 1\<rparr>), w\<lparr>lw_world := (lw_world w)\<lparr>fl_queue := q'\<rparr>\<rparr>)" "queue_ok q'"
      using review_queued [where w = w, OF review q] by blast
    moreover have "idle v (w\<lparr>lw_world := (lw_world w)\<lparr>fl_queue := q'\<rparr>\<rparr>)"
      using assms(1) q'(2) by (simp add: idle_def files_ok_def kept_world)
    ultimately show ?thesis by simp
  next
    case retry
    then show ?thesis using boot_retry_fails [OF assms] by (simp add: boot_one_def decide_action)
  next
    case skip
    then show ?thesis using assms(1) by (simp add: boot_one_def decide_action)
  qed
qed

lemma boot_all_fails:
  assumes "idle v w" and "lc_store (rt_loop cfg) = Some (Lease_Aware (rt_owner cfg))" and "rt_owner cfg \<noteq> []"
    and "\<forall>s \<in> set ss. es_execution_id s \<noteq> []" and "\<forall>n. Segment \<in> set (sched n)"
  shows "\<exists>c' w'. boot_all h (rt_bootstrap cfg) clk sched (rt_resume h cfg tm agent md) n ss c w = Some (Inr c', w')
    \<and> ct_recovered c' = ct_recovered c \<and> idle v w'"
  using assms(1,4)
proof (induction ss arbitrary: n c w)
  case Nil
  then show ?case by simp
next
  case (Cons s ss)
  have s: "es_execution_id s \<noteq> []" "Segment \<in> set (sched n)" using Cons.prems(2) assms(5) by auto
  obtain c1 w1 where one: "boot_one h (rt_bootstrap cfg) (clk n) (sched n) (rt_resume h cfg tm agent md) s c w = Some (Inr c1, w1)"
    "ct_recovered c1 = ct_recovered c" "idle v w1"
    using boot_one_fails [OF Cons.prems(1) assms(2,3) s] by blast
  show ?case using Cons.IH [OF one(3), of "Suc n" c1] Cons.prems(2) one(1,2) by auto
qed

lemma put_coord_of [simp]: "put_coord (coord_of w) w = w"
  by (simp add: put_coord_def coord_of_def)

text \<open>
  C18. A runtime recovers nothing when it starts. As the orchestrator wires it (a lease-aware loop
  that is never given a fencing token, and a recovery manager without leases), with a well-formed
  store, settled commits and schedules that let every resumed execution run: the start succeeds, but
  its report counts no recovered execution whatever the executor can do, what the executor works on
  is untouched, and no execution has been completed or failed. (At most a retrying one is marked
  running.)
\<close>

theorem runtime_start_recovers_nothing:
  assumes "files_ok w" and "queue_ok (fl_queue (lw_world w))" and "owner \<noteq> []"
    and "fl_journal (lw_world w) = journal_of cs" and "commits_ok cs" and "settled cs"
    and "\<forall>n. Segment \<in> set (tm_schedule tm n)"
    and "cfg = new_runtime_cfg executor planner owner ttl policy bus coordinator"
  shows "\<exists>rep s. rt_start h cfg tm agent md (new_runtime cfg w) = Some (Inr rep, s) \<and> rs_started s
    \<and> br_recovered rep = 0 \<and> fl_world (lw_world (rs_world s)) = fl_world (lw_world w) \<and> kept w (rs_world s)"
proof -
  have c: "rt_owner cfg = owner" "lc_store (rt_loop cfg) = Some (Lease_Aware owner)" "rt_coordinator cfg = coordinator"
    by (simp_all add: assms(8) new_runtime_cfg_def build_execution_loop_def)
  have j: "co_journal (coord_of w) = journal_of cs" using assms(4) by (simp add: coord_of_def)
  have rc: "boot_reconcile h (bt_coordinator (rt_bootstrap cfg)) (tm_reconcile tm) w = ((0, 0), w)"
    using reconcile_settled [of "coord_of w" cs h coordinator "tm_reconcile tm", OF _ assms(5,6)] assms(4) c(3) j
    by (simp add: boot_reconcile_def reconcile_commits_def rt_bootstrap_def)
  have f: "store_ok (st_file (lw_store w))" using assms(1) by (simp add: files_ok_def store_inv_def)
  obtain ss where ss: "resumable (tm_resumable tm) (lw_store w) = Inr ss" using resumable_spec [OF f] by blast
  have ne: "\<forall>s \<in> set ss. es_execution_id s \<noteq> []"
  proof
    fix s assume "s \<in> set ss"
    then have "record_of w (es_execution_id s) = Some s" using resumable_states(2) [OF f ss, of s] by simp
    then show "es_execution_id s \<noteq> []" by (cases rule: store_lookup [OF f, of "es_execution_id s"]) auto
  qed
  have i: "idle w w" using assms(1,2) by (simp add: idle_def kept_refl)
  obtain c' w' where all: "boot_all h (rt_bootstrap cfg) (tm_boot tm) (tm_schedule tm) (rt_resume h cfg tm agent md) 0 ss no_counts w
      = Some (Inr c', w')" "ct_recovered c' = ct_recovered no_counts" "idle w w'"
    using boot_all_fails [OF i _ _ ne assms(7), of cfg h "tm_boot tm" tm agent md 0 no_counts] c assms(3) by auto
  then show ?thesis
    using rc ss
    by (simp add: rt_start_def new_runtime_def recover_with_loop_def recover_pending_def rt_resume_def no_counts_def idle_def)
qed

definition sample_coordinator :: coord_cfg where
  "sample_coordinator = Commit_Spec.sample_cfg"

definition sample_times :: start_times where
  "sample_times = \<lparr>tm_reconcile = (\<lambda>i. int i), tm_resumable = 0, tm_boot = (\<lambda>n i. int i), tm_schedule = (\<lambda>n. [Beat 1 1, Segment]),
     tm_resume = (0, 0, 0), tm_loop = (\<lambda>a i. 0)\<rparr>"

lemma flag_world_ok: "files_ok flag_world"
  using sample_store_inv by (simp add: files_ok_def flag_world_def lease_inv_def) (simp add: sample_store_def)

theorem runtime_start_recovers_nothing_witness:
  "\<exists>rep s. rt_start sample_host (new_runtime_cfg (\<lambda>plan w. (Inr [], w)) (\<lambda>g w. (Inr VNone, w)) ''b'' 60 None None sample_coordinator)
       sample_times ''agent'' []
       (new_runtime (new_runtime_cfg (\<lambda>plan w. (Inr [], w)) (\<lambda>g w. (Inr VNone, w)) ''b'' 60 None None sample_coordinator) flag_world)
     = Some (Inr rep, s) \<and> br_recovered rep = 0 \<and> fl_world (lw_world (rs_world s)) = False"
proof -
  let ?cfg = "new_runtime_cfg (\<lambda>plan w. (Inr [], w)) (\<lambda>g w. (Inr VNone, w)) ''b'' 60 None None sample_coordinator"
  have j: "fl_journal (lw_world flag_world) = journal_of []" "commits_ok []" "settled []" "queue_ok (fl_queue (lw_world flag_world))"
    by (simp_all add: flag_world_def journal_of_def commits_ok_def settled_def queue_ok_def)
  have "\<forall>n. Segment \<in> set (tm_schedule sample_times n)" by (simp add: sample_times_def)
  from runtime_start_recovers_nothing [where h = sample_host and cfg = ?cfg and agent = "''agent''" and md = "[]",
      OF flag_world_ok j(4) _ j(1-3) this refl]
  show ?thesis by (auto simp: flag_world_def)
qed

section \<open>Shutting down\<close>

text \<open>Calls that do not raise, in order; the instants of the \<open>n\<close>-th call are \<open>clk n\<close>.\<close>

definition silent :: "'s action \<Rightarrow> bool" where
  "silent f \<longleftrightarrow> (\<forall>c w. fst (f c w) = Inr ())"

lemma call_all_silent:
  "\<forall>f \<in> set fs. silent f \<Longrightarrow>
   call_all clk n fs w = (Inr (), fold (\<lambda>(i, f) w. snd (f (clk i) w)) (enumerate n fs) w)"
proof (induction fs arbitrary: n w)
  case Nil
  then show ?case by simp
next
  case (Cons f fs)
  obtain w1 where "f (clk n) w = (Inr (), w1)" using Cons.prems by (cases "f (clk n) w") (auto simp: silent_def split: prod.splits, metis fst_conv)
  then show ?case using Cons.IH [of "Suc n" w1] Cons.prems by simp
qed

lemma fold_enumerate_append:
  "fold g (enumerate (n + length xs) ys) (fold g (enumerate n xs) w) = fold g (enumerate n (xs @ ys)) w"
  by (simp add: enumerate_append_eq)

text \<open>
  Shutdown runs once. When nothing raises, a shutdown cancels the tracked tasks, then runs the
  release callbacks from the last registered to the first, then closes the resources in the same
  order, and ends empty. After any shutdown, also one in which a callback raised and the rest was not
  run, the manager is closed: another shutdown returns without doing anything, registrations are
  ignored, and a task that is tracked late is cancelled at once.
\<close>

theorem shutdown_runs_once:
  assumes "\<not> sh_closed m" and "shutdown clk m w = (r, m', w')"
  shows "((\<forall>f \<in> set (sh_releases m) \<union> (close_action ` set (sh_closers m)). silent f) \<longrightarrow>
      r = Inr () \<and> m' = new_shutdown\<lparr>sh_closed := True\<rparr>
      \<and> w' = fold (\<lambda>(i, f) w. snd (f (clk i) w))
               (enumerate 0 (rev (sh_releases m) @ map close_action (rev (sh_closers m)))) (fold snd (sh_tasks m) w))
    \<and> shutdown clk' m' v = (Inr (), m', v) \<and> register_release g m' = m' \<and> register_closer k m' = m'
    \<and> track_task t cancel (m', v) = (m', cancel v)"
proof (intro conjI impI)
  assume s: "\<forall>f \<in> set (sh_releases m) \<union> (close_action ` set (sh_closers m)). silent f"
  then have 1: "\<forall>f \<in> set (rev (sh_releases m)). silent f" and 2: "\<forall>f \<in> set (map close_action (rev (sh_closers m))). silent f"
    by auto
  have closed: "m\<lparr>sh_closed := True, sh_tasks := [], sh_releases := [], sh_closers := []\<rparr> = new_shutdown\<lparr>sh_closed := True\<rparr>"
    by (cases m) (simp add: new_shutdown_def)
  note fold_enumerate_append [of "\<lambda>(i, f) w. snd (f (clk i) w)" 0 "rev (sh_releases m)"
      "map close_action (rev (sh_closers m))" "fold snd (sh_tasks m) w"]
  then show "r = Inr ()" "m' = new_shutdown\<lparr>sh_closed := True\<rparr>"
    "w' = fold (\<lambda>(i, f) w. snd (f (clk i) w))
               (enumerate 0 (rev (sh_releases m) @ map close_action (rev (sh_closers m)))) (fold snd (sh_tasks m) w)"
    using assms call_all_silent [OF 1, of clk 0 "fold snd (sh_tasks m) w"]
      call_all_silent [OF 2, of clk "length (sh_releases m)"]
    unfolding shutdown_def Let_def closed by simp_all
next
  have c: "sh_closed m'"
    using assms by (auto simp: shutdown_def Let_def split: prod.splits sum.splits)
  then show "shutdown clk' m' v = (Inr (), m', v)" "register_release g m' = m'" "register_closer k m' = m'"
    "track_task t cancel (m', v) = (m', cancel v)"
    by (simp_all add: shutdown_def register_release_def register_closer_def track_task_def)
qed

theorem shutdown_runs_once_witness:
  "\<exists>m'. shutdown (\<lambda>i j. 0)
      (register_release (\<lambda>c w. (Inr (), w @ ''2'')) (register_release (\<lambda>c w. (Inr (), w @ ''1'')) new_shutdown)) [] =
      (Inr (), m', ''21'') \<and> shutdown (\<lambda>i j. 0) m' ''new'' = (Inr (), m', ''new'')"
proof -
  let ?m = "register_release (\<lambda>c w. (Inr (), w @ ''2'')) (register_release (\<lambda>c w. (Inr (), w @ ''1'')) new_shutdown)"
  have o: "\<not> sh_closed ?m" by (simp add: register_release_def new_shutdown_def)
  obtain r m' w' where s: "shutdown (\<lambda>i j. 0) ?m [] = (r, m', w')" by (cases "shutdown (\<lambda>i j. 0) ?m []") auto
  have q: "\<forall>f \<in> set (sh_releases ?m) \<union> (close_action ` set (sh_closers ?m)). silent f"
    by (simp add: register_release_def new_shutdown_def silent_def)
  from shutdown_runs_once [OF o s, THEN conjunct1, THEN mp, OF q] shutdown_runs_once [OF o s, THEN conjunct2, THEN conjunct1]
  show ?thesis using s by (auto simp: register_release_def new_shutdown_def)
qed

lemma release_owner:
  assumes "lease_inv f" and "owner \<noteq> []" and "release x owner None now f = (r, f')"
  shows "(\<forall>l. lease_of f' x = Some l \<longrightarrow> ls_owner_id l \<noteq> owner)
    \<and> (\<forall>y. lease_of f y = None \<longrightarrow> lease_of f' y = None)
    \<and> (\<forall>y l. lease_of f y = Some l \<and> ls_owner_id l \<noteq> owner \<longrightarrow> lease_of f' y = Some l)"
  using assms lease_inv_Object [OF assms(1)]
  by (auto simp: lease_ops lease_of_def token_matches_def split: option.splits if_splits)

lemma release_leases_owner:
  assumes "lease_inv f" and "owner \<noteq> []"
  shows "\<exists>f'. release_leases owner clk n ss f = (Inr (), f') \<and> lease_inv f'
    \<and> (\<forall>s \<in> set ss. \<forall>l. lease_of f' (es_execution_id s) = Some l \<longrightarrow> ls_owner_id l \<noteq> owner)
    \<and> (\<forall>y. lease_of f y = None \<longrightarrow> lease_of f' y = None)
    \<and> (\<forall>y l. lease_of f y = Some l \<and> ls_owner_id l \<noteq> owner \<longrightarrow> lease_of f' y = Some l)"
  using assms(1)
proof (induction ss arbitrary: n f)
  case Nil
  then show ?case by simp
next
  case (Cons s ss)
  let ?x = "es_execution_id s"
  obtain r f1 where r: "release ?x owner None (clk n) f = (r, f1)" by fastforce
  note f1 = release_inv [OF Cons.prems r] and o1 = release_owner [OF Cons.prems assms(2) r]
  obtain f' where f': "release_leases owner clk (Suc n) ss f1 = (Inr (), f')" "lease_inv f'"
    "\<forall>s \<in> set ss. \<forall>l. lease_of f' (es_execution_id s) = Some l \<longrightarrow> ls_owner_id l \<noteq> owner"
    "\<forall>y. lease_of f1 y = None \<longrightarrow> lease_of f' y = None"
    "\<forall>y l. lease_of f1 y = Some l \<and> ls_owner_id l \<noteq> owner \<longrightarrow> lease_of f' y = Some l"
    using Cons.IH [of f1 "Suc n"] f1 by blast
  have x: "\<forall>l. lease_of f' ?x = Some l \<longrightarrow> ls_owner_id l \<noteq> owner"
    using o1 f'(4,5) by (cases "lease_of f1 ?x") auto
  have "\<exists>b. r = Inr b" using f1 by blast
  then have "release_leases owner clk n (s # ss) f = (Inr (), f')" using r f'(1) by auto
  moreover have "\<forall>s' \<in> set (s # ss). \<forall>l. lease_of f' (es_execution_id s') = Some l \<longrightarrow> ls_owner_id l \<noteq> owner"
    using x f'(3) by simp
  moreover have "\<forall>y. lease_of f y = None \<longrightarrow> lease_of f' y = None" using o1 f'(4) by blast
  moreover have "\<forall>y l. lease_of f y = Some l \<and> ls_owner_id l \<noteq> owner \<longrightarrow> lease_of f' y = Some l"
    using o1 f'(5) by blast
  ultimately show ?case using f'(2) by blast
qed

text \<open>
  The first shutdown gives the leases back, later ones do not. Shutting down a runtime leaves its
  owner without any lease of a resumable execution, at whatever instant and with whatever token, while
  the leases of other owners, the executions and everything else stay as they are. But the shutdown
  manager stays closed: when the same runtime is started and shut down again, the second shutdown
  changes nothing, so leases that it holds by then are kept until they expire.
\<close>

theorem shutdown_gives_leases_back_once:
  assumes "files_ok (rs_world s)" and "rt_owner cfg \<noteq> []" and "rs_shutdown s = rs_shutdown (new_runtime cfg w0)"
  shows "\<exists>f s'. rt_shutdown clk s = (Inr (), s') \<and> \<not> rs_started s' \<and> rs_world s' = (rs_world s)\<lparr>lw_leases := f\<rparr>
    \<and> (\<forall>x p t now. record_of (rs_world s) x = Some p \<and> is_resumable p \<longrightarrow> \<not> holds f x (rt_owner cfg) t now)
    \<and> (\<forall>x l. lease_of (lw_leases (rs_world s)) x = Some l \<and> ls_owner_id l \<noteq> rt_owner cfg \<longrightarrow> lease_of f x = Some l)
    \<and> (\<forall>s2 clk2. rs_shutdown s2 = rs_shutdown s' \<longrightarrow> rt_shutdown clk2 s2 = (Inr (), s2\<lparr>rs_started := False\<rparr>))"
proof -
  let ?w = "rs_world s" let ?o = "rt_owner cfg" let ?clk = "clk 0"
  have st: "store_ok (st_file (lw_store ?w))" and li: "lease_inv (lw_leases ?w)"
    using assms(1) by (simp_all add: files_ok_def store_inv_def)
  obtain ss where ss: "resumable (?clk 0) (lw_store ?w) = Inr ss" using resumable_spec [OF st] by blast
  obtain f where f: "release_leases ?o ?clk 1 ss (lw_leases ?w) = (Inr (), f)"
    "\<forall>s \<in> set ss. \<forall>l. lease_of f (es_execution_id s) = Some l \<longrightarrow> ls_owner_id l \<noteq> ?o"
    "\<forall>y l. lease_of (lw_leases ?w) y = Some l \<and> ls_owner_id l \<noteq> ?o \<longrightarrow> lease_of f y = Some l"
    using release_leases_owner [OF li assms(2), of ?clk 1 ss] by blast
  have sd: "rs_shutdown s = new_shutdown\<lparr>sh_releases := [release_owned_leases ?o]\<rparr>"
    by (simp add: assms(3) new_runtime_def register_release_def new_shutdown_def)
  have run: "rt_shutdown clk s = (Inr (), s\<lparr>rs_shutdown := new_shutdown\<lparr>sh_closed := True\<rparr>,
      rs_world := ?w\<lparr>lw_leases := f\<rparr>, rs_started := False\<rparr>)"
    using ss f(1) by (simp add: rt_shutdown_def shutdown_def sd new_shutdown_def release_owned_leases_def del: One_nat_def)
  have "\<not> holds f x ?o t now" if "record_of ?w x = Some p" "is_resumable p" for x p t now
  proof -
    have "es_execution_id p = x" using view_id [OF st that(1)] by simp
    then have "p \<in> set ss" using resumable_states(2) [OF st ss, of p] that by simp
    then show ?thesis using f(2) \<open>es_execution_id p = x\<close> by (auto simp: holds_iff)
  qed
  moreover have "rt_shutdown clk2 s2 = (Inr (), s2\<lparr>rs_started := False\<rparr>)"
    if "rs_shutdown s2 = new_shutdown\<lparr>sh_closed := True\<rparr>" for s2 clk2
    using that by (cases s2) (simp add: rt_shutdown_def shutdown_def)
  ultimately show ?thesis using run f(3) by (intro exI [of _ f] exI, intro conjI) auto
qed

theorem shutdown_gives_leases_back_once_witness:
  "\<exists>f s'. rt_shutdown (\<lambda>i j. 9) (new_runtime (new_runtime_cfg (\<lambda>plan w. (Inr [], w)) (\<lambda>g w. (Inr VNone, w)) ''a'' 60 None None
       sample_coordinator) (flag_world\<lparr>lw_leases := Object [(''e1'', lease_a)]\<rparr>)) = (Inr (), s')
     \<and> lw_leases (rs_world s') = f \<and> (\<forall>t now. \<not> holds f ''e1'' ''a'' t now)"
proof -
  let ?cfg = "new_runtime_cfg (\<lambda>plan w. (Inr [], w)) (\<lambda>g w. (Inr VNone, w)) ''a'' 60 None None sample_coordinator :: bool runtime_cfg"
  let ?w = "flag_world\<lparr>lw_leases := Object [(''e1'', lease_a)]\<rparr>"
  let ?s = "new_runtime ?cfg ?w"
  have ok: "files_ok (rs_world ?s)"
    using flag_world_ok sample_lease_inv by (simp add: new_runtime_def files_ok_def)
  have r: "record_of (rs_world ?s) ''e1'' = Some run1" "is_resumable run1"
    using sample_view by (simp_all add: new_runtime_def flag_world_def is_resumable_def run1_def new_state_def)
  have o: "rt_owner ?cfg = ''a''" by (simp add: new_runtime_cfg_def)
  have own: "rt_owner ?cfg \<noteq> []" using o by simp
  from shutdown_gives_leases_back_once [OF ok own refl, of "\<lambda>i j. 9"]
  show ?thesis
  proof (elim exE conjE)
    fix f s'
    assume 1: "rt_shutdown (\<lambda>i j. 9) ?s = (Inr (), s')" and 2: "rs_world s' = (rs_world ?s)\<lparr>lw_leases := f\<rparr>"
      and 3: "\<forall>x p t now. record_of (rs_world ?s) x = Some p \<and> is_resumable p \<longrightarrow> \<not> holds f x (rt_owner ?cfg) t now"
    have "\<not> holds f ''e1'' ''a'' t now" for t now
      using 3 [rule_format, of "''e1''" run1 t now] r o by simp
    then show ?thesis using 1 2 by (intro exI [of _ f] exI [of _ s'] conjI) simp_all
  qed
qed

end
