(* ===== verification/Agent.thy ===== *)
theory Agent
  imports Executor_Spec Loop
begin

text \<open>
  \<^verbatim>\<open>runtime/agent_executor.py\<close> and \<^verbatim>\<open>runtime/tool_gateway.py\<close>: an agent's plan, step
  by step, through the tool executor, with bounded retries. The memory and the event subscribers act
  on the environment of the tools; what other processes do while a retry waits is the parameter
  \<open>ag_wait\<close>.
\<close>

section \<open>Plans\<close>

text \<open>
  A step is a dictionary with these optional entries, or any other value. (Entries of other types,
  such as a tool name that is no text, are not modelled.)
\<close>

record step_dict =
  sd_tool :: "string option"
  sd_action :: "string option"
  sd_arguments :: "pydict option"
  sd_kwargs :: "pydict option"
  sd_call_id :: "string option"
  sd_timeout :: "time option"
  sd_key :: "string option"
  sd_value :: pyval

datatype plan_step = Dict_Step step_dict | Plain_Step pyval

text \<open>\<^verbatim>\<open>a or b\<close> of two optional texts, \<open>[]\<close> when both are falsy.\<close>

definition or_text :: "string option \<Rightarrow> string \<Rightarrow> string" where
  "or_text a b = (if opt_list a \<noteq> [] then opt_list a else b)"

definition or_dict :: "pydict option \<Rightarrow> pydict option \<Rightarrow> pydict" where
  "or_dict a b = (case a of Some (p # d) \<Rightarrow> p # d | _ \<Rightarrow> (case b of Some d \<Rightarrow> d | None \<Rightarrow> []))"

definition step_tool :: "step_dict \<Rightarrow> string" where
  "step_tool d = or_text (sd_tool d) (opt_list (sd_action d))"

definition default_key :: "exec_context \<Rightarrow> step_dict \<Rightarrow> nat \<Rightarrow> string" where
  "default_key ctx d index = ctx_execution_id ctx @ '':'' @ or_text (sd_call_id d) (str_nat index)"

definition step_call :: "exec_context \<Rightarrow> string \<Rightarrow> step_dict \<Rightarrow> nat \<Rightarrow> tool_call" where
  "step_call ctx agent_id d index =
     \<lparr>tc_tool = step_tool d, tc_arguments = or_dict (sd_arguments d) (sd_kwargs d),
      tc_call_id = or_text (sd_call_id d) (agent_id @ '':'' @ str_nat index),
      tc_timeout = sd_timeout d,
      tc_idempotency_key = Some (or_text (sd_key d) (default_key ctx d index))\<rparr>"

text \<open>\<^verbatim>\<open>frozenset(context.get("permissions", ()))\<close>; entries that are no text grant nothing.\<close>

definition permissions_of :: "pydict \<Rightarrow> string list result" where
  "permissions_of context =
     (case map_of context ''permissions'' of
        None \<Rightarrow> Inr []
      | Some (VList vs) \<Rightarrow>
          (if list_ex (\<lambda>v. case v of VList _ \<Rightarrow> True | VDict _ \<Rightarrow> True | _ \<Rightarrow> False) vs
           then Inl (Exc TypeError ''unhashable type'')
           else Inr (concat (map (\<lambda>v. case v of VStr p \<Rightarrow> [p] | _ \<Rightarrow> []) vs)))
      | Some (VStr p) \<Rightarrow> Inr (map (\<lambda>c. [c]) p)
      | Some (VDict d) \<Rightarrow> Inr (map fst d)
      | Some _ \<Rightarrow> Inl (Exc TypeError ''object is not iterable''))"

section \<open>Retries\<close>

record 'w agent_exec =
  ag_executor :: "'w executor"
  ag_legacy :: bool
  ag_retries :: nat
  ag_bus :: "'w tool_env bus option"
  ag_memory :: "pydict \<Rightarrow> 'w tool_env \<Rightarrow> 'w tool_env"
  ag_wait :: "time \<Rightarrow> 'w tool_env \<Rightarrow> 'w tool_env"

text \<open>
  The constructor wraps a bare sandbox in an executor without stores or events, and calls that mode
  legacy.
\<close>

definition wrap_sandbox :: "'w tool_env sandbox \<Rightarrow> 'w executor" where
  "wrap_sandbox sb = \<lparr>xe_sandbox = sb, xe_bus = None, xe_has_results = False, xe_has_intents = False, xe_ttl = 60\<rparr>"

definition new_agent_exec ::
    "'w tool_env sandbox + 'w executor \<Rightarrow> int \<Rightarrow> 'w tool_env bus option \<Rightarrow> (pydict \<Rightarrow> 'w tool_env \<Rightarrow> 'w tool_env) \<Rightarrow>
     (time \<Rightarrow> 'w tool_env \<Rightarrow> 'w tool_env) \<Rightarrow> 'w agent_exec" where
  "new_agent_exec x retries bus memory wait =
     \<lparr>ag_executor = (case x of Inl sb \<Rightarrow> wrap_sandbox sb | Inr x \<Rightarrow> x),
      ag_legacy = (case x of Inl _ \<Rightarrow> True | Inr _ \<Rightarrow> False),
      ag_retries = nat (max 0 retries), ag_bus = bus, ag_memory = memory, ag_wait = wait\<rparr>"

text \<open>The clock and the fresh identities of one call of the executor.\<close>

record call_fresh =
  cf_clock :: "nat \<Rightarrow> time"
  cf_uid :: string
  cf_owner :: string
  cf_token :: string

definition call_executor ::
    "'w executor \<Rightarrow> call_fresh \<Rightarrow> tool_call \<Rightarrow> tool_context \<Rightarrow> exec_context option \<Rightarrow> 'w xstate \<Rightarrow>
     tool_result result \<times> 'w xstate" where
  "call_executor x fr call tctx ec s = execute x (cf_clock fr) (cf_uid fr) (cf_owner fr) (cf_token fr) call tctx ec s"

text \<open>The gateway passes a call on; the agent executor calls the tool executor itself.\<close>

definition gateway_execute ::
    "'w executor \<Rightarrow> call_fresh \<Rightarrow> tool_call \<Rightarrow> tool_context \<Rightarrow> exec_context option \<Rightarrow> 'w xstate \<Rightarrow>
     tool_result result \<times> 'w xstate" where
  "gateway_execute x fr call tctx ec s = call_executor x fr call tctx ec s"

text \<open>\<^verbatim>\<open>min(0.25 * (2 ** (attempts - 1)), 2.0)\<close> seconds\<close>

definition retry_delay :: "nat \<Rightarrow> time" where
  "retry_delay k = min (250000 * 2 ^ (k - 1)) (seconds 2)"

definition retry_again :: "tool_result \<Rightarrow> bool" where
  "retry_again r \<longleftrightarrow> tr_retryable r \<and> \<not> tr_ok r"

definition wait_env :: "'w agent_exec \<Rightarrow> time \<Rightarrow> 'w xstate \<Rightarrow> 'w xstate" where
  "wait_env ag t s = s\<lparr>xs_env := ag_wait ag t (xs_env s)\<rparr>"

text \<open>The \<^verbatim>\<open>while\<close> loop after attempt \<open>k\<close>, with \<open>n\<close> retries left.\<close>

fun retry_loop ::
    "'w agent_exec \<Rightarrow> (nat \<Rightarrow> 'w xstate \<Rightarrow> tool_result result \<times> 'w xstate) \<Rightarrow> nat \<Rightarrow> nat \<Rightarrow> tool_result \<Rightarrow> 'w xstate \<Rightarrow>
     tool_result result \<times> 'w xstate" where
  "retry_loop ag call k 0 r s = (Inr r, s)"
| "retry_loop ag call k (Suc n) r s =
     (if \<not> retry_again r then (Inr r, s)
      else case call (Suc k) (wait_env ag (retry_delay (Suc k)) s) of
        (Inl e, s1) \<Rightarrow> (Inl e, s1)
      | (Inr r1, s1) \<Rightarrow> retry_loop ag call (Suc k) n r1 s1)"

definition execute_with_retry ::
    "'w agent_exec \<Rightarrow> (nat \<Rightarrow> call_fresh) \<Rightarrow> tool_call \<Rightarrow> string \<Rightarrow> string list \<Rightarrow> exec_context \<Rightarrow> 'w xstate \<Rightarrow>
     tool_result result \<times> 'w xstate" where
  "execute_with_retry ag fr call agent_id permissions ctx s =
     (let tctx = \<lparr>tx_agent_id = agent_id, tx_permissions = permissions\<rparr>;
          exec = (\<lambda>k. call_executor (ag_executor ag) (fr k) call tctx (Some ctx))
      in case exec 0 s of
           (Inl e, s1) \<Rightarrow> (Inl e, s1)
         | (Inr r, s1) \<Rightarrow> retry_loop ag exec 0 (ag_retries ag) r s1)"

section \<open>Executing a plan\<close>

definition agent_publish :: "'w agent_exec \<Rightarrow> string \<Rightarrow> exec_context \<Rightarrow> pydict \<Rightarrow> 'w xstate \<Rightarrow> 'w xstate" where
  "agent_publish ag event_type ctx data s = s\<lparr>xs_env := publish_opt (ag_bus ag) event_type ctx data (xs_env s)\<rparr>"

definition remember_step ::
    "'w agent_exec \<Rightarrow> exec_context \<Rightarrow> string \<Rightarrow> tool_call \<Rightarrow> tool_result \<Rightarrow> 'w xstate \<Rightarrow> 'w xstate" where
  "remember_step ag ctx agent_id call r s =
     s\<lparr>xs_env := ag_memory ag
        [(''execution_id'', VStr (ctx_execution_id ctx)), (''agent_id'', VStr agent_id), (''tool'', VStr (tc_tool call)),
         (''call_id'', VStr (tc_call_id call)), (''ok'', VBool (tr_ok r)), (''result'', tr_value r),
         (''error'', opt_str (tr_error r))] (xs_env s)\<rparr>"

text \<open>One step. In legacy mode a denied call is a failure, and a successful one is its bare value.\<close>

definition legacy_denied :: "'w agent_exec \<Rightarrow> tool_call \<Rightarrow> tool_result result \<Rightarrow> tool_result result" where
  "legacy_denied ag call r =
     (case r of
        Inl e \<Rightarrow> if ag_legacy ag \<and> isinst e [ToolPermissionError] then Inr (tool_failure call e False False) else Inl e
      | Inr r \<Rightarrow> Inr r)"

definition step_entry :: "'w agent_exec \<Rightarrow> tool_result \<Rightarrow> step_result" where
  "step_entry ag r = (if ag_legacy ag \<and> tr_ok r then Other_Step (tr_value r) else Tool_Step r)"

definition agent_step ::
    "'w agent_exec \<Rightarrow> (nat \<Rightarrow> call_fresh) \<Rightarrow> string \<Rightarrow> string list \<Rightarrow> exec_context \<Rightarrow> nat \<Rightarrow> plan_step \<Rightarrow> 'w xstate \<Rightarrow>
     step_result result \<times> 'w xstate" where
  "agent_step ag fr agent_id permissions ctx index step s =
     (case step of
        Plain_Step v \<Rightarrow> (Inr (Other_Step v), s)
      | Dict_Step d \<Rightarrow>
          (if step_tool d = [] then (Inr (Other_Step (sd_value d)), s)
           else let call = step_call ctx agent_id d index;
                    (r, s1) = execute_with_retry ag fr call agent_id permissions ctx s
                in case legacy_denied ag call r of
                     Inl e \<Rightarrow> (Inl e, s1)
                   | Inr r1 \<Rightarrow> (Inr (step_entry ag r1), remember_step ag ctx agent_id call r1 s1)))"

fun agent_steps ::
    "'w agent_exec \<Rightarrow> (nat \<Rightarrow> nat \<Rightarrow> call_fresh) \<Rightarrow> string \<Rightarrow> string list \<Rightarrow> exec_context \<Rightarrow> nat \<Rightarrow> plan_step list \<Rightarrow>
     'w xstate \<Rightarrow> step_result list result \<times> 'w xstate" where
  "agent_steps ag fr agent_id permissions ctx index [] s = (Inr [], s)"
| "agent_steps ag fr agent_id permissions ctx index (p # ps) s =
     (case agent_step ag (fr index) agent_id permissions ctx index p s of
        (Inl e, s1) \<Rightarrow> (Inl e, s1)
      | (Inr r, s1) \<Rightarrow>
          (let (rs, s2) = agent_steps ag fr agent_id permissions ctx (Suc index) ps s1
           in (map_sum id (Cons r) rs, s2)))"

text \<open>
  \<^verbatim>\<open>execute\<close>: the events around the plan, and the failure event for what \<^verbatim>\<open>except
  Exception\<close> catches, which is raised again.
\<close>

definition agent_body ::
    "'w agent_exec \<Rightarrow> (nat \<Rightarrow> nat \<Rightarrow> call_fresh) \<Rightarrow> string \<Rightarrow> pydict \<Rightarrow> exec_context \<Rightarrow> plan_step list \<Rightarrow> 'w xstate \<Rightarrow>
     step_result list result \<times> 'w xstate" where
  "agent_body ag fr agent_id context ctx plan s =
     (case permissions_of context of
        Inl e \<Rightarrow> (Inl e, s)
      | Inr permissions \<Rightarrow>
          (case agent_steps ag fr agent_id permissions ctx 0 plan s of
             (Inl e, s1) \<Rightarrow> (Inl e, s1)
           | (Inr rs, s1) \<Rightarrow>
               (Inr rs, agent_publish ag EXECUTION_COMPLETED ctx
                  [(''agent_id'', VStr agent_id), (''result_count'', VInt (int (length rs)))] s1)))"

text \<open>\<open>str_of\<close> is Python's \<^verbatim>\<open>str\<close> on values that are no text.\<close>

definition context_goal :: "(pyval \<Rightarrow> string) \<Rightarrow> pydict \<Rightarrow> string" where
  "context_goal str_of context =
     (case map_of context ''goal'' of None \<Rightarrow> [] | Some (VStr g) \<Rightarrow> g | Some v \<Rightarrow> str_of v)"

definition agent_execute ::
    "(pyval \<Rightarrow> string) \<Rightarrow> 'w agent_exec \<Rightarrow> (nat \<Rightarrow> nat \<Rightarrow> call_fresh) \<Rightarrow> string \<Rightarrow> string \<Rightarrow> plan_step list \<Rightarrow> pydict \<Rightarrow>
     exec_context option \<Rightarrow> 'w xstate \<Rightarrow> step_result list result \<times> 'w xstate" where
  "agent_execute str_of ag fr uid agent_id plan context ec s =
     (let ctx = (case ec of Some c \<Rightarrow> c | None \<Rightarrow> new_context uid agent_id (context_goal str_of context) context);
          s0 = agent_publish ag EXECUTION_STARTED ctx [(''agent_id'', VStr agent_id)] s
      in case agent_body ag fr agent_id context ctx plan s0 of
           (Inl e, s1) \<Rightarrow>
             (Inl e, if isinst e [PyException]
                     then agent_publish ag EXECUTION_FAILED ctx
                            [(''agent_id'', VStr agent_id), (''error'', VStr (exc_msg e))] s1
                     else s1)
         | (Inr rs, s1) \<Rightarrow> (Inr rs, s1))"

end
