(* ===== verification/Agent_Spec.thy ===== *)
theory Agent_Spec
  imports Agent
begin

text \<open>
  What executing a plan guarantees: one result per step, bounded retries that equal a simple search,
  and the answers of earlier plans that a position keeps.
\<close>

section \<open>The cache of results\<close>

definition refusal :: string where "refusal = ''intent is already claimed''"

lemma execute_once_cache: "xs_cache (snd (execute_once x clk uid call ctx ec s)) = xs_cache s"
  by (simp add: execute_once_def Let_def split: prod.split outcome.split)

lemma admit_cache: "xs_cache (snd (admit x clk owner token key call ec s)) = xs_cache s"
  by (simp add: admit_def Let_def split: prod.split sum.split option.split)

lemma release_after_cache: "xs_cache (snd (release_after b owner token key s)) = xs_cache s"
  by (simp add: release_after_def split: prod.split)

lemma record_outcome_cache: "xs_cache (snd (record_outcome x now b owner token key call r s)) = xs_cache s"
  by (simp add: record_outcome_def Let_def split: prod.split sum.split)

text \<open>A call changes the cache at its own key at most, and a final result is cached.\<close>

definition caches :: "string \<Rightarrow> 'w xstate \<Rightarrow> tool_result result \<times> 'w xstate \<Rightarrow> bool" where
  "caches key s p \<longleftrightarrow>
     (\<forall>k. k \<noteq> key \<longrightarrow> map_of (xs_cache (snd p)) k = map_of (xs_cache s) k)
     \<and> (\<forall>r. fst p = Inr r \<and> \<not> tr_retryable r \<and> tr_error r \<noteq> Some refusal \<longrightarrow> cached_answer (snd p) key = Some r)"

lemma caches_cong: "xs_cache s = xs_cache s' \<Longrightarrow> caches key s p = caches key s' p"
  by (simp add: caches_def)

lemma caches_Inl: "xs_cache s' = xs_cache s \<Longrightarrow> caches key s (Inl e, s')"
  by (simp add: caches_def)

lemma caches_remember: "xs_cache s' = xs_cache s \<Longrightarrow> caches key s (Inr r, remember_result key r s')"
  by (simp add: caches_def remember_result_def cached_answer_def)

lemma replay_caches: "caches key s (replay key call stored s)"
  by (simp add: replay_def caches_Inl caches_remember)

lemma run_admitted_caches: "caches key s (run_admitted x clk uid owner token b key call ctx ec s)"
proof -
  obtain r s1 where once: "execute_once x (\<lambda>i. clk (i + 2)) uid call ctx ec s = (r, s1)" by fastforce
  have 1: "xs_cache s1 = xs_cache s" using execute_once_cache [of x "\<lambda>i. clk (i + 2)" uid call ctx ec s] once by simp
  obtain rel s2 where rel: "release_after b owner token key s1 = (rel, s2)" by fastforce
  have 2: "xs_cache s2 = xs_cache s" using release_after_cache [of b owner token key s1] rel 1 by simp
  show ?thesis
  proof (cases r)
    case (Inl e)
    then show ?thesis using once rel 1 2 by (cases rel) (simp_all add: run_admitted_def caches_Inl del: add_2_eq_Suc')
  next
    case (Inr r0)
    obtain r3 s3 where rec: "record_outcome x (clk 4) b owner token key call r0 s1 = (r3, s3)" by fastforce
    have 3: "xs_cache s3 = xs_cache s" using record_outcome_cache [of x "clk 4" b owner token key call r0 s1] rec 1 by simp
    show ?thesis
      using once rel rec Inr 1 2 3
      by (cases rel; cases r3) (simp_all add: run_admitted_def caches_Inl caches_remember del: add_2_eq_Suc')
  qed
qed

lemma uncached_caches: "caches key s (uncached x clk uid owner token call ctx ec key s)"
proof -
  obtain a s1 where ad: "admit x clk owner token key call ec s = (a, s1)" by fastforce
  have 1: "xs_cache s = xs_cache s1" using admit_cache [of x clk owner token key call ec s] ad by simp
  have go: "caches key s (run_admitted x clk uid owner token b key call ctx ec s1)" for b
    using run_admitted_caches caches_cong [OF 1] by blast
  have rp: "caches key s (replay key call stored s1)" for stored
    using replay_caches caches_cong [OF 1] by blast
  have busy: "caches key s (Inr (tool_failure call (Exc RuntimeError ''intent is already claimed'') False False), s1)"
    using 1 by (simp add: caches_def tool_failure_def refusal_def)
  show ?thesis
    using ad 1 go rp busy
    by (auto simp: uncached_def caches_Inl replay_caches split: sum.split option.split admission.split)
qed

lemma execute_caches:
  assumes "opt_list (tc_idempotency_key call) = key" and "key \<noteq> []" and "tx_agent_id ctx \<noteq> []"
  shows "caches key s (execute x clk uid owner token call ctx ec s)"
proof (cases "cached_answer s key")
  case None
  then show ?thesis using assms uncached_caches by (simp add: execute_def)
next
  case (Some r)
  then show ?thesis using assms by (auto simp: execute_def caches_def)
qed

lemma execute_answered:
  assumes "opt_list (tc_idempotency_key call) = key" and "key \<noteq> []" and "tx_agent_id ctx \<noteq> []"
    and "cached_answer s key = Some r"
  shows "execute x clk uid owner token call ctx ec s = (Inr r, s)"
  using assms by (simp add: execute_def)

section \<open>Retries\<close>

text \<open>
  The reference: the results of the first, second, ... try, each after its wait; and the number of
  the try that decides.
\<close>

fun tries ::
    "'w agent_exec \<Rightarrow> (nat \<Rightarrow> 'w xstate \<Rightarrow> tool_result result \<times> 'w xstate) \<Rightarrow> 'w xstate \<Rightarrow> nat \<Rightarrow> tool_result result \<times> 'w xstate" where
  "tries ag call s 0 = call 0 s"
| "tries ag call s (Suc k) = call (Suc k) (wait_env ag (retry_delay (Suc k)) (snd (tries ag call s k)))"

definition undecided :: "tool_result result \<times> 'w xstate \<Rightarrow> bool" where
  "undecided p \<longleftrightarrow> (case fst p of Inl _ \<Rightarrow> False | Inr r \<Rightarrow> retry_again r)"

lemma retry_loop_tries:
  assumes "tries ag call s k = (Inr r, s1)"
  shows "\<exists>j. k \<le> j \<and> j \<le> k + n \<and> retry_loop ag call k n r s1 = tries ag call s j
    \<and> (\<forall>i. k \<le> i \<and> i < j \<longrightarrow> undecided (tries ag call s i)) \<and> (j = k + n \<or> \<not> undecided (tries ag call s j))"
  using assms
proof (induction n arbitrary: k r s1)
  case 0
  then show ?case by (intro exI [of _ k]) auto
next
  case (Suc n)
  show ?case
  proof (cases "retry_again r")
    case False
    then show ?thesis using Suc.prems by (intro exI [of _ k]) (auto simp: undecided_def)
  next
    case True
    obtain r2 s2 where nxt: "call (Suc k) (wait_env ag (retry_delay (Suc k)) s1) = (r2, s2)" by fastforce
    then have t: "tries ag call s (Suc k) = (r2, s2)" using Suc.prems by simp
    have u: "undecided (tries ag call s k)" using Suc.prems True by (simp add: undecided_def)
    show ?thesis
    proof (cases r2)
      case (Inl e)
      then have "retry_loop ag call k (Suc n) r s1 = tries ag call s (Suc k)" using True nxt t by simp
      moreover have "\<not> undecided (tries ag call s (Suc k))" using t Inl by (simp add: undecided_def)
      ultimately show ?thesis
        using u by (intro exI [of _ "Suc k"]) (auto simp: less_Suc_eq le_Suc_eq dest: le_antisym)
    next
      case (Inr r1)
      have "tries ag call s (Suc k) = (Inr r1, s2)" using t Inr by simp
      from Suc.IH [OF this] obtain j where j: "Suc k \<le> j" "j \<le> Suc k + n" "retry_loop ag call (Suc k) n r1 s2 = tries ag call s j"
        "\<forall>i. Suc k \<le> i \<and> i < j \<longrightarrow> undecided (tries ag call s i)" "j = Suc k + n \<or> \<not> undecided (tries ag call s j)"
        by blast
      have "undecided (tries ag call s i)" if "k \<le> i" "i < j" for i
        using u j(4) that by (cases "i = k") auto
      moreover have "retry_loop ag call k (Suc n) r s1 = tries ag call s j" using True nxt Inr j(3) by simp
      ultimately show ?thesis using j(1,2,5) by (intro exI [of _ j]) simp
    qed
  qed
qed

lemma retry_delay_bounds: "0 < retry_delay k \<and> retry_delay k \<le> seconds 2"
  by (simp add: retry_delay_def min_def)


section \<open>Steps\<close>

definition keeps :: "'w xstate \<Rightarrow> 'w xstate \<Rightarrow> bool" where
  "keeps s s' \<longleftrightarrow> (\<forall>k r. cached_answer s k = Some r \<longrightarrow> cached_answer s' k = Some r)"

definition final :: "tool_result \<Rightarrow> bool" where
  "final r \<longleftrightarrow> \<not> tr_retryable r \<and> tr_error r \<noteq> Some refusal"

lemma keeps_trans: "keeps s s1 \<Longrightarrow> keeps s1 s2 \<Longrightarrow> keeps s s2"
  by (simp add: keeps_def)

lemma keeps_env [simp]: "keeps s (s'\<lparr>xs_env := v\<rparr>) \<longleftrightarrow> keeps s s'" "keeps (s\<lparr>xs_env := v\<rparr>) s' \<longleftrightarrow> keeps s s'"
  by (simp_all add: keeps_def cached_answer_def)

lemma cached_env [simp]: "cached_answer (s\<lparr>xs_env := v\<rparr>) k = cached_answer s k"
  by (simp add: cached_answer_def)

lemma keeps_refl [simp]: "keeps s s"
  by (simp add: keeps_def)

lemma execute_keeps:
  assumes "opt_list (tc_idempotency_key call) = key" and "key \<noteq> []" and "tx_agent_id ctx \<noteq> []"
  shows "keeps s (snd (execute x clk uid owner token call ctx ec s))"
proof (cases "cached_answer s key")
  case None
  have "caches key s (execute x clk uid owner token call ctx ec s)" by (rule execute_caches [OF assms])
  then have other: "map_of (xs_cache (snd (execute x clk uid owner token call ctx ec s))) k = map_of (xs_cache s) k"
    if "k \<noteq> key" for k using that by (simp add: caches_def)
  show ?thesis
    unfolding keeps_def
  proof (intro allI impI)
    fix k r assume k: "cached_answer s k = Some r"
    then have "k \<noteq> key" using None by auto
    then show "cached_answer (snd (execute x clk uid owner token call ctx ec s)) k = Some r"
      using k by (simp add: cached_answer_def other)
  qed
next
  case (Some r)
  then show ?thesis using execute_answered [OF assms Some] by simp
qed

lemma execute_final:
  assumes "opt_list (tc_idempotency_key call) = key" and "key \<noteq> []" and "tx_agent_id ctx \<noteq> []"
    and "execute x clk uid owner token call ctx ec s = (Inr r, s')" and "final r"
  shows "cached_answer s' key = Some r"
  using execute_caches [OF assms(1-3), of s x clk uid owner token ec] assms(4,5) by (simp add: caches_def final_def)

lemma retry_loop_cache:
  assumes "\<And>k s. keeps s (snd (call k s))"
    and "\<forall>k s r s'. call k s = (Inr r, s') \<and> final r \<longrightarrow> cached_answer s' key = Some r"
    and "final r \<longrightarrow> cached_answer s key = Some r"
    and "retry_loop ag call k n r s = (r', s')"
  shows "keeps s s' \<and> (\<forall>q. r' = Inr q \<and> final q \<longrightarrow> cached_answer s' key = Some q)"
  using assms(3,4)
proof (induction n arbitrary: k r s)
  case 0
  then show ?case by auto
next
  case (Suc n)
  show ?case
  proof (cases "retry_again r")
    case False
    then show ?thesis using Suc.prems by auto
  next
    case True
    obtain r1 s1 where c: "call (Suc k) (wait_env ag (retry_delay (Suc k)) s) = (r1, s1)" by fastforce
    have kp: "keeps s s1" using assms(1) [of "wait_env ag (retry_delay (Suc k)) s" "Suc k"] c by (simp add: wait_env_def)
    show ?thesis
    proof (cases r1)
      case (Inl e)
      then show ?thesis using Suc.prems(2) True c kp by auto
    next
      case (Inr q)
      have q: "final q \<longrightarrow> cached_answer s1 key = Some q" using assms(2) c Inr by blast
      have "retry_loop ag call (Suc k) n q s1 = (r', s')" using Suc.prems(2) True c Inr by simp
      from Suc.IH [OF q this] show ?thesis using kp keeps_trans by blast
    qed
  qed
qed

lemma with_retry_cache:
  assumes "opt_list (tc_idempotency_key call) = key" and "key \<noteq> []" and "agent_id \<noteq> []"
    and "execute_with_retry ag fr call agent_id permissions ctx s = (r, s')"
  shows "keeps s s' \<and> (\<forall>q. r = Inr q \<and> final q \<longrightarrow> cached_answer s' key = Some q)
    \<and> (\<forall>q. cached_answer s key = Some q \<longrightarrow> r = Inr q \<and> s' = s)"
proof -
  let ?t = "\<lparr>tx_agent_id = agent_id, tx_permissions = permissions\<rparr>"
  let ?call = "\<lambda>k. call_executor (ag_executor ag) (fr k) call ?t (Some ctx)"
  have t: "tx_agent_id ?t \<noteq> []" using assms(3) by simp
  have kp: "keeps s (snd (?call k s))" for k s
    unfolding call_executor_def by (rule execute_keeps [OF assms(1,2) t])
  have fin: "\<forall>k s q s1. ?call k s = (Inr q, s1) \<and> final q \<longrightarrow> cached_answer s1 key = Some q"
    unfolding call_executor_def using execute_final [OF assms(1,2) t] by blast
  obtain r0 s0 where 0: "?call 0 s = (r0, s0)" by fastforce
  have k0: "keeps s s0" using kp [of s 0] 0 by simp
  have main: "keeps s s' \<and> (\<forall>q. r = Inr q \<and> final q \<longrightarrow> cached_answer s' key = Some q)"
  proof (cases r0)
    case (Inl e)
    then show ?thesis using assms(4) 0 k0 by (auto simp: execute_with_retry_def)
  next
    case (Inr q)
    have q: "final q \<longrightarrow> cached_answer s0 key = Some q" using fin 0 Inr by blast
    have "retry_loop ag ?call 0 (ag_retries ag) q s0 = (r, s')" using assms(4) 0 Inr by (simp add: execute_with_retry_def Let_def)
    from retry_loop_cache [OF kp fin q this] show ?thesis using k0 keeps_trans by blast
  qed
  have "r = Inr q \<and> s' = s" if c: "cached_answer s key = Some q" for q
  proof -
    have "?call 0 s = (Inr q, s)"
      unfolding call_executor_def by (rule execute_answered [OF assms(1,2) t c])
    moreover have "\<not> retry_again q" using c by (auto simp: cached_answer_def retry_again_def split: option.splits if_splits)
    ultimately show ?thesis using assms(4) by (cases "ag_retries ag") (simp_all add: execute_with_retry_def Let_def)
  qed
  with main show ?thesis by blast
qed

definition step_key :: "exec_context \<Rightarrow> step_dict \<Rightarrow> nat \<Rightarrow> string" where
  "step_key ctx d index = or_text (sd_key d) (default_key ctx d index)"

lemma step_call_key:
  "opt_list (tc_idempotency_key (step_call ctx agent_id d i)) = step_key ctx d i" "step_key ctx d i \<noteq> []"
  by (simp_all add: step_call_def step_key_def or_text_def default_key_def opt_list_def)

text \<open>What a step's entry in the results is, and what the cache knows of it before and after.\<close>

definition entry_ok ::
    "'w agent_exec \<Rightarrow> exec_context \<Rightarrow> nat \<Rightarrow> plan_step \<Rightarrow> 'w xstate \<Rightarrow> 'w xstate \<Rightarrow> step_result \<Rightarrow> bool" where
  "entry_ok ag ctx index step s s' entry \<longleftrightarrow>
     (case step of
        Plain_Step v \<Rightarrow> entry = Other_Step v
      | Dict_Step d \<Rightarrow>
          (if step_tool d = [] then entry = Other_Step (sd_value d)
           else \<exists>r. entry = step_entry ag r
             \<and> (\<not> ag_legacy ag \<longrightarrow>
                  (final r \<longrightarrow> cached_answer s' (step_key ctx d index) = Some r)
                  \<and> (\<forall>q. cached_answer s (step_key ctx d index) = Some q \<longrightarrow> r = q))))"

lemma entry_ok_keeps:
  assumes "entry_ok ag ctx i p s1 s2 e" and "keeps s s1" and "keeps s2 s3"
  shows "entry_ok ag ctx i p s s3 e"
  using assms by (auto simp: entry_ok_def keeps_def split: plan_step.splits if_splits)

lemma agent_step_ok:
  assumes "agent_id \<noteq> []" and "agent_step ag fr agent_id permissions ctx i p s = (r, s')"
  shows "keeps s s' \<and> (\<forall>e. r = Inr e \<longrightarrow> entry_ok ag ctx i p s s' e)"
proof (cases p)
  case (Plain_Step v)
  then show ?thesis using assms(2) by (auto simp: agent_step_def entry_ok_def)
next
  case (Dict_Step d)
  show ?thesis
  proof (cases "step_tool d = []")
    case True
    then show ?thesis using assms(2) Dict_Step by (auto simp: agent_step_def entry_ok_def)
  next
    case False
    let ?c = "step_call ctx agent_id d i"
    obtain r1 s1 where w: "execute_with_retry ag fr ?c agent_id permissions ctx s = (r1, s1)" by fastforce
    note c = with_retry_cache [OF step_call_key assms(1) w]
    show ?thesis
    proof (cases "legacy_denied ag ?c r1")
      case (Inl e)
      then show ?thesis using assms(2) Dict_Step False w c by (auto simp: agent_step_def)
    next
      case (Inr r2)
      then have r2: "\<not> ag_legacy ag \<longrightarrow> r1 = Inr r2" by (auto simp: legacy_denied_def split: sum.splits if_splits)
      have s': "r = Inr (step_entry ag r2)" "s' = remember_step ag ctx agent_id ?c r2 s1"
        using assms(2) Dict_Step False w Inr by (simp_all add: agent_step_def)
      have "entry_ok ag ctx i p s s' (step_entry ag r2)"
        using Dict_Step False c r2 s'(2) by (auto simp: entry_ok_def remember_step_def)
      then show ?thesis using c s' by (simp add: remember_step_def)
    qed
  qed
qed

lemma agent_steps_ok:
  assumes "agent_id \<noteq> []" and "agent_steps ag fr agent_id permissions ctx n ps s = (Inr rs, s')"
  shows "length rs = length ps \<and> keeps s s' \<and> (\<forall>i < length ps. entry_ok ag ctx (n + i) (ps ! i) s s' (rs ! i))"
  using assms(2)
proof (induction ps arbitrary: n s rs)
  case Nil
  then show ?case by simp
next
  case (Cons p ps)
  obtain r s1 where one: "agent_step ag (fr n) agent_id permissions ctx n p s = (r, s1)" by fastforce
  obtain e where e: "r = Inr e" using Cons.prems one by (cases r) auto
  obtain rs' where rest: "agent_steps ag fr agent_id permissions ctx (Suc n) ps s1 = (Inr rs', s')" "rs = e # rs'"
    using Cons.prems one e by (cases "agent_steps ag fr agent_id permissions ctx (Suc n) ps s1" rule: result_cases_pair) auto
  note o = agent_step_ok [OF assms(1) one] and ih = Cons.IH [OF rest(1)]
  have "entry_ok ag ctx (n + i) ((p # ps) ! i) s s' ((e # rs') ! i)" if "i < length (p # ps)" for i
  proof (cases i)
    case 0
    then show ?thesis using entry_ok_keeps [of ag ctx n p s s1 e s s'] o ih e by simp
  next
    case (Suc j)
    then show ?thesis using entry_ok_keeps [of ag ctx "Suc n + j" "ps ! j" s1 s' "rs' ! j" s s'] o ih that by simp
  qed
  then show ?case using o ih rest(2) keeps_trans by auto
qed

lemma agent_execute_ok:
  assumes "agent_id \<noteq> []" and "agent_execute str_of ag fr uid agent_id plan context (Some ctx) s = (Inr rs, s')"
  shows "length rs = length plan \<and> (\<forall>i < length plan. entry_ok ag ctx i (plan ! i) s s' (rs ! i))"
proof -
  let ?s0 = "agent_publish ag EXECUTION_STARTED ctx [(''agent_id'', VStr agent_id)] s"
  have body: "agent_body ag fr agent_id context ctx plan ?s0 = (Inr rs, s')"
    using assms(2) by (cases "agent_body ag fr agent_id context ctx plan ?s0" rule: result_cases_pair)
      (simp_all add: agent_execute_def)
  then obtain permissions where p: "permissions_of context = Inr permissions"
    by (cases "permissions_of context") (simp_all add: agent_body_def)
  obtain s1 where st: "agent_steps ag fr agent_id permissions ctx 0 plan ?s0 = (Inr rs, s1)"
    "s' = agent_publish ag EXECUTION_COMPLETED ctx [(''agent_id'', VStr agent_id), (''result_count'', VInt (int (length rs)))] s1"
    using body p
    by (cases "agent_steps ag fr agent_id permissions ctx 0 plan ?s0" rule: result_cases_pair) (auto simp: agent_body_def)
  have k: "keeps s ?s0" "keeps s1 s'" by (simp_all add: agent_publish_def st(2))
  note ok = agent_steps_ok [OF assms(1) st(1)]
  have "entry_ok ag ctx i (plan ! i) s s' (rs ! i)" if "i < length plan" for i
    by (rule entry_ok_keeps [OF _ k]) (use ok that in simp)
  then show ?thesis using ok by simp
qed

text \<open>
  C37. The results line up with the plan. When an agent's plan is executed to the end there is
  exactly one result per step, in the order of the plan: a step that names no tool is its own result,
  and a step that names one has a typed tool result (in legacy mode the bare value when it succeeded).
\<close>

theorem results_line_up:
  assumes "agent_id \<noteq> []" and "agent_execute str_of ag fr uid agent_id plan context (Some ctx) s = (Inr rs, s')"
  shows "length rs = length plan
    \<and> (\<forall>i < length plan. case plan ! i of
         Plain_Step v \<Rightarrow> rs ! i = Other_Step v
       | Dict_Step d \<Rightarrow> if step_tool d = [] then rs ! i = Other_Step (sd_value d)
           else \<exists>r. rs ! i = (if ag_legacy ag \<and> tr_ok r then Other_Step (tr_value r) else Tool_Step r))"
proof -
  have "case plan ! i of
         Plain_Step v \<Rightarrow> rs ! i = Other_Step v
       | Dict_Step d \<Rightarrow> if step_tool d = [] then rs ! i = Other_Step (sd_value d)
           else \<exists>r. rs ! i = (if ag_legacy ag \<and> tr_ok r then Other_Step (tr_value r) else Tool_Step r)"
    if "entry_ok ag ctx i (plan ! i) s s' (rs ! i)" for i
    using that unfolding entry_ok_def step_entry_def by (cases "plan ! i") (auto split: if_splits)
  then show ?thesis using agent_execute_ok [OF assms] by blast
qed

text \<open>
  C27. A replanned step gets the old plan's answer. Two plans run one after the other in the same
  execution (as the autonomous loop does after a failure): where both have, at the same position, a
  step with a tool but without an idempotency key or call id of its own, and the first plan's step
  ended with an outcome that is not retryable, the second plan's step gets that very outcome, whatever
  tool and arguments it names. Its tool is not run, so replanning cannot repair that position.
\<close>

theorem replanned_step_gets_old_answer:
  assumes "agent_id \<noteq> []" and "\<not> ag_legacy ag"
    and "agent_execute str_of ag fr uid agent_id plan1 context1 (Some ctx) s = (Inr rs1, s1)"
    and "agent_execute str_of ag fr' uid' agent_id plan2 context2 (Some ctx) s1 = (Inr rs2, s2)"
    and "i < length plan1" and "i < length plan2" and "plan1 ! i = Dict_Step d1" and "plan2 ! i = Dict_Step d2"
    and "step_tool d1 \<noteq> []" and "step_tool d2 \<noteq> []"
    and "\<forall>d \<in> {d1, d2}. opt_list (sd_key d) = [] \<and> opt_list (sd_call_id d) = []"
    and "rs1 ! i = Tool_Step r" and "\<not> tr_retryable r" and "tr_error r \<noteq> Some ''intent is already claimed''"
  shows "rs2 ! i = Tool_Step r"
proof -
  have k: "step_key ctx d1 i = step_key ctx d2 i"
    using assms(11) by (simp add: step_key_def or_text_def default_key_def)
  have "entry_ok ag ctx i (Dict_Step d1) s s1 (Tool_Step r)"
    using agent_execute_ok [OF assms(1,3)] assms(5,7,12) by metis
  then have c: "cached_answer s1 (step_key ctx d1 i) = Some r"
    using assms(2,9,13,14) by (auto simp: entry_ok_def step_entry_def final_def refusal_def)
  have "entry_ok ag ctx i (Dict_Step d2) s1 s2 (rs2 ! i)"
    using agent_execute_ok [OF assms(1,4)] assms(6,8) by metis
  then show ?thesis using assms(2,10) c k by (auto simp: entry_ok_def step_entry_def)
qed

section \<open>Witnesses\<close>

definition pay_dict :: "string \<Rightarrow> step_dict" where
  "pay_dict tool = \<lparr>sd_tool = Some tool, sd_action = None, sd_arguments = None, sd_kwargs = None, sd_call_id = None,
     sd_timeout = None, sd_key = None, sd_value = VNone\<rparr>"

definition pay_step :: "string \<Rightarrow> plan_step" where
  "pay_step tool = Dict_Step (pay_dict tool)"

lemma pay_dict_simps [simp]:
  "step_tool (pay_dict tool) = tool" "sd_key (pay_dict tool) = None" "sd_call_id (pay_dict tool) = None"
  by (simp_all add: pay_dict_def step_tool_def or_text_def opt_list_def)

text \<open>A tool that declines, and one that would succeed; the count tells how often a tool has run.\<close>

definition tool_of :: "string \<Rightarrow> tool_result \<Rightarrow> nat tool_env tool_spec" where
  "tool_of name r = \<lparr>ts_name = name, ts_handler = (\<lambda>_ e. (Typed r, e\<lparr>ve_world := ve_world e + 1\<rparr>)), ts_permissions = []\<rparr>"

definition declined :: tool_result where
  "declined = \<lparr>tr_call_id = ''c'', tr_tool = ''bad'', tr_ok = False, tr_value = VNone, tr_error = Some ''declined'',
     tr_retryable = False, tr_idempotency_key = None, tr_ambiguous = False\<rparr>"

definition flaky :: tool_result where
  "flaky = declined\<lparr>tr_retryable := True\<rparr>"

definition sample_agent :: "int \<Rightarrow> nat agent_exec" where
  "sample_agent retries = new_agent_exec
     (Inr \<lparr>xe_sandbox = new_sandbox [(''bad'', tool_of ''bad'' declined), (''flaky'', tool_of ''flaky'' flaky),
                                   (''good'', tool_of ''good'' (declined\<lparr>tr_ok := True, tr_error := None\<rparr>))] [],
          xe_bus = None, xe_has_results = False, xe_has_intents = False, xe_ttl = 60\<rparr>)
     retries None (\<lambda>_ e. e) (\<lambda>_ e. e)"

definition sample_fresh :: "nat \<Rightarrow> call_fresh" where
  "sample_fresh k = \<lparr>cf_clock = (\<lambda>i. int i), cf_uid = ''u'', cf_owner = ''o'', cf_token = ''t''\<rparr>"

definition agent_state :: "nat xstate" where
  "agent_state = \<lparr>xs_cache = [], xs_audit = \<lparr>ea_events = [], ea_log = None\<rparr>,
     xs_env = \<lparr>ve_files = \<lparr>bw_intents = Object [], bw_results = Object []\<rparr>, ve_world = 0\<rparr>\<rparr>"

definition agent_ctx :: exec_context where
  "agent_ctx = new_context ''e1'' ''agent'' ''goal'' []"

definition run_agent :: "string list \<Rightarrow> nat xstate \<Rightarrow> step_result list result \<times> nat xstate" where
  "run_agent tools s = agent_execute (\<lambda>_. []) (sample_agent 0) (\<lambda>i. sample_fresh) ''u'' ''agent'' (map pay_step tools) []
     (Some agent_ctx) s"

definition after_bad :: "nat xstate" where
  "after_bad = snd (run_agent [''bad''] agent_state)"

lemma run_bad: "run_agent [''bad''] agent_state = (Inr [Tool_Step declined], after_bad)"
proof -
  have "fst (run_agent [''bad''] agent_state) = Inr [Tool_Step declined]" by code_simp
  then show ?thesis by (simp add: after_bad_def prod_eq_iff)
qed

lemma run_good_after: "\<exists>rs s. run_agent [''good''] after_bad = (Inr rs, s) \<and> ve_world (xs_env s) = 1"
proof -
  have "case run_agent [''good''] after_bad of (Inr _, s) \<Rightarrow> ve_world (xs_env s) = 1 | _ \<Rightarrow> False" by code_simp
  then show ?thesis by (cases "run_agent [''good''] after_bad" rule: result_cases_pair) simp_all
qed

theorem results_line_up_witness:
  "\<exists>rs s. run_agent [''bad''] agent_state = (Inr rs, s) \<and> length rs = 1"
  using results_line_up [of "''agent''", OF _ run_bad [unfolded run_agent_def]] run_bad by simp

theorem replanned_step_gets_old_answer_witness:
  "\<exists>rs s. run_agent [''good''] (snd (run_agent [''bad''] agent_state)) = (Inr rs, s) \<and> rs ! 0 = Tool_Step declined
     \<and> ve_world (xs_env s) = 1"
proof -
  obtain rs s where g: "run_agent [''good''] after_bad = (Inr rs, s)" "ve_world (xs_env s) = 1"
    using run_good_after by blast
  have "rs ! 0 = Tool_Step declined"
    by (rule replanned_step_gets_old_answer [OF _ _ run_bad [unfolded run_agent_def] g(1) [unfolded run_agent_def],
          of 0 "pay_dict ''bad''" "pay_dict ''good''"])
      (simp_all add: pay_step_def opt_list_def sample_agent_def new_agent_exec_def declined_def)
  then show ?thesis using g run_bad by simp
qed


end
