(* ===== verification/Bounded_Recovery.thy ===== *)
theory Bounded_Recovery
  imports Executor_Spec
begin

text \<open>
  \<^verbatim>\<open>runtime/tool_intent_recovery.py\<close>: the worker that asks a resolver about ambiguous intents a
  bounded number of times, under a claim that a background task renews and, when there is a lease
  store, under a lease. The renewals that happen while an attempt waits are given by their instants,
  those during the backoff as well; what other processes do meanwhile belongs to the resolver and to
  the parameter \<open>wait\<close>.
\<close>

record bounded_worker =
  tw_has_leases :: bool
  tw_owner :: "string option"
  tw_max_attempts :: int
  tw_backoff :: time
  tw_claim_ttl :: int
  tw_lease_ttl :: int

text \<open>The constructor's checks; the claim's time to live is the intent store's.\<close>

definition new_bounded_worker ::
    "bool \<Rightarrow> string option \<Rightarrow> int \<Rightarrow> time \<Rightarrow> int \<Rightarrow> int \<Rightarrow> bounded_worker result" where
  "new_bounded_worker has_leases owner max_attempts backoff store_ttl ls_ttl =
     (if owner = None \<and> has_leases then Inl (Exc ValueError ''lease_store requires owner_id'')
      else if max_attempts < 1 then Inl (Exc ValueError ''max_attempts must be >= 1'')
      else Inr \<lparr>tw_has_leases = has_leases, tw_owner = owner, tw_max_attempts = max_attempts,
                tw_backoff = max 0 backoff, tw_claim_ttl = store_ttl, tw_lease_ttl = ls_ttl\<rparr>)"

record bounded_result =
  tb_key :: string
  tb_status :: string
  tb_attempts :: int

definition bounded_outcome :: "intent \<Rightarrow> string \<Rightarrow> int \<Rightarrow> bounded_result" where
  "bounded_outcome i status n = \<lparr>tb_key = ti_key i, tb_status = status, tb_attempts = n\<rparr>"

text \<open>The leases beside the executor, its files and the world.\<close>

record 'w tstate =
  ts_leases :: lease_file
  ts_x :: "'w xstate"

definition with_intents ::
    "(intent_file \<Rightarrow> 'a result \<times> intent_file) \<Rightarrow> 'w tstate \<Rightarrow> 'a result \<times> 'w tstate" where
  "with_intents f s = (let (r, g) = f (intents_of (ts_x s)) in (r, s\<lparr>ts_x := set_intents g (ts_x s)\<rparr>))"

definition claim_owner :: "bounded_worker \<Rightarrow> string" where
  "claim_owner tw = (if opt_list (tw_owner tw) \<noteq> [] then opt_list (tw_owner tw) else ''local-recovery'')"

definition claim_token :: "bounded_worker \<Rightarrow> lease option \<Rightarrow> string \<Rightarrow> string" where
  "claim_token tw l uid =
     ''recovery:'' @ claim_owner tw @ '':'' @
     (case l of Some l \<Rightarrow> str_int (ls_fencing_token l) | None \<Rightarrow> ''local'') @ '':'' @ uid"

text \<open>
  The background task runs, has ended (a renewal was refused) or has died of an exception.
\<close>

datatype renewer = Renewing | Ended | Died exc

fun renew_loop :: "int \<Rightarrow> string \<Rightarrow> string \<Rightarrow> string \<Rightarrow> time list \<Rightarrow> intent_file \<Rightarrow> renewer \<times> intent_file" where
  "renew_loop ttl key owner token [] f = (Renewing, f)"
| "renew_loop ttl key owner token (t # ts) f =
     (case renew_claim ttl key owner token t f of
        (Inl e, f1) \<Rightarrow> (Died e, f1)
      | (Inr False, f1) \<Rightarrow> (Ended, f1)
      | (Inr True, f1) \<Rightarrow> renew_loop ttl key owner token ts f1)"

definition renewing ::
    "bounded_worker \<Rightarrow> string \<Rightarrow> string \<Rightarrow> time list \<Rightarrow> renewer \<times> 'w tstate \<Rightarrow> renewer \<times> 'w tstate" where
  "renewing tw key token ts p =
     (if fst p = Renewing then
        (let (b, g) = renew_loop (tw_claim_ttl tw) key (claim_owner tw) token ts (intents_of (ts_x (snd p)))
         in (b, (snd p)\<lparr>ts_x := set_intents g (ts_x (snd p))\<rparr>))
      else p)"

text \<open>
  What one attempt meets: the instants of its lease check and of its final mark, and the renewals
  during its resolver and during the backoff after it.
\<close>

record attempt_times =
  at_check :: time
  at_mark :: time
  at_renew :: "time list"
  at_backoff :: "time list"

definition lease_lost ::
    "bounded_worker \<Rightarrow> intent \<Rightarrow> lease option \<Rightarrow> time \<Rightarrow> 'w tstate \<Rightarrow> bool result" where
  "lease_lost tw i l now s =
     (case l of
        None \<Rightarrow> Inr False
      | Some l \<Rightarrow> map_sum id Not (is_owner (ti_key i) (opt_list (tw_owner tw)) (Some (ls_fencing_token l)) now (ts_leases s)))"

text \<open>\<^verbatim>\<open>except CancelledError: raise; except Exception: result = None\<close>\<close>

definition resolve_attempt ::
    "'w executor \<Rightarrow> intent \<Rightarrow> 'w intent_resolver \<Rightarrow> 'w xstate \<Rightarrow> tool_result option result \<times> 'w xstate" where
  "resolve_attempt x i resolver s =
     (case reconcile_intent x i resolver s of
        (Inl e, s1) \<Rightarrow> (if isinst e [PyException] then (Inr None, s1) else (Inl e, s1))
      | (Inr r, s1) \<Rightarrow> (Inr r, s1))"

definition finish_attempt ::
    "bounded_worker \<Rightarrow> intent \<Rightarrow> string \<Rightarrow> time \<Rightarrow> int \<Rightarrow> tool_result \<Rightarrow> 'w tstate \<Rightarrow> bounded_result result \<times> 'w tstate" where
  "finish_attempt tw i token now n r s =
     (let (m, s1) = with_intents (mark_claimed (ti_key i) (claim_owner tw) token (terminal_of (tr_ok r)) now) s
      in (map_sum id (\<lambda>m. bounded_outcome i
            (if m = None then ''stale_claim'' else if tr_ok r then ''recovered'' else ''failed'') n) m, s1))"

text \<open>The \<^verbatim>\<open>while\<close> loop: \<open>k\<close> attempts are left after \<open>n\<close>; the renewer goes along.\<close>

fun bounded_attempts ::
    "bounded_worker \<Rightarrow> 'w executor \<Rightarrow> 'w intent_resolver \<Rightarrow> (time \<Rightarrow> 'w xstate \<Rightarrow> 'w xstate) \<Rightarrow> (nat \<Rightarrow> attempt_times) \<Rightarrow>
     intent \<Rightarrow> intent \<Rightarrow> lease option \<Rightarrow> string \<Rightarrow> nat \<Rightarrow> nat \<Rightarrow> renewer \<times> 'w tstate \<Rightarrow>
     bounded_result result \<times> renewer \<times> 'w tstate" where
  "bounded_attempts tw x resolver wait tm i c l token n 0 p =
     (let (r, s) = with_intents (release_claim (ti_key i) (claim_owner tw) token ''ambiguous'') (snd p)
      in (map_sum id (\<lambda>_. bounded_outcome i ''quarantined'' (int n)) r, fst p, s))"
| "bounded_attempts tw x resolver wait tm i c l token n (Suc k) p =
     (case lease_lost tw i l (at_check (tm (Suc n))) (snd p) of
        Inl e \<Rightarrow> (Inl e, p)
      | Inr True \<Rightarrow> (Inr (bounded_outcome i ''skipped_by_lease'' (int (Suc n))), p)
      | Inr False \<Rightarrow>
          (let (b, s0) = renewing tw (ti_key i) token (at_renew (tm (Suc n))) p;
               (r, xs) = resolve_attempt x c resolver (ts_x s0);
               s1 = s0\<lparr>ts_x := xs\<rparr>
           in case r of
                Inl e \<Rightarrow> (Inl e, b, s1)
              | Inr (Some res) \<Rightarrow>
                  (let (y, s2) = finish_attempt tw i token (at_mark (tm (Suc n))) (int (Suc n)) res s1 in (y, b, s2))
              | Inr None \<Rightarrow>
                  bounded_attempts tw x resolver wait tm i c l token (Suc n) k
                    (if 0 < k \<and> tw_backoff tw \<noteq> 0
                     then renewing tw (ti_key i) token (at_backoff (tm (Suc n)))
                            (b, s1\<lparr>ts_x := wait (tw_backoff tw * 2 ^ n) (ts_x s1)\<rparr>)
                     else (b, s1))))"

definition give_lease_back ::
    "bounded_worker \<Rightarrow> intent \<Rightarrow> lease option \<Rightarrow> time \<Rightarrow> 'a result \<times> 'w tstate \<Rightarrow> 'a result \<times> 'w tstate" where
  "give_lease_back tw i l now p =
     (case l of
        None \<Rightarrow> p
      | Some l \<Rightarrow>
          (let (r, f) = release (ti_key i) (opt_list (tw_owner tw)) (Some (ls_fencing_token l)) now (ts_leases (snd p))
           in (case r of Inl e \<Rightarrow> Inl e | Inr _ \<Rightarrow> fst p, (snd p)\<lparr>ts_leases := f\<rparr>)))"

text \<open>
  The \<^verbatim>\<open>finally\<close>: awaiting a renewer that died raises its exception, and then the lease
  is not given back.
\<close>

definition bounded_finally ::
    "bounded_worker \<Rightarrow> intent \<Rightarrow> lease option \<Rightarrow> time \<Rightarrow> 'a result \<times> renewer \<times> 'w tstate \<Rightarrow> 'a result \<times> 'w tstate" where
  "bounded_finally tw i l now p =
     (case p of (r, b, s) \<Rightarrow> (case b of Died e \<Rightarrow> (Inl e, s) | _ \<Rightarrow> give_lease_back tw i l now (r, s)))"

text \<open>
  \<^verbatim>\<open>_recover_one\<close> after the lease: an exception of \<^verbatim>\<open>claim\<close> is not inside the
  \<^verbatim>\<open>try\<close>, so the lease stays.
\<close>

definition bounded_claimed ::
    "bounded_worker \<Rightarrow> 'w executor \<Rightarrow> 'w intent_resolver \<Rightarrow> (time \<Rightarrow> 'w xstate \<Rightarrow> 'w xstate) \<Rightarrow> (nat \<Rightarrow> attempt_times) \<Rightarrow>
     (nat \<Rightarrow> time) \<Rightarrow> string \<Rightarrow> intent \<Rightarrow> lease option \<Rightarrow> 'w tstate \<Rightarrow> bounded_result result \<times> 'w tstate" where
  "bounded_claimed tw x resolver wait tm clk uid i l s =
     (let token = claim_token tw l uid in
      case with_intents (claim (tw_claim_ttl tw) (ti_key i) (claim_owner tw) token (clk 1)) s of
        (Inl e, s1) \<Rightarrow> (Inl e, s1)
      | (Inr None, s1) \<Rightarrow> give_lease_back tw i l (clk 2) (Inr (bounded_outcome i ''skipped_by_claim'' 0), s1)
      | (Inr (Some c), s1) \<Rightarrow>
          bounded_finally tw i l (clk 2)
            (bounded_attempts tw x resolver wait tm i c l token 0 (nat (tw_max_attempts tw)) (Renewing, s1)))"

definition bounded_recover_one ::
    "bounded_worker \<Rightarrow> 'w executor \<Rightarrow> 'w intent_resolver \<Rightarrow> (time \<Rightarrow> 'w xstate \<Rightarrow> 'w xstate) \<Rightarrow> (nat \<Rightarrow> attempt_times) \<Rightarrow>
     (nat \<Rightarrow> time) \<Rightarrow> string \<Rightarrow> intent \<Rightarrow> 'w tstate \<Rightarrow> bounded_result result \<times> 'w tstate" where
  "bounded_recover_one tw x resolver wait tm clk uid i s =
     (if \<not> tw_has_leases tw then bounded_claimed tw x resolver wait tm clk uid i None s
      else let (r, f) = acquire (tw_lease_ttl tw) (ti_key i) (opt_list (tw_owner tw)) (clk 0) (ts_leases s);
               s0 = s\<lparr>ts_leases := f\<rparr>
           in case r of
                Inl e \<Rightarrow> (Inl e, s0)
              | Inr None \<Rightarrow> (Inr (bounded_outcome i ''skipped_by_lease'' 0), s0)
              | Inr (Some l) \<Rightarrow> bounded_claimed tw x resolver wait tm clk uid i (Some l) s0)"

text \<open>\<open>recover\<close>: the pending intents in order, at most \<open>limit\<close> of them.\<close>

fun bounded_recover_list ::
    "bounded_worker \<Rightarrow> 'w executor \<Rightarrow> 'w intent_resolver \<Rightarrow> (time \<Rightarrow> 'w xstate \<Rightarrow> 'w xstate) \<Rightarrow> (nat \<Rightarrow> nat \<Rightarrow> attempt_times) \<Rightarrow>
     (nat \<Rightarrow> nat \<Rightarrow> time) \<Rightarrow> (nat \<Rightarrow> string) \<Rightarrow> nat \<Rightarrow> intent list \<Rightarrow> 'w tstate \<Rightarrow> bounded_result list result \<times> 'w tstate" where
  "bounded_recover_list tw x resolver wait tm clk uid n [] s = (Inr [], s)"
| "bounded_recover_list tw x resolver wait tm clk uid n (i # is) s =
     (case bounded_recover_one tw x resolver wait (tm n) (clk n) (uid n) i s of
        (Inl e, s1) \<Rightarrow> (Inl e, s1)
      | (Inr r, s1) \<Rightarrow>
          (let (rs, s2) = bounded_recover_list tw x resolver wait tm clk uid (Suc n) is s1
           in (map_sum id (Cons r) rs, s2)))"

definition bounded_recover ::
    "bounded_worker \<Rightarrow> 'w executor \<Rightarrow> 'w intent_resolver \<Rightarrow> (time \<Rightarrow> 'w xstate \<Rightarrow> 'w xstate) \<Rightarrow> (nat \<Rightarrow> nat \<Rightarrow> attempt_times) \<Rightarrow>
     (nat \<Rightarrow> nat \<Rightarrow> time) \<Rightarrow> (nat \<Rightarrow> string) \<Rightarrow> int option \<Rightarrow> 'w tstate \<Rightarrow> bounded_result list result \<times> 'w tstate" where
  "bounded_recover tw x resolver wait tm clk uid limit s =
     (case pending_intents (intents_of (ts_x s)) of
        Inl e \<Rightarrow> (Inl e, s)
      | Inr is \<Rightarrow>
          bounded_recover_list tw x resolver wait tm clk uid 0
            (case limit of None \<Rightarrow> is | Some n \<Rightarrow> take (nat (max 0 n)) is) s)"

end
