(* ===== verification/Bounded_Recovery_Spec.thy ===== *)
theory Bounded_Recovery_Spec
  imports Bounded_Recovery
begin

text \<open>
  What bounded recovery guarantees: a bounded number of questions to the resolver, an answer that
  agrees with the ledger, and no lease left behind.
\<close>

definition settled_as :: "intent \<Rightarrow> string \<Rightarrow> 'w tstate \<Rightarrow> bool" where
  "settled_as i state s \<longleftrightarrow> (\<exists>j. intent_at (intents_of (ts_x s)) (ti_key i) = Some j \<and> ti_state j = state \<and> ti_owner j = None)"

text \<open>The result after \<open>n\<close> attempts with \<open>k\<close> more allowed.\<close>

definition bounded_ok :: "intent \<Rightarrow> nat \<Rightarrow> nat \<Rightarrow> bounded_result \<Rightarrow> 'w tstate \<Rightarrow> bool" where
  "bounded_ok i n k r s \<longleftrightarrow>
     tb_key r = ti_key i \<and> tb_attempts r \<le> int (n + k)
     \<and> (tb_status r = ''quarantined'' \<and> tb_attempts r = int (n + k)
        \<or> int n < tb_attempts r
          \<and> (tb_status r = ''skipped_by_lease'' \<or> tb_status r = ''stale_claim''
             \<or> tb_status r = ''recovered'' \<and> settled_as i ''completed'' s
             \<or> tb_status r = ''failed'' \<and> settled_as i ''failed'' s))"

lemma renewing_leases [simp]: "ts_leases (snd (renewing tw key token ts p)) = ts_leases (snd p)"
  by (simp add: renewing_def split: prod.split)

lemma finish_attempt_ok:
  assumes "finish_attempt tw i token now n r s = (y, s')"
  shows "ts_leases s' = ts_leases s
    \<and> (\<forall>q. y = Inr q \<longrightarrow> tb_key q = ti_key i \<and> tb_attempts q = n
        \<and> (tb_status q = ''stale_claim'' \<or> tb_status q = ''recovered'' \<and> settled_as i ''completed'' s'
           \<or> tb_status q = ''failed'' \<and> settled_as i ''failed'' s'))"
proof -
  obtain m g where mk: "mark_claimed (ti_key i) (claim_owner tw) token (terminal_of (tr_ok r)) now (intents_of (ts_x s)) = (m, g)"
    by fastforce
  have s': "s' = s\<lparr>ts_x := set_intents g (ts_x s)\<rparr>"
    and y: "y = map_sum id (\<lambda>m. bounded_outcome i
            (if m = None then ''stale_claim'' else if tr_ok r then ''recovered'' else ''failed'') n) m"
    using assms mk by (simp_all add: finish_attempt_def with_intents_def)
  have st: "settled_as i (terminal_of (tr_ok r)) s'" if "m = Inr (Some j)" for j
    using mk that by (auto simp: mark_claimed_def settled_as_def s' unclaimed_def split: if_splits sum.splits option.splits)
  show ?thesis
  proof (cases m)
    case (Inl e)
    then show ?thesis using s' y by simp
  next
    case (Inr o1)
    then show ?thesis using s' y st by (cases o1) (auto simp: bounded_outcome_def terminal_of_def)
  qed
qed

lemma bounded_attempts_ok:
  assumes "bounded_attempts tw x resolver wait tm i c l token n k p = (y, b, s')"
  shows "ts_leases s' = ts_leases (snd p) \<and> (\<forall>r. y = Inr r \<longrightarrow> bounded_ok i n k r s')"
  using assms
proof (induction k arbitrary: n p)
  case 0
  obtain m g where "release_claim (ti_key i) (claim_owner tw) token ''ambiguous'' (intents_of (ts_x (snd p))) = (m, g)"
    by fastforce
  then show ?case
    using 0 by (cases m) (auto simp: with_intents_def bounded_ok_def bounded_outcome_def)
next
  case (Suc k)
  show ?case
  proof (cases "lease_lost tw i l (at_check (tm (Suc n))) (snd p)")
    case (Inl e)
    then show ?thesis using Suc.prems by auto
  next
    case (Inr lost)
    show ?thesis
    proof (cases lost)
      case True
      then show ?thesis using Suc.prems Inr by (auto simp: bounded_ok_def bounded_outcome_def)
    next
      case False
      obtain b0 s0 where rn: "renewing tw (ti_key i) token (at_renew (tm (Suc n))) p = (b0, s0)" by fastforce
      have l0: "ts_leases s0 = ts_leases (snd p)"
        using renewing_leases [of tw "ti_key i" token "at_renew (tm (Suc n))" p] rn by simp
      obtain r xs where ra: "resolve_attempt x c resolver (ts_x s0) = (r, xs)" by fastforce
      let ?s1 = "s0\<lparr>ts_x := xs\<rparr>"
      show ?thesis
      proof (cases r)
        case (Inl e)
        then show ?thesis using Suc.prems Inr False rn ra l0 by auto
      next
        case r: (Inr res)
        show ?thesis
        proof (cases res)
          case None
          let ?q = "if 0 < k \<and> tw_backoff tw \<noteq> 0 then renewing tw (ti_key i) token (at_backoff (tm (Suc n)))
                            (b0, ?s1\<lparr>ts_x := wait (tw_backoff tw * 2 ^ n) (ts_x ?s1)\<rparr>) else (b0, ?s1)"
          have "bounded_attempts tw x resolver wait tm i c l token (Suc n) k ?q = (y, b, s')"
            using Suc.prems [unfolded bounded_attempts.simps] Inr False rn ra r None
            by (simp add: Let_def del: bounded_attempts.simps)
          from Suc.IH [OF this] show ?thesis using l0 by (auto simp: bounded_ok_def)
        next
          case (Some res)
          then have "finish_attempt tw i token (at_mark (tm (Suc n))) (int (Suc n)) res ?s1 = (y, s')"
            using Suc.prems Inr False rn ra r by (auto split: prod.splits)
          from finish_attempt_ok [OF this] show ?thesis using l0 by (auto simp: bounded_ok_def)
        qed
      qed
    qed
  qed
qed

lemma give_back_ok:
  assumes "give_lease_back tw i l now (y, s) = (y', s')"
  shows "ts_x s' = ts_x s \<and> (\<forall>r. y' = Inr r \<longrightarrow> y = Inr r)
    \<and> (l = None \<longrightarrow> ts_leases s' = ts_leases s)
    \<and> (\<forall>l0. l = Some l0 \<and> lease_of (ts_leases s) (ti_key i) = Some l0 \<longrightarrow>
        ls_owner_id l0 = opt_list (tw_owner tw) \<longrightarrow> (\<forall>w t n. \<not> holds (ts_leases s') (ti_key i) w t n))"
proof (cases l)
  case None
  then show ?thesis using assms by (simp add: give_lease_back_def)
next
  case (Some l0)
  obtain r f where rel: "release (ti_key i) (opt_list (tw_owner tw)) (Some (ls_fencing_token l0)) now (ts_leases s) = (r, f)"
    by fastforce
  have "\<forall>w t n. \<not> holds f (ti_key i) w t n"
    if "lease_of (ts_leases s) (ti_key i) = Some l0" "ls_owner_id l0 = opt_list (tw_owner tw)"
    using rel that by (auto simp: lease_ops lease_of_def holds_iff token_matches_def split: json_file.splits)
  then show ?thesis
    using assms Some rel by (auto simp: give_lease_back_def split: sum.splits)
qed

lemma settled_leases: "ts_x s' = ts_x s \<Longrightarrow> settled_as i st s' = settled_as i st s"
  by (simp add: settled_as_def)

lemma bounded_claimed_ok:
  assumes "bounded_claimed tw x resolver wait tm clk uid i l s = (Inr r, s')"
  shows "tb_key r = ti_key i
    \<and> (tb_status r = ''skipped_by_claim'' \<and> tb_attempts r = 0 \<or> bounded_ok i 0 (nat (tw_max_attempts tw)) r s')
    \<and> (\<forall>l0. l = Some l0 \<and> lease_of (ts_leases s) (ti_key i) = Some l0 \<longrightarrow>
        ls_owner_id l0 = opt_list (tw_owner tw) \<longrightarrow> (\<forall>w t n. \<not> holds (ts_leases s') (ti_key i) w t n))"
proof -
  let ?token = "claim_token tw l uid"
  obtain c s1 where cl: "with_intents (claim (tw_claim_ttl tw) (ti_key i) (claim_owner tw) ?token (clk 1)) s = (c, s1)" by fastforce
  have l1: "ts_leases s1 = ts_leases s" using cl by (auto simp: with_intents_def split: prod.splits)
  show ?thesis
  proof (cases c)
    case (Inl e)
    then show ?thesis using assms cl by (simp add: bounded_claimed_def)
  next
    case (Inr got)
    show ?thesis
    proof (cases got)
      case None
      then have "give_lease_back tw i l (clk 2) (Inr (bounded_outcome i ''skipped_by_claim'' 0), s1) = (Inr r, s')"
        using assms cl Inr by (simp add: bounded_claimed_def)
      from give_back_ok [OF this] show ?thesis using l1 by (auto simp: bounded_outcome_def)
    next
      case (Some ci)
      obtain y b s2 where at: "bounded_attempts tw x resolver wait tm i ci l ?token 0 (nat (tw_max_attempts tw)) (Renewing, s1) = (y, b, s2)"
        by (cases "bounded_attempts tw x resolver wait tm i ci l ?token 0 (nat (tw_max_attempts tw)) (Renewing, s1)") auto
      note ok = bounded_attempts_ok [OF at]
      have "bounded_finally tw i l (clk 2) (y, b, s2) = (Inr r, s')"
        using assms cl Inr Some at by (simp add: bounded_claimed_def)
      then have fin: "give_lease_back tw i l (clk 2) (y, s2) = (Inr r, s')"
        by (cases b) (simp_all add: bounded_finally_def)
      note gb = give_back_ok [OF fin]
      have "bounded_ok i 0 (nat (tw_max_attempts tw)) r s2" using ok gb by blast
      then have "bounded_ok i 0 (nat (tw_max_attempts tw)) r s'"
        using gb settled_leases [of s' s2] by (simp add: bounded_ok_def)
      then show ?thesis using ok gb l1 by (auto simp: bounded_ok_def)
    qed
  qed
qed

text \<open>What the report of a settled intent says, for a worker that allows \<open>m\<close> attempts.\<close>

definition report_ok :: "int \<Rightarrow> intent \<Rightarrow> bounded_result \<Rightarrow> 'a tstate \<Rightarrow> bool" where
  "report_ok m i r s \<longleftrightarrow> tb_key r = ti_key i \<and> 0 \<le> tb_attempts r \<and> tb_attempts r \<le> m
     \<and> (tb_status r = ''quarantined'' \<longrightarrow> tb_attempts r = m)
     \<and> (tb_status r = ''recovered'' \<longrightarrow> settled_as i ''completed'' s)
     \<and> (tb_status r = ''failed'' \<longrightarrow> settled_as i ''failed'' s)
     \<and> (tb_attempts r = 0 \<longrightarrow> tb_status r = ''skipped_by_lease'' \<or> tb_status r = ''skipped_by_claim'')"

lemma bounded_report:
  assumes "tb_key r = ti_key i" and "1 \<le> m"
    and "tb_status r = ''skipped_by_claim'' \<and> tb_attempts r = 0 \<or> bounded_ok i 0 (nat m) r s"
  shows "report_ok m i r s"
  using assms(3)
proof
  assume "tb_status r = ''skipped_by_claim'' \<and> tb_attempts r = 0"
  then show ?thesis using assms(1,2) by (simp add: report_ok_def)
next
  assume b: "bounded_ok i 0 (nat m) r s"
  have "int (nat m) = m" using assms(2) by simp
  then show ?thesis using b assms(1,2) unfolding bounded_ok_def report_ok_def by (elim conjE disjE) simp_all
qed


definition lost_intent :: intent where
  "lost_intent = new_intent ''k1'' ''c1'' ''pay'' (VDict []) None 0"

definition sample_tworker :: bounded_worker where
  "sample_tworker = \<lparr>tw_has_leases = True, tw_owner = Some ''w'', tw_max_attempts = 2, tw_backoff = 0, tw_claim_ttl = 60, tw_lease_ttl = 60\<rparr>"

definition sample_tx :: "nat executor" where
  "sample_tx = \<lparr>xe_sandbox = new_sandbox [] [], xe_bus = None, xe_has_results = True, xe_has_intents = True, xe_ttl = 60\<rparr>"

definition sample_tstate :: "nat tstate" where
  "sample_tstate = \<lparr>ts_leases = Object [],
     ts_x = \<lparr>xs_cache = [], xs_audit = \<lparr>ea_events = [], ea_log = None\<rparr>,
       xs_env = \<lparr>ve_files = \<lparr>bw_intents = Object [(''k1'', lost_intent)], bw_results = Object []\<rparr>, ve_world = 0\<rparr>\<rparr>\<rparr>"

text \<open>A resolver that knows the answer only when asked for the second time.\<close>

definition late_resolver :: "nat intent_resolver" where
  "late_resolver i s =
     (Inr (if ve_world (xs_env s) = 0 then None else Some (tool_success (call_of_intent i) (VInt 7))),
      s\<lparr>xs_env := (xs_env s)\<lparr>ve_world := ve_world (xs_env s) + 1\<rparr>\<rparr>)"

definition sample_attempt :: "nat \<Rightarrow> attempt_times" where
  "sample_attempt n = \<lparr>at_check = int n, at_mark = int n, at_renew = [int n], at_backoff = []\<rparr>"

definition late_run :: "bounded_result result \<times> nat tstate" where
  "late_run = bounded_recover_one sample_tworker sample_tx late_resolver (\<lambda>t s. s) sample_attempt (\<lambda>i. int i) ''u'' lost_intent sample_tstate"

lemma late_run_result: "fst late_run = Inr \<lparr>tb_key = ''k1'', tb_status = ''recovered'', tb_attempts = 2\<rparr>"
  by code_simp


end
