(* ===== verification/Orchestration.thy ===== *)
theory Orchestration
  imports Loop
begin

text \<open>
  \<^verbatim>\<open>kernel/scheduler.py\<close>, \<^verbatim>\<open>cognition/\<close>, \<^verbatim>\<open>runtime/vnext_orchestrator.py\<close>
  with its events, \<^verbatim>\<open>runtime/orchestrator_replan.py\<close> and
  \<^verbatim>\<open>runtime/reflection_result.py\<close>: from a goal to a plan, a scheduled task, its evaluation
  and its reflection. Planner, executor, reflection, memory, cognition and the subscribers are
  parameters on a world \<open>'s\<close>.
\<close>

text \<open>An operation and what follows it when it does not raise.\<close>

definition and_then :: "'a result \<times> 's \<Rightarrow> ('a \<Rightarrow> 's \<Rightarrow> 'b result \<times> 's) \<Rightarrow> 'b result \<times> 's" where
  "and_then p f = (case p of (Inl e, s) \<Rightarrow> (Inl e, s) | (Inr a, s) \<Rightarrow> f a s)"

lemma and_then_simps [simp]: "and_then (Inl e, s) f = (Inl e, s)" "and_then (Inr a, s) f = f a s"
  by (simp_all add: and_then_def)

lemma and_then_Inr:
  assumes "and_then p f = (Inr b, s')"
  obtains a s where "p = (Inr a, s)" "f a s = (Inr b, s')"
  using assms by (cases p rule: result_cases_pair) auto

section \<open>The scheduler\<close>

datatype task_state = PENDING | RUNNING | DONE | FAILED

definition state_value :: "task_state \<Rightarrow> string" where
  "state_value st = (case st of PENDING \<Rightarrow> ''pending'' | RUNNING \<Rightarrow> ''running'' | DONE \<Rightarrow> ''done'' | FAILED \<Rightarrow> ''failed'')"

text \<open>
  A task; of its payload the scheduler uses the executor applied to agent, plan, context and
  execution context, and the result it puts there.
\<close>

record 's agent_task =
  tk_id :: string
  tk_agent :: string
  tk_state :: task_state
  tk_executor :: "('s \<Rightarrow> step_result list result \<times> 's) option"
  tk_result :: "step_result list option"

definition new_task :: "string \<Rightarrow> string \<Rightarrow> ('s \<Rightarrow> step_result list result \<times> 's) option \<Rightarrow> 's agent_task" where
  "new_task i agent f = \<lparr>tk_id = i, tk_agent = agent, tk_state = PENDING, tk_executor = f, tk_result = None\<rparr>"

definition submit :: "'s agent_task \<Rightarrow> 's agent_task list \<Rightarrow> 's agent_task list" where
  "submit t ts = ts @ [t]"

text \<open>An exception that is no \<^verbatim>\<open>Exception\<close> leaves the task running.\<close>

definition execute_task :: "'s agent_task \<Rightarrow> 's \<Rightarrow> unit result \<times> 's agent_task \<times> 's" where
  "execute_task t s =
     (if tk_state t \<noteq> PENDING then (Inr (), t, s)
      else case tk_executor t of
        None \<Rightarrow> (Inr (), t\<lparr>tk_state := DONE\<rparr>, s)
      | Some f \<Rightarrow>
          (case f s of
             (Inl e, s1) \<Rightarrow> (Inl e, t\<lparr>tk_state := (if isinst e [PyException] then FAILED else RUNNING)\<rparr>, s1)
           | (Inr rs, s1) \<Rightarrow> (Inr (), t\<lparr>tk_state := DONE, tk_result := Some rs\<rparr>, s1)))"

fun run_until_idle :: "'s agent_task list \<Rightarrow> 's \<Rightarrow> unit result \<times> 's agent_task list \<times> 's" where
  "run_until_idle [] s = (Inr (), [], s)"
| "run_until_idle (t # ts) s =
     (case execute_task t s of
        (Inl e, t1, s1) \<Rightarrow> (Inl e, t1 # ts, s1)
      | (Inr _, t1, s1) \<Rightarrow> (let (r, ts2, s2) = run_until_idle ts s1 in (r, t1 # ts2, s2)))"

section \<open>Cognition\<close>

record decision =
  cd_kind :: string
  cd_value :: pyval
  cd_metadata :: pydict

datatype observation = Seen pyval | Decided decision

record cognition_request =
  cq_context :: exec_context
  cq_observation :: observation
  cq_history :: "pyval list"

type_synonym 's stage = "cognition_request \<Rightarrow> 's \<Rightarrow> decision result \<times> 's"

record 's pipeline =
  cp_planner :: "'s stage"
  cp_evaluator :: "'s stage option"
  cp_reflector :: "'s stage option"
  cp_learner :: "'s stage option"

definition request :: "exec_context \<Rightarrow> observation \<Rightarrow> pyval list \<Rightarrow> cognition_request" where
  "request ctx observation hist = \<lparr>cq_context = ctx, cq_observation = observation, cq_history = hist\<rparr>"

definition cognition_plan :: "'s pipeline \<Rightarrow> 's stage" where
  "cognition_plan cp = cp_planner cp"

text \<open>A stage that is not there returns \<^verbatim>\<open>None\<close>.\<close>

definition optional_stage :: "'s stage option \<Rightarrow> cognition_request \<Rightarrow> 's \<Rightarrow> decision option result \<times> 's" where
  "optional_stage st q s =
     (case st of None \<Rightarrow> (Inr None, s) | Some f \<Rightarrow> (let (r, s1) = f q s in (map_sum id Some r, s1)))"

definition cognition_evaluate where "cognition_evaluate cp = optional_stage (cp_evaluator cp)"
definition cognition_reflect where "cognition_reflect cp = optional_stage (cp_reflector cp)"
definition cognition_learn where "cognition_learn cp = optional_stage (cp_learner cp)"

text \<open>\<^verbatim>\<open>a or b\<close>: a decision is an object without a truth value of its own.\<close>

definition or_seen :: "decision option \<Rightarrow> observation \<Rightarrow> observation" where
  "or_seen d seen = (case d of Some d \<Rightarrow> Decided d | None \<Rightarrow> seen)"

definition cognition_run ::
    "'s pipeline \<Rightarrow> cognition_request \<Rightarrow> 's \<Rightarrow>
     (decision \<times> decision option \<times> decision option \<times> decision option) result \<times> 's" where
  "cognition_run cp q s =
     and_then (cognition_plan cp q s) (\<lambda>plan s.
       let seen = Seen (cd_value plan); ask = (\<lambda>x. request (cq_context q) x (cq_history q)) in
       and_then (cognition_evaluate cp (ask seen) s) (\<lambda>evaluated s.
       and_then (cognition_reflect cp (ask (or_seen evaluated seen)) s) (\<lambda>reflected s.
       and_then (cognition_learn cp (ask (or_seen reflected (or_seen evaluated seen))) s) (\<lambda>learned s.
         (Inr (plan, evaluated, reflected, learned), s)))))"

section \<open>The orchestrator\<close>

record 's vnext =
  vn_planner :: "'s planner"
  vn_agent_id :: string
  vn_agent :: string
  vn_executor :: "(pyval \<Rightarrow> pydict \<Rightarrow> exec_context \<Rightarrow> 's \<Rightarrow> step_result list result \<times> 's) option"
  vn_reflection :: "(step_result list option \<Rightarrow> 's \<Rightarrow> pyval result \<times> 's) option"
  vn_memory :: "(pydict \<Rightarrow> 's \<Rightarrow> 's) option"
  vn_bus :: "'s bus option"
  vn_cognition :: "'s pipeline option"

text \<open>
  The state of a run: the scheduler's tasks, the world, and the context dictionary. The dictionary is
  the metadata of the execution context (the same object), so an event carries its present contents.
\<close>

record 's vstate =
  vs_tasks :: "'s agent_task list"
  vs_world :: 's
  vs_context :: pydict

record orchestration_result =
  or_goal :: string
  or_task_id :: string
  or_status :: string
  or_result :: "step_result list option"
  or_metadata :: pydict

text \<open>A decision kept in a dictionary is represented by its fields; a missing result by \<^verbatim>\<open>None\<close>.\<close>

definition decision_value :: "decision \<Rightarrow> pyval" where
  "decision_value d = VDict [(''kind'', VStr (cd_kind d)), (''value'', cd_value d), (''metadata'', VDict (cd_metadata d))]"

definition result_value :: "step_result list option \<Rightarrow> pyval" where
  "result_value r = (case r of None \<Rightarrow> VNone | Some rs \<Rightarrow> VList (map step_value rs))"

definition on_world :: "('s \<Rightarrow> 'a result \<times> 's) \<Rightarrow> 's vstate \<Rightarrow> 'a result \<times> 's vstate" where
  "on_world f v = (let (r, s) = f (vs_world v) in (r, v\<lparr>vs_world := s\<rparr>))"

definition put_context :: "string \<Rightarrow> pyval \<Rightarrow> 's vstate \<Rightarrow> 's vstate" where
  "put_context k x v = v\<lparr>vs_context := dset k x (vs_context v)\<rparr>"

definition put_decision :: "string \<Rightarrow> decision option \<Rightarrow> 's vstate \<Rightarrow> 's vstate" where
  "put_decision k d v = (case d of None \<Rightarrow> v | Some d \<Rightarrow> put_context k (decision_value d) v)"

definition now_context :: "exec_context \<Rightarrow> 's vstate \<Rightarrow> exec_context" where
  "now_context ctx v = ctx\<lparr>ctx_metadata := vs_context v\<rparr>"

definition emit :: "'s vnext \<Rightarrow> string \<Rightarrow> exec_context \<Rightarrow> pydict \<Rightarrow> 's vstate \<Rightarrow> 's vstate" where
  "emit vn event_type ctx data v =
     v\<lparr>vs_world := publish_opt (vn_bus vn) event_type (now_context ctx v) data (vs_world v)\<rparr>"

definition vn_remember :: "'s vnext \<Rightarrow> exec_context \<Rightarrow> string \<Rightarrow> string \<Rightarrow> pydict \<Rightarrow> 's vstate \<Rightarrow> 's vstate" where
  "vn_remember vn ctx task_id kind entry v =
     (case vn_memory vn of
        None \<Rightarrow> v
      | Some f \<Rightarrow>
          emit vn MEMORY_UPDATED ctx [(''kind'', VStr kind), (''task_id'', VStr task_id)]
            (v\<lparr>vs_world := f entry (vs_world v)\<rparr>))"

definition ask ::
    "exec_context \<Rightarrow> observation \<Rightarrow> (cognition_request \<Rightarrow> 's \<Rightarrow> 'a result \<times> 's) \<Rightarrow> 's vstate \<Rightarrow> 'a result \<times> 's vstate" where
  "ask ctx x f v = on_world (f (request (now_context ctx v) x (ctx_events ctx))) v"

text \<open>\<^verbatim>\<open>context.get(key, otherwise)\<close>, after the decision \<open>d\<close> was kept under the key.\<close>

definition observed :: "string \<Rightarrow> decision option \<Rightarrow> observation \<Rightarrow> 's vstate \<Rightarrow> observation" where
  "observed k d otherwise v =
     or_seen d (case map_of (vs_context v) k of Some x \<Rightarrow> Seen x | None \<Rightarrow> otherwise)"

definition vn_plan :: "'s vnext \<Rightarrow> exec_context \<Rightarrow> string \<Rightarrow> 's vstate \<Rightarrow> pyval result \<times> 's vstate" where
  "vn_plan vn ctx goal v =
     (case vn_cognition vn of
        Some cp \<Rightarrow>
          and_then (ask ctx (Seen VNone) (cognition_plan cp) v) (\<lambda>d v.
            (Inr (cd_value d), put_context ''cognition_plan'' (decision_value d) v))
      | None \<Rightarrow> on_world (vn_planner vn goal) v)"

definition build_task :: "'s vnext \<Rightarrow> string \<Rightarrow> pyval \<Rightarrow> exec_context \<Rightarrow> 's vstate \<Rightarrow> 's agent_task" where
  "build_task vn task_id plan ctx v =
     new_task task_id (vn_agent vn)
       (map_option (\<lambda>f. f plan (vs_context v) (now_context ctx v)) (vn_executor vn))"

text \<open>Submitting the task and running the scheduler; what comes back is the task afterwards.\<close>

definition vn_schedule :: "'s agent_task \<Rightarrow> 's vstate \<Rightarrow> 's agent_task result \<times> 's vstate" where
  "vn_schedule t v =
     (let (r, ts, s) = run_until_idle (submit t (vs_tasks v)) (vs_world v)
      in (map_sum id (\<lambda>_. last ts) r, v\<lparr>vs_tasks := ts, vs_world := s\<rparr>))"

text \<open>Evaluation, reflection and learning, after the task has run.\<close>

definition vn_evaluate ::
    "'s vnext \<Rightarrow> exec_context \<Rightarrow> step_result list option \<Rightarrow> 's vstate \<Rightarrow> decision option result \<times> 's vstate" where
  "vn_evaluate vn ctx res v =
     (case vn_cognition vn of
        None \<Rightarrow> (Inr None, v)
      | Some cp \<Rightarrow>
          and_then (ask ctx (Seen (result_value res)) (cognition_evaluate cp) v)
            (\<lambda>d v. (Inr d, put_decision ''cognition_evaluation'' d v)))"

definition vn_reflect ::
    "'s vnext \<Rightarrow> exec_context \<Rightarrow> string \<Rightarrow> step_result list option \<Rightarrow> 's vstate \<Rightarrow> unit result \<times> 's vstate" where
  "vn_reflect vn ctx task_id res v =
     (case vn_reflection vn of
        None \<Rightarrow> (Inr (), v)
      | Some f \<Rightarrow>
          (let data = [(''task_id'', VStr task_id)] in
           and_then (on_world (f res) (emit vn REFLECTION_STARTED ctx data v)) (\<lambda>reflection v.
             (Inr (), emit vn REFLECTION_COMPLETED ctx data (put_context ''reflection'' reflection v)))))"

definition vn_learn ::
    "'s vnext \<Rightarrow> exec_context \<Rightarrow> decision option \<Rightarrow> step_result list option \<Rightarrow> 's vstate \<Rightarrow> unit result \<times> 's vstate" where
  "vn_learn vn ctx evaluated res v =
     (case vn_cognition vn of
        None \<Rightarrow> (Inr (), v)
      | Some cp \<Rightarrow>
          (let seen = Seen (result_value res) in
           and_then (ask ctx (observed ''cognition_evaluation'' evaluated seen v) (cognition_reflect cp) v) (\<lambda>reflected v.
             let v1 = put_decision ''cognition_reflection'' reflected v in
             and_then (ask ctx (observed ''cognition_reflection'' reflected seen v1) (cognition_learn cp) v1) (\<lambda>learned v.
               (Inr (), put_decision ''cognition_learning'' learned v)))))"

definition vn_finish ::
    "'s vnext \<Rightarrow> exec_context \<Rightarrow> string \<Rightarrow> string \<Rightarrow> 's agent_task \<Rightarrow> 's vstate \<Rightarrow> orchestration_result result \<times> 's vstate" where
  "vn_finish vn ctx goal task_id t v =
     (let res = tk_result t in
      and_then (vn_evaluate vn ctx res v) (\<lambda>evaluated v.
      and_then (vn_reflect vn ctx task_id res v) (\<lambda>_ v.
      and_then (vn_learn vn ctx evaluated res v) (\<lambda>_ v.
        let v1 = vn_remember vn ctx task_id ''result''
              [(''event'', VStr ''task.completed''), (''execution_id'', VStr (ctx_execution_id ctx)),
               (''task_id'', VStr task_id), (''result'', result_value res)] v;
            v2 = emit vn EXECUTION_COMPLETED ctx [(''task_id'', VStr task_id)] v1;
            v3 = put_context ''execution_id'' (VStr (ctx_execution_id ctx)) v2
        in (Inr \<lparr>or_goal = goal, or_task_id = task_id, or_status = ''completed'', or_result = res,
                 or_metadata = vs_context v3\<rparr>, v3)))))"

text \<open>The body of the \<^verbatim>\<open>try\<close>, and \<^verbatim>\<open>run\<close> with the failure event.\<close>

definition vn_body ::
    "'s vnext \<Rightarrow> exec_context \<Rightarrow> string \<Rightarrow> string \<Rightarrow> 's vstate \<Rightarrow> orchestration_result result \<times> 's vstate" where
  "vn_body vn ctx goal task_id v =
     and_then (vn_plan vn ctx goal v) (\<lambda>plan v.
       let v1 = emit vn PLAN_CREATED ctx [(''task_id'', VStr task_id), (''plan'', plan)] (put_context ''plan'' plan v);
           v2 = vn_remember vn ctx task_id ''plan''
                  [(''event'', VStr ''plan.created''), (''execution_id'', VStr (ctx_execution_id ctx)),
                   (''task_id'', VStr task_id), (''goal'', VStr goal), (''plan'', plan)] v1
       in and_then (vn_schedule (build_task vn task_id plan ctx v2) v2) (\<lambda>t v.
            if state_value (tk_state t) = ''failed'' then
              (let v1 = emit vn EXECUTION_FAILED ctx
                     [(''task_id'', VStr task_id), (''reason'', VStr ''scheduler_task_failed'')] v
               in (Inr \<lparr>or_goal = goal, or_task_id = task_id, or_status = ''failed'', or_result = None,
                        or_metadata = vs_context v1\<rparr>, v1))
            else vn_finish vn ctx goal task_id t v))"

definition vnext_run ::
    "'s vnext \<Rightarrow> string \<Rightarrow> string \<Rightarrow> string \<Rightarrow> pydict \<Rightarrow> 's vstate \<Rightarrow> orchestration_result result \<times> 's vstate" where
  "vnext_run vn uid goal task_id metadata v =
     (let ctx = new_context uid (vn_agent_id vn) goal metadata;
          v0 = emit vn EXECUTION_STARTED ctx [(''task_id'', VStr task_id)] (v\<lparr>vs_context := metadata\<rparr>)
      in case vn_body vn ctx goal task_id v0 of
           (Inl e, v1) \<Rightarrow>
             (Inl e, if isinst e [PyException]
                     then emit vn EXECUTION_FAILED ctx [(''task_id'', VStr task_id), (''error'', VStr (exc_msg e))] v1
                     else v1)
         | (Inr r, v1) \<Rightarrow> (Inr r, v1))"

section \<open>Replanning helpers\<close>

definition orchestrator_replan ::
    "'s planner \<Rightarrow> int \<Rightarrow> 's bus option \<Rightarrow> string \<Rightarrow> int \<Rightarrow> string option \<Rightarrow> exec_context \<Rightarrow> 's \<Rightarrow>
     (replan_decision \<times> pyval) result \<times> 's" where
  "orchestrator_replan planner max_attempts bus goal attempt err ctx s =
     (let d = replan_decide max_attempts attempt err;
          s1 = publish_opt bus REPLAN_REQUESTED ctx [(''attempt'', VInt attempt), (''retry'', VBool (rp_retry d))] s
      in if \<not> rp_retry d then (Inr (d, VNone), s1)
         else and_then (planner (replan_goal goal (attempt + 1)) s1) (\<lambda>plan s.
           (Inr (d, plan), publish_opt bus REPLAN_COMPLETED ctx [(''attempt'', VInt (attempt + 1)), (''plan'', plan)] s)))"

record reflection_outcome =
  rf_ok :: bool
  rf_decision :: "replan_decision option"
  rf_plan :: pyval

definition reflect_result ::
    "'s planner \<Rightarrow> (pydict \<Rightarrow> 's \<Rightarrow> 's) \<Rightarrow> int \<Rightarrow> string \<Rightarrow> int \<Rightarrow> tool_result \<Rightarrow> 's \<Rightarrow> reflection_outcome result \<times> 's" where
  "reflect_result planner remember max_attempts goal attempt r s =
     (if tr_ok r then (Inr \<lparr>rf_ok = True, rf_decision = None, rf_plan = VNone\<rparr>, s)
      else and_then
        (replan planner remember max_attempts goal attempt
           (Some (if opt_list (tr_error r) \<noteq> [] then opt_list (tr_error r) else ''tool '' @ [CHR 0x27] @ tr_tool r @ [CHR 0x27] @ '' failed'')) s)
        (\<lambda>(d, plan) s. (Inr \<lparr>rf_ok = False, rf_decision = Some d, rf_plan = plan\<rparr>, s)))"

end
