(* ===== verification/Orchestration_Spec.thy ===== *)
theory Orchestration_Spec
  imports Orchestration
begin

text \<open>
  What the scheduler and the orchestrator guarantee: a task runs at most once, a failing task stops
  the ones behind it, and a run that returns has completed its task.
\<close>

section \<open>The scheduler\<close>

lemma execute_task_cases:
  obtains (Skip) "tk_state t \<noteq> PENDING" "execute_task t s = (Inr (), t, s)"
  | (Ran) t1 s1 where "tk_state t = PENDING" "execute_task t s = (Inr (), t1, s1)" "tk_state t1 = DONE" "tk_id t1 = tk_id t"
  | (Broke) e t1 s1 where "tk_state t = PENDING" "execute_task t s = (Inl e, t1, s1)"
      "tk_state t1 = (if isinst e [PyException] then FAILED else RUNNING)" "tk_id t1 = tk_id t"
proof (cases "tk_state t = PENDING")
  case False
  then show thesis using Skip by (simp add: execute_task_def)
next
  case True
  show thesis
  proof (cases "tk_executor t")
    case None
    then show thesis using True Ran by (simp add: execute_task_def)
  next
    case (Some f)
    then show thesis
      using True Ran Broke by (cases "f s" rule: result_cases_pair) (simp_all add: execute_task_def)
  qed
qed

text \<open>The first pending task that raises.\<close>

definition stopped_at :: "exc \<Rightarrow> nat \<Rightarrow> 's agent_task list \<Rightarrow> 's agent_task list \<Rightarrow> bool" where
  "stopped_at e k ts ts' \<longleftrightarrow>
     k < length ts \<and> tk_state (ts ! k) = PENDING
     \<and> tk_state (ts' ! k) = (if isinst e [PyException] then FAILED else RUNNING)
     \<and> (\<forall>i < k. tk_state (ts' ! i) \<noteq> PENDING) \<and> (\<forall>i. k < i \<and> i < length ts \<longrightarrow> ts' ! i = ts ! i)"

definition ran :: "'s agent_task \<Rightarrow> 's agent_task \<Rightarrow> bool" where
  "ran t t' \<longleftrightarrow> (if tk_state t = PENDING then tk_state t' = DONE else t' = t)"

lemma stopped_at_Cons:
  assumes "stopped_at e k ts ts'" and "tk_state t' \<noteq> PENDING"
  shows "stopped_at e (Suc k) (t # ts) (t' # ts')"
proof -
  have "tk_state ((t' # ts') ! i) \<noteq> PENDING" if "i < Suc k" for i
    using assms that by (cases i) (simp_all add: stopped_at_def)
  moreover have "(t' # ts') ! i = (t # ts) ! i" if "Suc k < i" "i < length (t # ts)" for i
    using assms(1) that by (cases i) (simp_all add: stopped_at_def)
  ultimately show ?thesis using assms(1) by (simp add: stopped_at_def)
qed

lemma stopped_at_head:
  assumes "tk_state t = PENDING" and "tk_state t' = (if isinst e [PyException] then FAILED else RUNNING)"
  shows "stopped_at e 0 (t # ts) (t' # ts)"
  using assms by (simp add: stopped_at_def nth_Cons')

definition untouched :: "'s agent_task list \<Rightarrow> 's agent_task list \<Rightarrow> bool" where
  "untouched ts ts' \<longleftrightarrow> list_all2 (\<lambda>t t'. tk_id t' = tk_id t \<and> (tk_state t \<noteq> PENDING \<longrightarrow> t' = t)) ts ts'"

lemma untouched_refl: "untouched ts ts"
  by (simp add: untouched_def list_all2_refl)

lemma run_idle:
  assumes "run_until_idle ts s = (r, ts', s')"
  shows "untouched ts ts' \<and> (case r of Inr _ \<Rightarrow> list_all2 ran ts ts' | Inl e \<Rightarrow> \<exists>k. stopped_at e k ts ts')"
  using assms
proof (induction ts arbitrary: s r ts' s')
  case Nil
  then show ?case by (auto simp: untouched_def)
next
  case (Cons t ts)
  note hyps = Cons
  consider (Skip) "tk_state t \<noteq> PENDING" "execute_task t s = (Inr (), t, s)"
    | (Ran) t1 s1 where "tk_state t = PENDING" "execute_task t s = (Inr (), t1, s1)" "tk_state t1 = DONE" "tk_id t1 = tk_id t"
    | (Broke) e t1 s1 where "tk_state t = PENDING" "execute_task t s = (Inl e, t1, s1)"
      "tk_state t1 = (if isinst e [PyException] then FAILED else RUNNING)" "tk_id t1 = tk_id t"
    by (rule execute_task_cases [of t s]) blast+
  then show ?case
  proof cases
    case Broke
    have eq: "r = Inl e" "ts' = t1 # ts" using hyps(2) Broke(2) by simp_all
    have "untouched (t # ts) (t1 # ts)" using Broke(1,4) untouched_refl [of ts] by (simp add: untouched_def)
    then show ?thesis using eq stopped_at_head [OF Broke(1,3)] by auto
  next
    case Skip
    obtain r2 ts2 s2 where rest: "run_until_idle ts s = (r2, ts2, s2)" by (cases "run_until_idle ts s")
    have eq: "r = r2" "ts' = t # ts2" using hyps(2) Skip rest by simp_all
    note ih = hyps(1) [OF rest]
    have u: "untouched (t # ts) ts'" using ih eq by (simp add: untouched_def)
    show ?thesis
    proof (cases r2)
      case (Inl e)
      then obtain k where "stopped_at e k ts ts2" using ih by auto
      from stopped_at_Cons [OF this Skip(1), of t] show ?thesis using u eq Inl by auto
    next
      case (Inr v)
      then show ?thesis using u eq ih Skip(1) by (simp add: ran_def)
    qed
  next
    case Ran
    obtain r2 ts2 s2 where rest: "run_until_idle ts s1 = (r2, ts2, s2)" by (cases "run_until_idle ts s1")
    have eq: "r = r2" "ts' = t1 # ts2" using hyps(2) Ran rest by simp_all
    note ih = hyps(1) [OF rest]
    have np: "tk_state t1 \<noteq> PENDING" using Ran(3) by simp
    have u: "untouched (t # ts) ts'" using ih eq Ran(1,4) by (simp add: untouched_def)
    show ?thesis
    proof (cases r2)
      case (Inl e)
      then obtain k where "stopped_at e k ts ts2" using ih by auto
      from stopped_at_Cons [OF this np, of t] show ?thesis using u eq Inl by auto
    next
      case (Inr v)
      then show ?thesis using u eq ih Ran(1,3) by (simp add: ran_def)
    qed
  qed
qed

lemma run_idle_settled:
  "\<forall>t \<in> set ts. tk_state t \<noteq> PENDING \<Longrightarrow> run_until_idle ts s = (Inr (), ts, s)"
  by (induction ts) (simp_all add: execute_task_def)

lemma ran_settled: "list_all2 ran ts ts' \<Longrightarrow> \<forall>t \<in> set ts'. tk_state t \<noteq> PENDING"
  by (auto simp: list_all2_conv_all_nth in_set_conv_nth ran_def) (metis task_state.distinct(3))

text \<open>
  The scheduler runs a task at most once. Running until idle keeps the tasks in place and never
  touches one that is not pending. If nothing raises, exactly the pending ones are done afterwards, and
  running again changes nothing, in the tasks or in the world. If something raises, it was the first
  pending task that did; it is marked failed (still running, if it was cancelled), the tasks before it
  are settled, and the tasks behind it are untouched.
\<close>

theorem scheduler_runs_each_once:
  assumes "run_until_idle ts s = (r, ts', s')"
  shows "map tk_id ts' = map tk_id ts \<and> (\<forall>i < length ts. tk_state (ts ! i) \<noteq> PENDING \<longrightarrow> ts' ! i = ts ! i)
    \<and> (r = Inr () \<longrightarrow>
        (\<forall>i < length ts. tk_state (ts ! i) = PENDING \<longrightarrow> tk_state (ts' ! i) = DONE)
        \<and> (\<forall>v. run_until_idle ts' v = (Inr (), ts', v)))
    \<and> (\<forall>e. r = Inl e \<longrightarrow> (\<exists>k < length ts. tk_state (ts ! k) = PENDING
        \<and> tk_state (ts' ! k) = (if isinst e [PyException] then FAILED else RUNNING)
        \<and> (\<forall>i < k. tk_state (ts' ! i) \<noteq> PENDING) \<and> (\<forall>i. k < i \<and> i < length ts \<longrightarrow> ts' ! i = ts ! i)))"
proof -
  have idle: "map tk_id ts' = map tk_id ts \<and> (\<forall>i < length ts. tk_state (ts ! i) \<noteq> PENDING \<longrightarrow> ts' ! i = ts ! i)"
    using run_idle [OF assms] unfolding untouched_def by (auto simp: list_all2_conv_all_nth intro: nth_equalityI)
  have stop: "\<forall>e. r = Inl e \<longrightarrow> (\<exists>k. stopped_at e k ts ts')" using run_idle [OF assms] by auto
  have settled: "(\<forall>i < length ts. tk_state (ts ! i) = PENDING \<longrightarrow> tk_state (ts' ! i) = DONE)
      \<and> (\<forall>v. run_until_idle ts' v = (Inr (), ts', v))" if "r = Inr ()"
  proof -
    have all: "list_all2 ran ts ts'" using run_idle [OF assms] that by simp
    then have "\<forall>i < length ts. tk_state (ts ! i) = PENDING \<longrightarrow> tk_state (ts' ! i) = DONE"
      by (auto simp: list_all2_conv_all_nth ran_def)
    then show ?thesis using run_idle_settled [OF ran_settled [OF all]] by blast
  qed
  show ?thesis using idle settled stop unfolding stopped_at_def by blast
qed

text \<open>Three tasks: done, failing and waiting.\<close>

definition sample_tasks :: "nat agent_task list" where
  "sample_tasks = [(new_task ''a'' ''ag'' None)\<lparr>tk_state := DONE\<rparr>,
     new_task ''b'' ''ag'' (Some (\<lambda>n. (Inl (Exc RuntimeError ''boom''), n + 1))), new_task ''c'' ''ag'' (Some (\<lambda>n. (Inr [], n + 1)))]"

theorem scheduler_runs_each_once_witness:
  "\<exists>ts'. run_until_idle sample_tasks 0 = (Inl (Exc RuntimeError ''boom''), ts', 1) \<and> ts' ! 0 = sample_tasks ! 0
     \<and> map tk_id ts' = [''a'', ''b'', ''c'']"
proof -
  obtain ts' where r: "run_until_idle sample_tasks 0 = (Inl (Exc RuntimeError ''boom''), ts', 1)"
    by (simp add: sample_tasks_def new_task_def execute_task_def)
  from scheduler_runs_each_once [OF r] r show ?thesis by (auto simp: sample_tasks_def new_task_def)
qed

section \<open>The orchestrator\<close>

lemma vs_tasks_simps [simp]:
  "vs_tasks (emit vn ty ctx d v) = vs_tasks v" "vs_tasks (put_context k x v) = vs_tasks v"
  "vs_tasks (put_decision k o1 v) = vs_tasks v" "vs_tasks (vn_remember vn ctx i kind entry v) = vs_tasks v"
  "vs_tasks (snd (on_world f v)) = vs_tasks v" "vs_tasks (snd (ask ctx seen g v)) = vs_tasks v"
  by (simp_all add: emit_def put_context_def put_decision_def vn_remember_def on_world_def ask_def split: option.split prod.split)

lemma on_world_tasks: "on_world f v = (r, v') \<Longrightarrow> vs_tasks v' = vs_tasks v"
  using vs_tasks_simps(5) [of f v] by simp

lemma ask_tasks: "ask ctx seen g v = (r, v') \<Longrightarrow> vs_tasks v' = vs_tasks v"
  using vs_tasks_simps(6) [of ctx seen g v] by simp

lemma vn_plan_tasks: "vn_plan vn ctx goal v = (Inr p, v') \<Longrightarrow> vs_tasks v' = vs_tasks v"
  by (auto simp: vn_plan_def dest: on_world_tasks ask_tasks elim!: and_then_Inr split: option.splits)

lemma vn_finish_tasks:
  assumes "vn_finish vn ctx goal task_id t v = (Inr r, v')"
  shows "vs_tasks v' = vs_tasks v \<and> or_status r = ''completed'' \<and> or_result r = tk_result t
    \<and> or_goal r = goal \<and> or_task_id r = task_id"
proof -
  obtain e v1 v2 v3 where 1: "vn_evaluate vn ctx (tk_result t) v = (Inr e, v1)"
    and 2: "vn_reflect vn ctx task_id (tk_result t) v1 = (Inr (), v2)"
    and 3: "vn_learn vn ctx e (tk_result t) v2 = (Inr (), v3)"
    and fin: "vs_tasks v' = vs_tasks v3" "or_status r = ''completed''" "or_result r = tk_result t" "or_goal r = goal" "or_task_id r = task_id"
    using assms unfolding vn_finish_def Let_def by (elim and_then_Inr) auto
  have "vs_tasks v1 = vs_tasks v"
    using 1 by (auto simp: vn_evaluate_def dest: ask_tasks elim!: and_then_Inr split: option.splits)
  moreover have "vs_tasks v2 = vs_tasks v1"
    using 2 by (auto simp: vn_reflect_def Let_def dest!: on_world_tasks elim!: and_then_Inr split: option.splits)
  moreover have "vs_tasks v3 = vs_tasks v2"
    using 3 by (auto simp: vn_learn_def Let_def dest!: ask_tasks elim!: and_then_Inr split: option.splits)
  ultimately show ?thesis using fin by simp
qed

lemma schedule_done:
  assumes "vn_schedule t v = (Inr t', v')" and "tk_state t = PENDING"
  shows "tk_state t' = DONE \<and> tk_id t' = tk_id t \<and> (\<exists>ts. vs_tasks v' = ts @ [t'] \<and> length ts = length (vs_tasks v))
    \<and> (\<forall>u \<in> set (vs_tasks v'). tk_state u \<noteq> PENDING)"
proof -
  obtain r ts s where run: "run_until_idle (vs_tasks v @ [t]) (vs_world v) = (r, ts, s)"
    by (cases "run_until_idle (vs_tasks v @ [t]) (vs_world v)")
  have r: "r = Inr ()" "t' = last ts" "vs_tasks v' = ts"
    using assms(1) run by (cases r; simp add: vn_schedule_def submit_def; fastforce)+
  have all: "list_all2 ran (vs_tasks v @ [t]) ts" "untouched (vs_tasks v @ [t]) ts"
    using run_idle [OF run] r(1) by simp_all
  obtain us u where ts: "ts = us @ [u]" "list_all2 ran (vs_tasks v) us" "ran t u"
    using all(1) by (auto simp: list_all2_append1 list_all2_Cons1)
  have len: "length us = length (vs_tasks v)" using ts(2) by (simp add: list_all2_lengthD)
  have "tk_id u = tk_id t" using all(2) ts(1) len by (simp add: untouched_def list_all2_append)
  then show ?thesis
    using r ts assms(2) ran_settled [OF all(1)] len by (auto simp: ran_def)
qed

text \<open>
  A run that returns has done its task. When the orchestrator returns, its task is the last one
  of the scheduler, is done, and its result is the one that is reported; no task is left pending; and
  the status is \<^verbatim>\<open>completed\<close>, always: the branch that would report a failed task is never
  reached, because this scheduler raises when a task fails.
\<close>

theorem returned_run_did_its_task:
  assumes "vnext_run vn uid goal task_id metadata v = (Inr r, v')"
  shows "or_status r = ''completed'' \<and> or_goal r = goal \<and> or_task_id r = task_id
    \<and> (\<exists>ts t. vs_tasks v' = ts @ [t] \<and> length ts = length (vs_tasks v) \<and> tk_id t = task_id \<and> tk_state t = DONE
        \<and> or_result r = tk_result t)
    \<and> (\<forall>t \<in> set (vs_tasks v'). tk_state t \<noteq> PENDING)"
proof -
  let ?ctx = "new_context uid (vn_agent_id vn) goal metadata"
  let ?v0 = "emit vn EXECUTION_STARTED ?ctx [(''task_id'', VStr task_id)] (v\<lparr>vs_context := metadata\<rparr>)"
  have body: "vn_body vn ?ctx goal task_id ?v0 = (Inr r, v')"
    using assms by (cases "vn_body vn ?ctx goal task_id ?v0" rule: result_cases_pair) (simp_all add: vnext_run_def)
  obtain plan v1 where 1: "vn_plan vn ?ctx goal ?v0 = (Inr plan, v1)"
    using body unfolding vn_body_def by (elim and_then_Inr)
  let ?v2 = "vn_remember vn ?ctx task_id ''plan''
                  [(''event'', VStr ''plan.created''), (''execution_id'', VStr (ctx_execution_id ?ctx)),
                   (''task_id'', VStr task_id), (''goal'', VStr goal), (''plan'', plan)]
               (emit vn PLAN_CREATED ?ctx [(''task_id'', VStr task_id), (''plan'', plan)] (put_context ''plan'' plan v1))"
  have t2: "vs_tasks ?v2 = vs_tasks v" using vn_plan_tasks [OF 1] by (simp add: vs_tasks_simps(1))
  obtain t v3 where 3: "vn_schedule (build_task vn task_id plan ?ctx ?v2) ?v2 = (Inr t, v3)"
    using body 1 unfolding vn_body_def by (auto simp: Let_def elim: and_then_Inr)
  have "tk_state (build_task vn task_id plan ?ctx ?v2) = PENDING" "tk_id (build_task vn task_id plan ?ctx ?v2) = task_id"
    by (simp_all add: build_task_def new_task_def)
  note d = schedule_done [OF 3 this(1), unfolded this(2) t2]
  have "state_value (tk_state t) \<noteq> ''failed''" using d by (simp add: state_value_def)
  then have "vn_finish vn ?ctx goal task_id t v3 = (Inr r, v')"
    using body 1 3 by (simp add: vn_body_def Let_def)
  from vn_finish_tasks [OF this] d show ?thesis by auto
qed

text \<open>An orchestrator with an executor that counts, and no other parts.\<close>

definition sample_vnext :: "nat vnext" where
  "sample_vnext = \<lparr>vn_planner = (\<lambda>g n. (Inr (VStr g), n)), vn_agent_id = ''agent'', vn_agent = ''agent'',
     vn_executor = Some (\<lambda>plan context ctx n. (Inr [Other_Step plan], n + 1)), vn_reflection = None, vn_memory = None,
     vn_bus = None, vn_cognition = None\<rparr>"

lemma sample_vnext_run:
  "\<exists>r v'. vnext_run sample_vnext ''u'' ''goal'' ''t1'' [] \<lparr>vs_tasks = [], vs_world = 0, vs_context = []\<rparr> = (Inr r, v')
     \<and> vs_world v' = 1"
  by (simp add: vnext_run_def vn_body_def vn_plan_def sample_vnext_def on_world_def emit_def publish_opt_def now_context_def
      put_context_def vn_remember_def vn_schedule_def build_task_def new_task_def submit_def execute_task_def state_value_def
      vn_finish_def vn_evaluate_def vn_reflect_def vn_learn_def Let_def)

theorem returned_run_did_its_task_witness:
  "\<exists>r v'. vnext_run sample_vnext ''u'' ''goal'' ''t1'' [] \<lparr>vs_tasks = [], vs_world = 0, vs_context = []\<rparr> = (Inr r, v')
     \<and> or_status r = ''completed'' \<and> vs_world v' = 1"
proof -
  obtain r v' where r: "vnext_run sample_vnext ''u'' ''goal'' ''t1'' [] \<lparr>vs_tasks = [], vs_world = 0, vs_context = []\<rparr> = (Inr r, v')"
    "vs_world v' = 1" using sample_vnext_run by blast
  from returned_run_did_its_task [OF r(1)] r show ?thesis by blast
qed

end
