(* ===== verification/Status.thy ===== *)
theory Status
  imports Prelude
begin

text \<open>
  The small helpers beside the runtime: \<^verbatim>\<open>observability/metrics.py\<close> and
  \<^verbatim>\<open>observability/events.py\<close>, \<^verbatim>\<open>runtime/status_report.py\<close>,
  \<^verbatim>\<open>runtime/startup_validation.py\<close>, \<^verbatim>\<open>runtime/operational_status.py\<close>,
  \<^verbatim>\<open>reliability/\<close> and \<^verbatim>\<open>security/audit.py\<close>.
\<close>

section \<open>Metrics\<close>

text \<open>The counters are a \<^verbatim>\<open>defaultdict(int)\<close>: reading a missing one puts it there.\<close>

type_synonym counters = "(string \<times> int) list"

definition increment :: "string \<Rightarrow> int \<Rightarrow> counters \<Rightarrow> counters" where
  "increment name n c = dset name (dget c name 0 + n) c"

definition get_counter :: "string \<Rightarrow> counters \<Rightarrow> int \<times> counters" where
  "get_counter name c = (dget c name 0, if map_of c name = None then dset name 0 c else c)"

definition snapshot :: "counters \<Rightarrow> counters" where
  "snapshot c = c"

datatype metric_op = Increment string int | Get string

fun metric_step :: "counters \<Rightarrow> metric_op \<Rightarrow> counters" where
  "metric_step c (Increment name n) = increment name n c"
| "metric_step c (Get name) = snd (get_counter name c)"

fun added :: "string \<Rightarrow> metric_op \<Rightarrow> int" where
  "added name (Increment name' n) = (if name' = name then n else 0)"
| "added name (Get _) = 0"

fun touches :: "string \<Rightarrow> metric_op \<Rightarrow> bool" where
  "touches name (Increment name' n) = (name' = name)"
| "touches name (Get name') = (name' = name)"

lemma metric_step_value: "dget (metric_step c e) name 0 = dget c name 0 + added name e"
  by (cases e) (auto simp: increment_def get_counter_def dget_def)

lemma metric_step_keys: "map_of (metric_step c e) name = None \<longleftrightarrow> map_of c name = None \<and> \<not> touches name e"
  by (cases e) (auto simp: increment_def get_counter_def)

lemma metric_run_value: "dget (run metric_step c es) name 0 = dget c name 0 + sum_list (map (added name) es)"
  by (induction es arbitrary: c) (simp_all add: metric_step_value)

lemma metric_run_keys: "map_of (run metric_step c es) name = None \<longleftrightarrow> map_of c name = None \<and> \<not> list_ex (touches name) es"
  by (induction es arbitrary: c) (simp_all add: metric_step_keys)

text \<open>
  A counter is the sum of its increments. After any increments and reads, reading a counter gives
  its first value plus everything that was added to it, whatever happened to the others; and the
  snapshot has an entry for exactly the counters that were there or were named, so that merely reading
  one adds it.
\<close>

theorem counter_is_sum:
  assumes "c' = run metric_step c es"
  shows "fst (get_counter name c') = dget c name 0 + sum_list (map (added name) es)
    \<and> (map_of (snapshot c') name \<noteq> None \<longleftrightarrow> map_of c name \<noteq> None \<or> list_ex (touches name) es)"
  using metric_run_value [of c es name] metric_run_keys [of c es name] assms by (simp add: get_counter_def snapshot_def)

theorem counter_is_sum_witness:
  "fst (get_counter ''a'' (run metric_step [] [Increment ''a'' 2, Get ''b'', Increment ''a'' 3])) = 5
   \<and> map_of (run metric_step [] [Increment ''a'' 2, Get ''b'', Increment ''a'' 3]) ''b'' \<noteq> None"
  using counter_is_sum [OF refl, where c = "[]" and es = "[Increment ''a'' 2, Get ''b'', Increment ''a'' 3]" and name = "''a''"]
    counter_is_sum [OF refl, where c = "[]" and es = "[Increment ''a'' 2, Get ''b'', Increment ''a'' 3]" and name = "''b''"]
  by (simp add: snapshot_def dget_def)

section \<open>Events\<close>

record event =
  ob_event :: string
  ob_component :: string
  ob_status :: string
  ob_metadata :: pydict
  ob_timestamp :: time

definition new_event :: "string \<Rightarrow> string \<Rightarrow> time \<Rightarrow> event" where
  "new_event e component now =
     \<lparr>ob_event = e, ob_component = component, ob_status = ''ok'', ob_metadata = [], ob_timestamp = now\<rparr>"

record audit_entry =
  au_actor :: string
  au_action :: string
  au_resource :: string
  au_result :: string
  au_timestamp :: time

definition allow :: "string \<Rightarrow> string set \<Rightarrow> bool" where
  "allow action permissions \<longleftrightarrow> action \<in> permissions"

section \<open>Status\<close>

definition build_status_report :: "time \<Rightarrow> pydict" where
  "build_status_report now =
     [(''system'', VStr ''AIOS2''), (''status'', VStr ''operational''), (''timestamp'', VStamp now),
      (''checks'', VDict [(''runtime'', VStr ''ok''), (''api'', VStr ''ok''), (''recovery'', VStr ''ok'')])]"

definition REQUIRED_MODULES :: "string list" where
  "REQUIRED_MODULES = [''fastapi'', ''uvicorn'']"

text \<open>\<open>importable\<close> tells whether a module can be imported; a failure is an \<^verbatim>\<open>ImportError\<close>.\<close>

definition startup_checks :: "nat \<times> nat \<Rightarrow> (string \<Rightarrow> bool) \<Rightarrow> (string \<times> string) list" where
  "startup_checks version importable =
     [(''python'', if fst version > 3 \<or> fst version = 3 \<and> snd version \<ge> 11 then ''ok'' else ''warning'')] @
     map (\<lambda>m. (m, if importable m then ''ok'' else ''missing'')) REQUIRED_MODULES @ [(''runtime'', ''ok'')]"

definition validate_startup :: "nat \<times> nat \<Rightarrow> (string \<Rightarrow> bool) \<Rightarrow> pydict" where
  "validate_startup version importable =
     (let checks = startup_checks version importable in
      [(''system'', VStr ''AIOS2''),
       (''status'', VStr (if list_all (\<lambda>p. snd p = ''ok'') checks then ''ready'' else ''degraded'')),
       (''checks'', VDict (map (\<lambda>(k, v). (k, VStr v)) checks))])"

definition build_startup_report :: "nat \<times> nat \<Rightarrow> (string \<Rightarrow> bool) \<Rightarrow> pydict" where
  "build_startup_report = validate_startup"

definition build_operational_status :: "nat \<times> nat \<Rightarrow> (string \<Rightarrow> bool) \<Rightarrow> time \<Rightarrow> pydict" where
  "build_operational_status version importable now =
     [(''system'', VStr ''AIOS2''), (''status'', VStr ''operational''),
      (''runtime'', VDict (build_status_report now)), (''startup'', VDict (build_startup_report version importable))]"

text \<open>Python 3.10 and no modules: degraded at startup, and operational all the same.\<close>

lemma operational_when_degraded:
  "map_of (build_operational_status (3, 10) (\<lambda>_. False) 0) ''status'' = Some (VStr ''operational'')
   \<and> map_of (build_startup_report (3, 10) (\<lambda>_. False)) ''status'' = Some (VStr ''degraded'')"
  by (simp add: build_operational_status_def build_startup_report_def validate_startup_def startup_checks_def REQUIRED_MODULES_def)

text \<open>
  The endpoints of \<^verbatim>\<open>api/app.py\<close> that ask for no credentials; \<open>Control_Plane\<close> has the others.
\<close>

definition health :: pydict where
  "health = [(''status'', VStr ''ok''), (''system'', VStr ''AIOS'')]"

definition diagnostics :: pydict where
  "diagnostics = [(''system'', VStr ''AIOS''), (''status'', VStr ''operational''),
     (''components'', VDict [(''api'', VStr ''ok''), (''recovery'', VStr ''enabled''), (''runtime'', VStr ''managed'')])]"

definition system_status :: "nat \<times> nat \<Rightarrow> (string \<Rightarrow> bool) \<Rightarrow> time \<Rightarrow> pydict" where
  "system_status = build_operational_status"

section \<open>Reliability\<close>

record scenario =
  sn_name :: string
  sn_triggered :: bool

definition new_scenario :: "string \<Rightarrow> scenario" where
  "new_scenario name = \<lparr>sn_name = name, sn_triggered = False\<rparr>"

definition inject :: "scenario \<Rightarrow> scenario" where "inject s = s\<lparr>sn_triggered := True\<rparr>"

definition reset :: "scenario \<Rightarrow> scenario" where "reset s = s\<lparr>sn_triggered := False\<rparr>"

text \<open>A status that is a list or a dictionary cannot be looked up in a set.\<close>

definition validate_recovery :: "pydict \<Rightarrow> bool result" where
  "validate_recovery state =
     (case map_of state ''status'' of
        Some (VStr x) \<Rightarrow> Inr (x = ''ok'' \<or> x = ''recovered'')
      | Some (VList _) \<Rightarrow> Inl (Exc TypeError ''unhashable type: list'')
      | Some (VDict _) \<Rightarrow> Inl (Exc TypeError ''unhashable type: dict'')
      | _ \<Rightarrow> Inr False)"

section \<open>The launcher\<close>

text \<open>
  \<^verbatim>\<open>src/start.py\<close>: the command line it runs, by the path of the Python interpreter. The constant
  \<^verbatim>\<open>HOST\<close> is not part of it.
\<close>

definition HOST :: string where
  "HOST = ''127.0.0.1''"

definition PORT :: int where
  "PORT = 8000"

definition launch_command :: "string \<Rightarrow> string list" where
  "launch_command executable =
     [executable, ''-m'', ''uvicorn'', ''api.main:app'', ''--host'', ''0.0.0.0'', ''--port'', str_int PORT]"

lemma launcher_ignores_host: "executable \<noteq> HOST \<Longrightarrow> HOST \<notin> set (launch_command executable)"
  by (auto simp: launch_command_def HOST_def PORT_def str_int_def str_nat.simps)

end
