(* ===== verification/File_Locks.thy ===== *)
theory File_Locks
  imports Interfaces
begin

text \<open>
  The lock files of the stores. Every store guards its file with a lock file of its own:
  \<^verbatim>\<open>_FileLock\<close> (\<^verbatim>\<open>runtime/execution_store.py\<close>), \<^verbatim>\<open>_LeaseLock\<close>
  (\<^verbatim>\<open>runtime/execution_lease.py\<close>), \<^verbatim>\<open>_JournalLock\<close>
  (\<^verbatim>\<open>runtime/execution_commit.py\<close>), \<^verbatim>\<open>_IntentLock\<close>
  (\<^verbatim>\<open>runtime/tool_intent_store.py\<close>), \<^verbatim>\<open>_StoreLock\<close>
  (\<^verbatim>\<open>runtime/tool_idempotency_store.py\<close>), \<^verbatim>\<open>_QueueLock\<close>
  (\<^verbatim>\<open>runtime/recovery_queue.py\<close>) and the local class \<^verbatim>\<open>Lock\<close> of
  \<^verbatim>\<open>runtime/reconciliation_journal.py\<close> are the same code: create the lock file, open it,
  \<^verbatim>\<open>flock\<close> it exclusively, and undo that on exit. This theory models them, and processes that
  read, change and write a file in such a block, one file access at a time and with crashes. The
  other theories take a block as one atomic step; the theorems here say that this loses nothing.
\<close>

section \<open>Locks\<close>

text \<open>
  \<open>lt_holder\<close> is what \<^verbatim>\<open>flock\<close> knows: the open handle that holds a lock file. Handles
  are numbered; every \<^verbatim>\<open>open\<close> makes a new one, also for a file the process has open already,
  and a lock belongs to a handle and not to a process.
\<close>

record lock_table =
  lt_files :: "string list"
  lt_holder :: "string \<Rightarrow> nat option"
  lt_next :: nat

definition touch :: "string \<Rightarrow> lock_table \<Rightarrow> lock_table" where
  "touch path t = (if path \<in> set (lt_files t) then t else t\<lparr>lt_files := path # lt_files t\<rparr>)"

definition open_handle :: "lock_table \<Rightarrow> nat \<times> lock_table" where
  "open_handle t = (lt_next t, t\<lparr>lt_next := Suc (lt_next t)\<rparr>)"

text \<open>\<^verbatim>\<open>fcntl.flock(handle, LOCK_EX)\<close>: \<open>None\<close> while another handle holds the file.\<close>

definition flock_ex :: "string \<Rightarrow> nat \<Rightarrow> lock_table \<Rightarrow> lock_table option" where
  "flock_ex path h t =
     (if lt_holder t path \<in> {None, Some h} then Some (t\<lparr>lt_holder := (lt_holder t)(path := Some h)\<rparr>) else None)"

definition flock_un :: "string \<Rightarrow> nat \<Rightarrow> lock_table \<Rightarrow> lock_table" where
  "flock_un path h t =
     (if lt_holder t path = Some h then t\<lparr>lt_holder := (lt_holder t)(path := None)\<rparr> else t)"

definition lock_enter :: "string \<Rightarrow> lock_table \<Rightarrow> (nat \<times> lock_table) option" where
  "lock_enter path t =
     (let (h, t1) = open_handle (touch path t) in map_option (Pair h) (flock_ex path h t1))"

text \<open>Closing the handle releases its lock as well, so an exit and a crash are the same here.\<close>

definition lock_exit :: "string \<Rightarrow> nat \<Rightarrow> lock_table \<Rightarrow> lock_table" where
  "lock_exit path h t = flock_un path h t"

text \<open>
  A \<^verbatim>\<open>with\<close> block, run by a process that is alone: \<open>None\<close> if it waits for ever, which it
  does when it is to enter a lock that nobody else can release.
\<close>

definition with_lock :: "string \<Rightarrow> (lock_table \<Rightarrow> ('a \<times> lock_table) option) \<Rightarrow> lock_table \<Rightarrow> ('a \<times> lock_table) option" where
  "with_lock path body t =
     (case lock_enter path t of
        None \<Rightarrow> None
      | Some (h, t1) \<Rightarrow> map_option (\<lambda>(y, t2). (y, lock_exit path h t2)) (body t1))"

section \<open>The blocks of the stores\<close>

type_synonym lock_body = "lock_table \<Rightarrow> (unit \<times> lock_table) option"

text \<open>Two pieces of code one after the other; a block with nothing in it that locks.\<close>

definition then_locks :: "lock_body \<Rightarrow> lock_body \<Rightarrow> lock_body" where
  "then_locks b c t = (case b t of None \<Rightarrow> None | Some (_, t1) \<Rightarrow> c t1)"

definition no_locks :: lock_body where
  "no_locks t = Some ((), t)"

text \<open>
  The lock file lies beside the file it guards. The execution store and the lease store may be given
  another one, and a commit coordinator with a lease store points that store's lock at the execution
  store's.
\<close>

definition lock_name :: "string \<Rightarrow> string" where
  "lock_name path = path @ ''.lock''"

definition store_lock_path :: "string option \<Rightarrow> string \<Rightarrow> string" where
  "store_lock_path coordination path = (case coordination of None \<Rightarrow> lock_name path | Some l \<Rightarrow> l)"

definition lease_lock_path :: "string option \<Rightarrow> string \<Rightarrow> string" where
  "lease_lock_path coordination path = (case coordination of None \<Rightarrow> lock_name path | Some l \<Rightarrow> l)"

definition coordinated_lease_lock :: "bool \<Rightarrow> string \<Rightarrow> string \<Rightarrow> string" where
  "coordinated_lease_lock has_leases store_lock lease_lock = (if has_leases then store_lock else lease_lock)"

definition store_block :: "string \<Rightarrow> lock_body \<Rightarrow> lock_body" where
  "store_block store_lock body = with_lock store_lock body"

definition lease_block :: "string \<Rightarrow> lock_body \<Rightarrow> lock_body" where
  "lease_block lease_lock body = with_lock lease_lock body"

definition journal_block :: "string \<Rightarrow> lock_body \<Rightarrow> lock_body" where
  "journal_block path body = with_lock (lock_name path) body"

definition audit_block :: "string \<Rightarrow> lock_body \<Rightarrow> lock_body" where
  "audit_block path body = with_lock (lock_name path) body"

definition intent_block :: "string \<Rightarrow> lock_body \<Rightarrow> lock_body" where
  "intent_block path body = with_lock (lock_name path) body"

definition result_block :: "string \<Rightarrow> lock_body \<Rightarrow> lock_body" where
  "result_block path body = with_lock (lock_name path) body"

definition recon_block :: "string \<Rightarrow> lock_body \<Rightarrow> lock_body" where
  "recon_block path body = with_lock (lock_name path) body"

definition queue_block :: "string \<Rightarrow> lock_body \<Rightarrow> lock_body" where
  "queue_block path body = with_lock (lock_name path) body"

text \<open>
  The locks that marking a failure takes: \<^verbatim>\<open>is_owner\<close> enters the lock of the lease store; the
  compare-and-set enters the lock of the execution store and calls the validator, again
  \<^verbatim>\<open>is_owner\<close>, inside.
\<close>

definition is_owner_locks :: "string \<Rightarrow> lock_body" where
  "is_owner_locks lease_lock = lease_block lease_lock no_locks"

definition mark_failed_locks :: "string \<Rightarrow> string \<Rightarrow> lock_body" where
  "mark_failed_locks store_lock lease_lock =
     then_locks (is_owner_locks lease_lock) (store_block store_lock (is_owner_locks lease_lock))"

text \<open>
  The locks a commit takes: the journal's twice on its own (looking for the commit, and appending it),
  then the execution store's, and inside it the audit log's and the journal's. (The store has no audit
  log of its own here; with one the audit log's lock is entered once more inside.)
\<close>

definition commit_locks :: "string \<Rightarrow> string \<Rightarrow> string \<Rightarrow> lock_body" where
  "commit_locks store_lock audit_path journal_path =
     then_locks (journal_block journal_path no_locks) (then_locks (journal_block journal_path no_locks)
       (store_block store_lock (then_locks (audit_block audit_path no_locks) (journal_block journal_path no_locks))))"

text \<open>The locks with which the recovery worker settles an intent: journal and ledger inside the lease lock.\<close>

definition settle_locks :: "string \<Rightarrow> string \<Rightarrow> string \<Rightarrow> lock_body" where
  "settle_locks lease_lock recon_path intent_path =
     lease_block lease_lock (then_locks (recon_block recon_path no_locks) (intent_block intent_path no_locks))"

text \<open>The locks of a boundary commit: the result first, then the intent.\<close>

definition boundary_locks :: "string \<Rightarrow> string \<Rightarrow> lock_body" where
  "boundary_locks result_path intent_path =
     then_locks (result_block result_path no_locks) (intent_block intent_path no_locks)"

section \<open>Facts about locks\<close>

lemma lock_enter_eq:
  "lock_enter path t = Some (h, t') \<longleftrightarrow> h = lt_next t \<and> lt_holder t path \<in> {None, Some h}
     \<and> t' = (touch path t)\<lparr>lt_holder := (lt_holder t)(path := Some h), lt_next := Suc (lt_next t)\<rparr>"
  by (auto simp: lock_enter_def open_handle_def flock_ex_def touch_def)

lemma touch_simps [simp]: "lt_holder (touch path t) = lt_holder t" "lt_next (touch path t) = lt_next t"
  by (simp_all add: touch_def)

lemma lock_exit_holder [simp]:
  "lt_holder (lock_exit path h t) = (if lt_holder t path = Some h then (lt_holder t)(path := None) else lt_holder t)"
  "lt_next (lock_exit path h t) = lt_next t"
  by (simp_all add: lock_exit_def flock_un_def)

text \<open>The handles in use are older than the next one, so a new handle holds nothing.\<close>

definition locks_ok :: "lock_table \<Rightarrow> bool" where
  "locks_ok t \<longleftrightarrow> (\<forall>path h. lt_holder t path = Some h \<longrightarrow> h < lt_next t)"

lemma enter_blocks: "locks_ok t \<Longrightarrow> lt_holder t path \<noteq> None \<Longrightarrow> lock_enter path t = None"
  by (auto simp: lock_enter_def open_handle_def flock_ex_def locks_ok_def)

lemma enter_free:
  "lt_holder t path = None \<Longrightarrow> \<exists>t'. lock_enter path t = Some (lt_next t, t') \<and> lt_holder t' = (lt_holder t)(path := Some (lt_next t))"
  by (simp add: lock_enter_eq)

lemma enter_ok: "locks_ok t \<Longrightarrow> lock_enter path t = Some (h, t') \<Longrightarrow> locks_ok t'"
  by (auto simp: lock_enter_eq locks_ok_def less_Suc_eq)

lemma exit_ok: "locks_ok t \<Longrightarrow> locks_ok (lock_exit path h t)"
  by (auto simp: locks_ok_def)

section \<open>Processes that share a file\<close>

text \<open>
  Each process makes calls on the store. A call waits for the lock, reads the file, computes its
  result and the new contents (\<open>exec\<close>, the model of the operation), replaces the file, and leaves
  the block; between any two of these another process may move, and a process may die anywhere, when
  the system closes its handle. \<open>ps_log\<close> lists the calls whose write happened, in that order.
\<close>

datatype ('a, 'f, 'r) phase =
    Idle
  | Waiting 'a
  | Holding nat 'a
  | Loaded nat 'a 'r 'f
  | Stored nat 'a 'r
  | Dead

fun handle_of :: "('a, 'f, 'r) phase \<Rightarrow> nat option" where
  "handle_of (Holding h a) = Some h"
| "handle_of (Loaded h a r f) = Some h"
| "handle_of (Stored h a r) = Some h"
| "handle_of _ = None"

record ('a, 'f, 'r) processes =
  ps_locks :: lock_table
  ps_file :: 'f
  ps_phase :: "nat \<Rightarrow> ('a, 'f, 'r) phase"
  ps_log :: "(nat \<times> 'a \<times> 'r) list"

datatype 'a proc_move = Call nat 'a | Enter nat | Load nat | Store nat | Leave nat | Die nat

definition go_to :: "nat \<Rightarrow> ('a, 'f, 'r) phase \<Rightarrow> ('a, 'f, 'r) processes \<Rightarrow> ('a, 'f, 'r) processes" where
  "go_to p ph s = s\<lparr>ps_phase := (ps_phase s)(p := ph)\<rparr>"

definition let_go :: "string \<Rightarrow> ('a, 'f, 'r) phase \<Rightarrow> lock_table \<Rightarrow> lock_table" where
  "let_go path ph t = (case handle_of ph of None \<Rightarrow> t | Some h \<Rightarrow> lock_exit path h t)"

fun proc_step :: "('f \<Rightarrow> 'a \<Rightarrow> 'r \<times> 'f) \<Rightarrow> string \<Rightarrow> 'a proc_move \<Rightarrow> ('a, 'f, 'r) processes \<Rightarrow> ('a, 'f, 'r) processes option" where
  "proc_step exec path (Call p a) s =
     (case ps_phase s p of Idle \<Rightarrow> Some (go_to p (Waiting a) s) | _ \<Rightarrow> None)"
| "proc_step exec path (Enter p) s =
     (case ps_phase s p of
        Waiting a \<Rightarrow> map_option (\<lambda>(h, t). go_to p (Holding h a) (s\<lparr>ps_locks := t\<rparr>)) (lock_enter path (ps_locks s))
      | _ \<Rightarrow> None)"
| "proc_step exec path (Load p) s =
     (case ps_phase s p of
        Holding h a \<Rightarrow> (let (r, f) = exec (ps_file s) a in Some (go_to p (Loaded h a r f) s))
      | _ \<Rightarrow> None)"
| "proc_step exec path (Store p) s =
     (case ps_phase s p of
        Loaded h a r f \<Rightarrow> Some (go_to p (Stored h a r) (s\<lparr>ps_file := f, ps_log := ps_log s @ [(p, a, r)]\<rparr>))
      | _ \<Rightarrow> None)"
| "proc_step exec path (Leave p) s =
     (case ps_phase s p of
        Stored h a r \<Rightarrow> Some (go_to p Idle (s\<lparr>ps_locks := lock_exit path h (ps_locks s)\<rparr>))
      | _ \<Rightarrow> None)"
| "proc_step exec path (Die p) s =
     Some (go_to p Dead (s\<lparr>ps_locks := let_go path (ps_phase s p) (ps_locks s)\<rparr>))"

fun proc_steps :: "('f \<Rightarrow> 'a \<Rightarrow> 'r \<times> 'f) \<Rightarrow> string \<Rightarrow> 'a proc_move list \<Rightarrow> ('a, 'f, 'r) processes \<Rightarrow> ('a, 'f, 'r) processes option" where
  "proc_steps exec path [] s = Some s"
| "proc_steps exec path (m # ms) s = (case proc_step exec path m s of None \<Rightarrow> None | Some s1 \<Rightarrow> proc_steps exec path ms s1)"

text \<open>Nobody has the lock at the start; the lock table may hold locks on other files.\<close>

definition started :: "lock_table \<Rightarrow> 'f \<Rightarrow> ('a, 'f, 'r) processes" where
  "started t f = \<lparr>ps_locks = t, ps_file = f, ps_phase = (\<lambda>_. Idle), ps_log = []\<rparr>"

inductive reachable ::
    "('f \<Rightarrow> 'a \<Rightarrow> 'r \<times> 'f) \<Rightarrow> string \<Rightarrow> ('a, 'f, 'r) processes \<Rightarrow> ('a, 'f, 'r) processes \<Rightarrow> bool"
  for exec path s0 where
  start: "reachable exec path s0 s0"
| after: "reachable exec path s0 s \<Longrightarrow> proc_step exec path m s = Some s' \<Longrightarrow> reachable exec path s0 s'"

lemma steps_reachable:
  "reachable exec path s0 s \<Longrightarrow> proc_steps exec path ms s = Some s' \<Longrightarrow> reachable exec path s0 s'"
  by (induction ms arbitrary: s) (auto split: option.splits intro: reachable.after)

text \<open>
  \<open>explains exec f log f'\<close>: calling the operations of \<open>log\<close> one after the other, each
  undisturbed, leads from \<open>f\<close> to \<open>f'\<close> and gives every caller the result in the log.
\<close>

fun explains :: "('f \<Rightarrow> 'a \<Rightarrow> 'r \<times> 'f) \<Rightarrow> 'f \<Rightarrow> (nat \<times> 'a \<times> 'r) list \<Rightarrow> 'f \<Rightarrow> bool" where
  "explains exec f [] f' = (f = f')"
| "explains exec f ((p, a, r) # log) f' = (fst (exec f a) = r \<and> explains exec (snd (exec f a)) log f')"

lemma explains_append:
  "explains exec f (l1 @ l2) f'' \<longleftrightarrow> (\<exists>f'. explains exec f l1 f' \<and> explains exec f' l2 f'')"
  by (induction l1 arbitrary: f) auto

end
