(* ===== verification/File_Locks_Spec.thy ===== *)
theory File_Locks_Spec
  imports File_Locks Lease
begin

text \<open>
  What the lock files guarantee: the calls of concurrent processes, crashing ones included, have the
  effect of the same calls made one after the other; nobody waits for a dead process; and where the
  guarantee ends, an operation that enters a lock file twice.
\<close>

section \<open>The invariant of the shared file\<close>

definition inside :: "('a, 'f, 'r) processes \<Rightarrow> nat \<Rightarrow> bool" where
  "inside s p \<longleftrightarrow> handle_of (ps_phase s p) \<noteq> None"

definition guarded :: "string \<Rightarrow> ('a, 'f, 'r) processes \<Rightarrow> bool" where
  "guarded path s \<longleftrightarrow> locks_ok (ps_locks s)
     \<and> (\<forall>p h. handle_of (ps_phase s p) = Some h \<longrightarrow> lt_holder (ps_locks s) path = Some h)
     \<and> (\<forall>p q. inside s p \<and> inside s q \<longrightarrow> p = q)
     \<and> (lt_holder (ps_locks s) path \<noteq> None \<longrightarrow> (\<exists>p. inside s p))"

definition serial :: "('f \<Rightarrow> 'a \<Rightarrow> 'r \<times> 'f) \<Rightarrow> 'f \<Rightarrow> ('a, 'f, 'r) processes \<Rightarrow> bool" where
  "serial exec f0 s \<longleftrightarrow> explains exec f0 (ps_log s) (ps_file s)
     \<and> (\<forall>p h a r f. ps_phase s p = Loaded h a r f \<longrightarrow> exec (ps_file s) a = (r, f))
     \<and> (\<forall>p h a r. ps_phase s p = Stored h a r \<longrightarrow> (\<exists>log. ps_log s = log @ [(p, a, r)]))"

lemma guarded_start: "locks_ok t \<Longrightarrow> lt_holder t path = None \<Longrightarrow> guarded path (started t f)"
  by (simp add: guarded_def started_def inside_def)

lemma serial_start: "serial exec f (started t f)"
  by (simp add: serial_def started_def)

lemma go_to_simps [simp]:
  "ps_locks (go_to p ph s) = ps_locks s" "ps_file (go_to p ph s) = ps_file s" "ps_log (go_to p ph s) = ps_log s"
  "ps_phase (go_to p ph s) = (ps_phase s)(p := ph)"
  by (simp_all add: go_to_def)

text \<open>A process that moves on inside its block, or before it.\<close>

lemma guarded_same:
  assumes "guarded path s" and "ps_locks s' = ps_locks s"
    and "ps_phase s' = (ps_phase s)(p := ph)" and "handle_of ph = handle_of (ps_phase s p)"
  shows "guarded path s'"
proof -
  have "handle_of (ps_phase s' q) = handle_of (ps_phase s q)" for q using assms(3,4) by simp
  then show ?thesis using assms(1,2) by (simp add: guarded_def inside_def)
qed

lemma guarded_enter:
  assumes "guarded path s" and "lock_enter path (ps_locks s) = Some (h, t)"
    and "ps_locks s' = t" and "ps_phase s' = (ps_phase s)(p := ph)" and "handle_of ph = Some h"
  shows "guarded path s'"
proof -
  have ok: "locks_ok (ps_locks s)" using assms(1) by (simp add: guarded_def)
  have "lt_holder (ps_locks s) path = None"
    using enter_blocks [OF ok, of path] assms(2) by (cases "lt_holder (ps_locks s) path") simp_all
  then have none: "\<not> inside s q" for q using assms(1) by (auto simp: guarded_def inside_def)
  have "lt_holder t path = Some h" using assms(2) by (auto simp: lock_enter_eq)
  then show ?thesis
    using none assms(3-5) enter_ok [OF ok assms(2)] by (auto simp: guarded_def inside_def)
qed

lemma guarded_leave:
  assumes "guarded path s" and "ps_locks s' = let_go path (ps_phase s p) (ps_locks s)"
    and "ps_phase s' = (ps_phase s)(p := ph)" and "handle_of ph = None"
  shows "guarded path s'"
proof (cases "handle_of (ps_phase s p)")
  case None
  have "ps_locks s' = ps_locks s" using assms(2) None by (simp add: let_go_def)
  from guarded_same [OF assms(1) this assms(3)] show ?thesis using assms(4) None by simp
next
  case (Some h)
  have held: "lt_holder (ps_locks s) path = Some h" and only: "inside s q \<Longrightarrow> q = p" for q
    using assms(1) Some by (auto simp: guarded_def inside_def)
  have "\<not> inside s' q" for q using only [of q] assms(3,4) unfolding inside_def by (metis fun_upd_apply)
  moreover have "lt_holder (ps_locks s') path = None" using assms(2) Some held by (simp add: let_go_def)
  moreover have "locks_ok (ps_locks s')" using assms(1,2) Some by (simp add: guarded_def let_go_def exit_ok)
  ultimately show ?thesis by (auto simp: guarded_def inside_def)
qed

lemma guarded_step:
  assumes "guarded path s" and "proc_step exec path m s = Some s'"
  shows "guarded path s'"
proof (cases m)
  case (Call p a)
  then show ?thesis using assms guarded_same [OF assms(1), of s' p "Waiting a"] by (auto split: phase.splits)
next
  case (Enter p)
  then show ?thesis using assms(2) by (auto split: phase.splits intro: guarded_enter [OF assms(1)])
next
  case (Load p)
  then show ?thesis using assms(2) by (auto split: phase.splits prod.splits intro!: guarded_same [OF assms(1), where p = p])
next
  case (Store p)
  then show ?thesis using assms(2) by (auto split: phase.splits intro!: guarded_same [OF assms(1), where p = p])
next
  case (Leave p)
  then show ?thesis using assms(2) by (auto split: phase.splits simp: let_go_def intro!: guarded_leave [OF assms(1), where p = p])
next
  case (Die p)
  then show ?thesis using assms(2) by (auto intro!: guarded_leave [OF assms(1), where p = p])
qed

lemma serial_step:
  assumes "guarded path s" and "serial exec f0 s" and "proc_step exec path m s = Some s'"
  shows "serial exec f0 s'"
proof -
  have only: "inside s p \<Longrightarrow> inside s q \<Longrightarrow> p = q" for p q using assms(1) by (simp add: guarded_def)
  show ?thesis
  proof (cases m)
    case (Store p)
    then obtain h a r f where ph: "ps_phase s p = Loaded h a r f"
      and s': "s' = go_to p (Stored h a r) (s\<lparr>ps_file := f, ps_log := ps_log s @ [(p, a, r)]\<rparr>)"
      using assms(3) by (auto split: phase.splits)
    have "exec (ps_file s) a = (r, f)" using assms(2) ph by (simp add: serial_def)
    moreover have "handle_of (ps_phase s q) = None" if "q \<noteq> p" for q
      using only [of p q] that ph by (auto simp only: inside_def handle_of.simps)
    then have "ps_phase s q \<noteq> Loaded h' a' r' f'" "ps_phase s q \<noteq> Stored h' a' r'" if "q \<noteq> p" for q h' a' r' f'
      using that by force+
    ultimately show ?thesis using assms(2) unfolding s' serial_def
      by (auto simp: explains_append intro!: exI [of _ "ps_file s"])
  next
    case (Load p)
    then show ?thesis using assms(2,3) by (auto simp: serial_def split: phase.splits prod.splits if_splits)
  next
    case (Enter p)
    then show ?thesis using assms(2,3) by (auto simp: serial_def split: phase.splits if_splits)
  qed (use assms(2,3) in \<open>auto simp: serial_def split: phase.splits if_splits\<close>)
qed

lemma reachable_ok:
  assumes "reachable exec path (started t f0) s" and "locks_ok t" and "lt_holder t path = None"
  shows "guarded path s \<and> serial exec f0 s"
  using assms(1)
proof induction
  case start
  show ?case by (simp add: guarded_start serial_start assms(2,3))
next
  case (after s m s')
  then have g: "guarded path s" and r: "serial exec f0 s" by simp_all
  show ?case using guarded_step [OF g after.hyps(2)] serial_step [OF g r after.hyps(2)] by simp
qed

section \<open>Invariants of shared files\<close>

text \<open>What every operation keeps, concurrent and crashing processes keep.\<close>

locale shared_file =
  fixes exec :: "'f \<Rightarrow> 'a \<Rightarrow> 'r \<times> 'f" and inv :: "'f \<Rightarrow> bool"
  assumes exec_inv: "inv f \<Longrightarrow> inv (snd (exec f a))"
begin

lemma explains_inv: "explains exec f log f' \<Longrightarrow> inv f \<Longrightarrow> inv f'"
proof (induction log arbitrary: f)
  case (Cons e log)
  then show ?case using exec_inv [of f "fst (snd e)"] by (cases e) auto
qed simp

lemma reachable_inv:
  assumes "reachable exec path (started t f) s" and "locks_ok t" and "lt_holder t path = None" and "inv f"
  shows "inv (ps_file s)"
  using reachable_ok [OF assms(1-3)] explains_inv assms(4) by (auto simp: serial_def)

text \<open>Between two calls of a log lie other calls; the invariant holds at each.\<close>

lemma two_calls:
  assumes "reachable exec path (started t f) s" and "locks_ok t" and "lt_holder t path = None" and "inv f"
    and "i < j" and "j < length (ps_log s)" and "ps_log s ! i = (p, a, ra)" and "ps_log s ! j = (q, b, rb)"
  obtains f1 f2 l f3 where "exec f1 a = (ra, f2)" "explains exec f2 l f3" "fst (exec f3 b) = rb"
    "inv f1" "inv f2" "inv f3"
proof -
  let ?log = "ps_log s"
  have ex: "explains exec f ?log (ps_file s)"
    using reachable_ok [OF assms(1-3)] by (simp add: serial_def)
  have "?log = take i ?log @ ?log ! i # drop (Suc i) ?log" using assms(5,6) by (simp add: id_take_nth_drop)
  moreover have "drop (Suc i) ?log = take (j - Suc i) (drop (Suc i) ?log) @ ?log ! j # drop (Suc j) ?log"
    using assms(5,6) id_take_nth_drop [of "j - Suc i" "drop (Suc i) ?log"] by simp
  ultimately obtain l0 l1 l2 where log: "?log = l0 @ (p, a, ra) # l1 @ (q, b, rb) # l2"
    using assms(7,8) by metis
  obtain f1 where 1: "explains exec f l0 f1" "explains exec f1 ((p, a, ra) # l1 @ (q, b, rb) # l2) (ps_file s)"
    using ex unfolding log explains_append by blast
  then obtain f2 f3 where 2: "exec f1 a = (ra, f2)" "explains exec f2 l1 f3" "fst (exec f3 b) = rb"
    by (auto simp: explains_append prod_eq_iff)
  have "inv f1" using explains_inv [OF 1(1) assms(4)] .
  then have "inv f2" using exec_inv [of f1 a] 2(1) by simp
  then have "inv f3" using explains_inv [OF 2(2)] by blast
  with \<open>inv f1\<close> \<open>inv f2\<close> show thesis by (intro that [OF 2]) simp_all
qed

end
text \<open>Calls that are the steps of another model, with answers.\<close>

lemma explains_steps:
  assumes "\<And>f a. snd (exec f a) = step f a" and "explains exec f log f'"
  shows "f' = run step f (map (fst \<circ> snd) log)"
  using assms(2) by (induction log arbitrary: f) (auto simp: assms(1))


text \<open>The calls on the lease file, with the answer each gives its caller.\<close>

fun lease_call :: "int \<Rightarrow> lease_file \<Rightarrow> time \<times> lease_op \<Rightarrow> lease option result \<times> lease_file" where
  "lease_call ttl f (now, Op_Acquire x owner) = acquire ttl x owner now f"
| "lease_call ttl f (now, Op_Renew x owner tok) = renew ttl x owner tok now f"
| "lease_call ttl f (now, Op_Release x owner tok) = map_prod (map_sum id (\<lambda>_. None)) id (release x owner tok now f)"

lemma lease_call_step: "snd (lease_call ttl f e) = lease_step ttl f e"
  by (cases "(ttl, f, e)" rule: lease_call.cases) simp_all

interpretation lease_files: shared_file "lease_call ttl" lease_inv for ttl
  by unfold_locales (simp add: lease_call_step lease_step_inv)

section \<open>Properties\<close>

text \<open>
  C5. The calls of concurrent processes are serializable. Whatever the processes do and in whatever
  order they move, dying at any point: at most one is inside its block, and the file and every answer
  a caller has got are those of the same calls made one after the other, each undisturbed, in the order
  of their writes.
\<close>

theorem locked_calls_serialize:
  assumes "locks_ok t" and "lt_holder t path = None" and "reachable exec path (started t f) s"
  shows "explains exec f (ps_log s) (ps_file s)
    \<and> (\<forall>p q. inside s p \<and> inside s q \<longrightarrow> p = q)
    \<and> (\<forall>p h a r. ps_phase s p = Stored h a r \<longrightarrow> last (ps_log s) = (p, a, r) \<and> ps_log s \<noteq> [])"
proof -
  note ok = reachable_ok [OF assms(3,1,2)]
  have "\<forall>p h a r. ps_phase s p = Stored h a r \<longrightarrow> last (ps_log s) = (p, a, r) \<and> ps_log s \<noteq> []"
    using ok unfolding serial_def by fastforce
  then show ?thesis using ok unfolding serial_def guarded_def by blast
qed

text \<open>Two processes want the same lease; the first dies between its write and its answer.\<close>

definition sample_locks :: lock_table where
  "sample_locks = \<lparr>lt_files = [], lt_holder = (\<lambda>_. None), lt_next = 0\<rparr>"

definition sample_moves :: "(time \<times> lease_op) proc_move list" where
  "sample_moves = [Call 0 (0, Op_Acquire ''e1'' ''a''), Call 1 (70000000, Op_Acquire ''e1'' ''b''), Enter 0, Load 0, Store 0,
     Die 0, Enter 1, Load 1, Store 1]"

lemma sample_locks_ok: "locks_ok sample_locks" "lt_holder sample_locks path = None"
  by (simp_all add: locks_ok_def sample_locks_def)

definition grant_a :: lease where
  "grant_a = \<lparr>ls_execution_id = ''e1'', ls_owner_id = ''a'', ls_expires_at = 60000000, ls_fencing_token = 1\<rparr>"

lemma sample_processes:
  "\<exists>s. reachable (lease_call 60) ''l'' (started sample_locks (Object [])) s \<and> ps_file s = Object [(''e1'', lease_b)]
     \<and> ps_phase s 1 = Stored 1 (70000000, Op_Acquire ''e1'' ''b'') (Inr (Some lease_b))
     \<and> ps_log s = [(0, (0, Op_Acquire ''e1'' ''a''), Inr (Some grant_a)),
         (1, (70000000, Op_Acquire ''e1'' ''b''), Inr (Some lease_b))]"
proof -
  let ?s = "proc_steps (lease_call 60) ''l'' sample_moves (started sample_locks (Object []))"
  have "\<exists>s. ?s = Some s \<and> ps_file s = Object [(''e1'', lease_b)]
     \<and> ps_phase s 1 = Stored 1 (70000000, Op_Acquire ''e1'' ''b'') (Inr (Some lease_b))
     \<and> ps_log s = [(0, (0, Op_Acquire ''e1'' ''a''), Inr (Some grant_a)),
         (1, (70000000, Op_Acquire ''e1'' ''b''), Inr (Some lease_b))]"
    by (simp add: sample_moves_def started_def sample_locks_def lock_enter_def open_handle_def touch_def flock_ex_def
        go_to_def let_go_def lock_exit_def flock_un_def lease_ops lease_b_def grant_a_def seconds_def)
  then show ?thesis using steps_reachable [OF reachable.start] by blast
qed

theorem locked_calls_serialize_witness:
  "explains (lease_call 60) (Object []) [(0, (0, Op_Acquire ''e1'' ''a''), Inr (Some grant_a)),
     (1, (70000000, Op_Acquire ''e1'' ''b''), Inr (Some lease_b))] (Object [(''e1'', lease_b)])"
proof -
  obtain s where r: "reachable (lease_call 60) ''l'' (started sample_locks (Object [])) s"
    and s: "ps_file s = Object [(''e1'', lease_b)]" "ps_log s = [(0, (0, Op_Acquire ''e1'' ''a''), Inr (Some grant_a)),
         (1, (70000000, Op_Acquire ''e1'' ''b''), Inr (Some lease_b))]"
    using sample_processes by blast
  from locked_calls_serialize [OF sample_locks_ok r] s show ?thesis by simp
qed

lemma steps_append: "proc_steps exec path (ms @ ns) s =
    (case proc_steps exec path ms s of None \<Rightarrow> None | Some s1 \<Rightarrow> proc_steps exec path ns s1)"
  by (induction ms arbitrary: s) (auto split: option.split)

text \<open>The moves that take a process out of its block.\<close>

fun exit_moves :: "nat \<Rightarrow> ('a, 'f, 'r) phase \<Rightarrow> 'a proc_move list" where
  "exit_moves q (Holding h a) = [Load q, Store q, Leave q]"
| "exit_moves q (Loaded h a r f) = [Store q, Leave q]"
| "exit_moves q (Stored h a r) = [Leave q]"
| "exit_moves q _ = []"

lemma exit_moves_set: "length (exit_moves q ph) \<le> 3" "m \<in> set (exit_moves q ph) \<Longrightarrow> m \<in> {Load q, Store q, Leave q}"
  by (cases ph; auto)+

lemma gets_out:
  assumes "guarded path s" and "inside s q"
  shows "\<exists>s'. proc_steps exec path (exit_moves q (ps_phase s q)) s = Some s' \<and> lt_holder (ps_locks s') path = None
    \<and> (\<forall>p. p \<noteq> q \<longrightarrow> ps_phase s' p = ps_phase s p)"
proof -
  obtain h where h: "handle_of (ps_phase s q) = Some h" using assms(2) by (auto simp: inside_def)
  then have "lt_holder (ps_locks s) path = Some h" using assms(1) by (simp add: guarded_def)
  then show ?thesis using h by (cases "ps_phase s q") (simp_all split: prod.split)
qed

text \<open>
  A waiting process gets in. If the lock is free it can enter; if the process inside dies, whatever
  it was about to do, it can enter at once; and otherwise at most three moves of the process inside are
  between it and its block. So a crash never leaves a store locked.
\<close>

theorem waiting_process_gets_in:
  assumes "locks_ok t" and "lt_holder t path = None" and "reachable exec path (started t f) s"
    and "ps_phase s p = Waiting a"
  shows "(\<forall>q. inside s q \<longrightarrow> (\<exists>s'. proc_steps exec path [Die q, Enter p] s = Some s' \<and> inside s' p))
    \<and> (\<exists>ms s'. length ms \<le> 3 \<and> (\<forall>m \<in> set ms. \<exists>q. inside s q \<and> m \<in> {Load q, Store q, Leave q})
        \<and> proc_steps exec path (ms @ [Enter p]) s = Some s' \<and> inside s' p)"
proof -
  have g: "guarded path s" using reachable_ok [OF assms(3,1,2)] by simp
  have enter: "\<exists>s'. proc_step exec path (Enter p) u = Some s' \<and> inside s' p"
    if "lt_holder (ps_locks u) path = None" "ps_phase u p = Waiting a" for u :: "('b, 'a, 'c) processes"
    using enter_free [OF that(1)] that(2) by (auto simp: inside_def)
  have out: "\<exists>s'. proc_steps exec path [Die q, Enter p] s = Some s' \<and> inside s' p" if q: "inside s q" for q
  proof -
    let ?u = "go_to q Dead (s\<lparr>ps_locks := let_go path (ps_phase s q) (ps_locks s)\<rparr>)"
    obtain h where h: "handle_of (ps_phase s q) = Some h" "lt_holder (ps_locks s) path = Some h"
      using g q by (auto simp: inside_def guarded_def)
    have "p \<noteq> q" using h assms(4) by auto
    then have "ps_phase ?u p = Waiting a" "lt_holder (ps_locks ?u) path = None" using h assms(4) by (simp_all add: let_go_def)
    from enter [OF this(2,1)] show ?thesis by (auto simp del: proc_step.simps(2))
  qed
  have steps: "\<exists>ms s'. length ms \<le> 3 \<and> (\<forall>m \<in> set ms. \<exists>q. inside s q \<and> m \<in> {Load q, Store q, Leave q})
        \<and> proc_steps exec path (ms @ [Enter p]) s = Some s' \<and> inside s' p"
  proof (cases "lt_holder (ps_locks s) path")
    case None
    from enter [OF this assms(4)] obtain s' where "proc_step exec path (Enter p) s = Some s'" "inside s' p" by blast
    then have "proc_steps exec path ([] @ [Enter p]) s = Some s'" "inside s' p" by (simp_all del: proc_step.simps)
    then show ?thesis by (intro exI [of _ "[]"] exI [of _ s']) simp
  next
    case (Some h)
    then obtain q where q: "inside s q" using g by (auto simp: guarded_def)
    then have pq: "p \<noteq> q" using assms(4) by (auto simp: inside_def)
    let ?ms = "exit_moves q (ps_phase s q)"
    obtain u where u: "proc_steps exec path ?ms s = Some u" "lt_holder (ps_locks u) path = None"
        "\<forall>p. p \<noteq> q \<longrightarrow> ps_phase u p = ps_phase s p"
      using gets_out [OF g q, of exec] by blast
    have "ps_phase u p = Waiting a" using u(3) pq assms(4) by simp
    from enter [OF u(2) this] obtain s' where s': "proc_step exec path (Enter p) u = Some s'" "inside s' p" by blast
    then have "proc_steps exec path (?ms @ [Enter p]) s = Some s'" using u(1) by (simp add: steps_append del: proc_step.simps)
    then show ?thesis using exit_moves_set q s'(2) by (intro exI [of _ ?ms] exI [of _ s']) blast
  qed
  show ?thesis using out steps by blast
qed

theorem waiting_process_gets_in_witness:
  "\<exists>ms s'. length ms \<le> 3 \<and> proc_steps (lease_call 60) ''l'' (ms @ [Enter 1])
     (go_to 1 (Waiting (0, Op_Acquire ''e1'' ''b'')) (started sample_locks (Object []))) = Some s' \<and> inside s' 1"
proof -
  let ?s = "started sample_locks (Object [])"
  let ?w = "go_to 1 (Waiting (0, Op_Acquire ''e1'' ''b'')) ?s"
  have r: "reachable (lease_call 60) ''l'' ?s ?w"
    using reachable.after [OF reachable.start, of "lease_call 60" "''l''" "Call 1 (0, Op_Acquire ''e1'' ''b'')" ?s ?w]
    by (simp add: started_def)
  have w: "ps_phase ?w 1 = Waiting (0, Op_Acquire ''e1'' ''b'')" by simp
  from waiting_process_gets_in [OF sample_locks_ok r w] show ?thesis by blast
qed

text \<open>
  C7. Fencing tokens order the grants of concurrent processes. Processes that share a lease file may
  interleave and crash as they like: of two grants of the same lease the one written later carries the
  larger token, so no two grants ever share one, and the file stays well-formed.
\<close>

theorem concurrent_grants_ordered:
  assumes "locks_ok t" and "lt_holder t path = None" and "lease_inv f"
    and "reachable (lease_call ttl) path (started t f) s"
    and "i < j" and "j < length (ps_log s)"
    and "ps_log s ! i = (p, (n1, Op_Acquire x w1), Inr (Some g1))"
    and "ps_log s ! j = (q, (n2, Op_Acquire x w2), Inr (Some g2))"
  shows "ls_fencing_token g1 < ls_fencing_token g2 \<and> ls_owner_id g1 = w1 \<and> lease_inv (ps_file s)"
proof -
  obtain f1 f2 l f3 where c: "lease_call ttl f1 (n1, Op_Acquire x w1) = (Inr (Some g1), f2)"
      "explains (lease_call ttl) f2 l f3" "fst (lease_call ttl f3 (n2, Op_Acquire x w2)) = Inr (Some g2)"
    and ok: "lease_inv f1"
    by (rule lease_files.two_calls [OF assms(4,1,2,3,5-8)]) blast
  have f3: "f3 = run (lease_step ttl) f2 (map (fst \<circ> snd) l)"
    by (rule explains_steps [OF lease_call_step c(2)])
  obtain f4 where second: "acquire ttl x w2 n2 f3 = (Inr (Some g2), f4)" using c(3) by (auto simp: prod_eq_iff)
  have "ls_fencing_token g1 < ls_fencing_token g2"
    using grants_strictly_ordered [OF ok] c(1) second f3 by auto
  moreover have "ls_owner_id g1 = w1" using acquire_granted [OF ok] c(1) by simp
  ultimately show ?thesis using lease_files.reachable_inv [OF assms(4,1,2,3)] by simp
qed

theorem concurrent_grants_ordered_witness:
  "\<exists>s :: (time \<times> lease_op, lease_file, lease option result) processes.
     ps_phase s 1 = Stored 1 (70000000, Op_Acquire ''e1'' ''b'') (Inr (Some lease_b))
     \<and> ls_fencing_token grant_a < ls_fencing_token lease_b \<and> lease_inv (ps_file s)"
proof -
  obtain s where r: "reachable (lease_call 60) ''l'' (started sample_locks (Object [])) s"
    and s: "ps_phase s 1 = Stored 1 (70000000, Op_Acquire ''e1'' ''b'') (Inr (Some lease_b))"
      "ps_log s = [(0, (0, Op_Acquire ''e1'' ''a''), Inr (Some grant_a)),
         (1, (70000000, Op_Acquire ''e1'' ''b''), Inr (Some lease_b))]"
    using sample_processes by blast
  have inv: "lease_inv (Object [])" by (simp add: lease_inv_def)
  have l: "ps_log s ! 0 = (0, (0, Op_Acquire ''e1'' ''a''), Inr (Some grant_a))"
    "ps_log s ! 1 = (1, (70000000, Op_Acquire ''e1'' ''b''), Inr (Some lease_b))" "(0::nat) < 1" "1 < length (ps_log s)"
    using s(2) by simp_all
  from concurrent_grants_ordered [OF sample_locks_ok inv r l(3,4,1,2)] s(1)
  show ?thesis by (intro exI [of _ s]) simp
qed

section \<open>Entering a lock twice\<close>

lemma enter_exit:
  assumes "locks_ok t" and "lt_holder t path = None"
  shows "\<exists>t'. with_lock path no_locks t = Some ((), t') \<and> locks_ok t' \<and> lt_holder t' = lt_holder t"
  using assms by (auto simp: with_lock_def no_locks_def lock_enter_eq locks_ok_def fun_eq_iff less_SucI split: option.split)

text \<open>A block on a free lock returns when its body does, and leaves the locks as the body does.\<close>

definition returns_locks :: "string set \<Rightarrow> (lock_table \<Rightarrow> (unit \<times> lock_table) option) \<Rightarrow> bool" where
  "returns_locks ps body \<longleftrightarrow> (\<forall>t. locks_ok t \<and> (\<forall>p \<in> ps. lt_holder t p = None) \<longrightarrow>
     (\<exists>t'. body t = Some ((), t') \<and> locks_ok t' \<and> lt_holder t' = lt_holder t))"

lemma returns_locksD:
  "returns_locks ps body \<Longrightarrow> locks_ok t \<Longrightarrow> \<forall>p \<in> ps. lt_holder t p = None \<Longrightarrow>
    \<exists>t'. body t = Some ((), t') \<and> lt_holder t' = lt_holder t"
  unfolding returns_locks_def by blast

lemma returns_enter: "returns_locks {path} (with_lock path no_locks)"
  using enter_exit by (auto simp: returns_locks_def)

lemma returns_with:
  assumes "returns_locks ps body" and "path \<notin> ps"
  shows "returns_locks (insert path ps) (with_lock path body)"
  unfolding returns_locks_def
proof (intro allI impI)
  fix t assume t: "locks_ok t \<and> (\<forall>p \<in> insert path ps. lt_holder t p = None)"
  then obtain t1 where t1: "lock_enter path t = Some (lt_next t, t1)" "lt_holder t1 = (lt_holder t)(path := Some (lt_next t))"
    using enter_free [of t path] by auto
  have ok: "locks_ok t1" using enter_ok t t1(1) by blast
  then obtain t2 where t2: "body t1 = Some ((), t2)" "locks_ok t2" "lt_holder t2 = lt_holder t1"
    using assms t t1(2) unfolding returns_locks_def by (metis fun_upd_apply insertCI)
  then show "\<exists>t'. with_lock path body t = Some ((), t') \<and> locks_ok t' \<and> lt_holder t' = lt_holder t"
    using t t1 exit_ok [OF t2(2)] by (auto simp: with_lock_def fun_eq_iff)
qed

lemma returns_then: "returns_locks ps b \<Longrightarrow> returns_locks qs c \<Longrightarrow> returns_locks (ps \<union> qs) (then_locks b c)"
  unfolding returns_locks_def then_locks_def by fastforce

lemmas lock_skeletons = is_owner_locks_def mark_failed_locks_def commit_locks_def settle_locks_def boundary_locks_def
  store_block_def lease_block_def journal_block_def audit_block_def intent_block_def result_block_def recon_block_def

lemma mark_failed_returns:
  "store_lock \<noteq> lease_lock \<Longrightarrow> returns_locks ({lease_lock} \<union> insert store_lock {lease_lock}) (mark_failed_locks store_lock lease_lock)"
  unfolding lock_skeletons by (intro returns_then returns_enter returns_with) simp

lemma commit_returns:
  assumes "store_lock \<notin> {lock_name a, lock_name j}"
  shows "returns_locks ({lock_name j} \<union> ({lock_name j} \<union> insert store_lock ({lock_name a} \<union> {lock_name j}))) (commit_locks store_lock a j)"
  unfolding lock_skeletons by (intro returns_then returns_enter returns_with) (use assms in auto)

lemma settle_returns:
  assumes "lease_lock \<notin> {lock_name r, lock_name i}"
  shows "returns_locks (insert lease_lock ({lock_name r} \<union> {lock_name i})) (settle_locks lease_lock r i)"
  unfolding lock_skeletons by (intro returns_then returns_enter returns_with) (use assms in auto)

lemma boundary_returns: "returns_locks ({lock_name r} \<union> {lock_name i}) (boundary_locks r i)"
  unfolding lock_skeletons by (intro returns_then returns_enter)

text \<open>
  C34. Marking a failure under a coordinated lease store waits for ever. If the commit coordinator has
  pointed the lease store's lock at the execution store's, \<^verbatim>\<open>mark_failed\<close> enters that lock file
  a second time from inside its own block, through a new handle, and nobody but itself could release
  it. With a lock file of its own for the lease store it returns and leaves the locks as they were.
  Commits, the settling of an intent and boundary commits nest only different lock files and return
  under either wiring.
\<close>

theorem mark_failed_waits_for_itself:
  assumes "locks_ok t"
    and "\<forall>l \<in> {store_lock, lease_lock, lock_name audit, lock_name journal, lock_name recon, lock_name intents, lock_name results}.
      lt_holder t l = None"
    and "{store_lock, lease_lock} \<inter> {lock_name audit, lock_name journal, lock_name recon, lock_name intents} = {}"
    and "wired = coordinated_lease_lock coordinated store_lock lease_lock" and "store_lock \<noteq> lease_lock"
  shows "(mark_failed_locks store_lock wired t = None \<longleftrightarrow> coordinated)
    \<and> (\<forall>body \<in> {commit_locks store_lock audit journal, settle_locks wired recon intents, boundary_locks results intents}.
        \<exists>t'. body t = Some ((), t') \<and> lt_holder t' = lt_holder t)"
proof -
  have free: "lt_holder t store_lock = None" "lt_holder t lease_lock = None" using assms(2) by simp_all
  have own: "mark_failed_locks store_lock store_lock t = None"
  proof -
    obtain t1 where t1: "with_lock store_lock no_locks t = Some ((), t1)" "locks_ok t1" "lt_holder t1 = lt_holder t"
      using enter_exit [OF assms(1) free(1)] by blast
    obtain h t2 where t2: "lock_enter store_lock t1 = Some (h, t2)"
      using enter_free [of t1 store_lock] t1(3) free(1) by auto
    have "lock_enter store_lock t2 = None"
      using enter_blocks [OF enter_ok [OF t1(2) t2]] t2 by (auto simp: lock_enter_eq)
    then have "with_lock store_lock no_locks t2 = None" by (simp add: with_lock_def)
    then show ?thesis using t1(1) t2 by (simp add: lock_skeletons then_locks_def with_lock_def [of _ "with_lock _ _"])
  qed
  have "\<exists>t'. mark_failed_locks store_lock lease_lock t = Some ((), t')"
    using mark_failed_returns [OF assms(5)] assms(1) free unfolding returns_locks_def by blast
  then have mark: "mark_failed_locks store_lock wired t = None \<longleftrightarrow> coordinated"
    using own assms(4) by (auto simp: coordinated_lease_lock_def)
  have wired: "wired \<notin> {lock_name recon, lock_name intents}" "lt_holder t wired = None"
    using assms(3,4) free by (auto simp: coordinated_lease_lock_def)
  have "store_lock \<notin> {lock_name audit, lock_name journal}" using assms(3) by auto
  from returns_locksD [OF commit_returns [OF this] assms(1)]
  have c: "\<exists>t'. commit_locks store_lock audit journal t = Some ((), t') \<and> lt_holder t' = lt_holder t" using assms(2) by simp
  from returns_locksD [OF settle_returns [OF wired(1)] assms(1)]
  have s: "\<exists>t'. settle_locks wired recon intents t = Some ((), t') \<and> lt_holder t' = lt_holder t"
    using assms(2) wired(2) by simp
  from returns_locksD [OF boundary_returns assms(1)]
  have b: "\<exists>t'. boundary_locks results intents t = Some ((), t') \<and> lt_holder t' = lt_holder t" using assms(2) by simp
  show ?thesis using mark c s b by simp
qed

theorem mark_failed_waits_for_itself_witness:
  "mark_failed_locks (store_lock_path None ''executions.json'')
     (coordinated_lease_lock True (store_lock_path None ''executions.json'') (lease_lock_path None ''execution_leases.json''))
     sample_locks = None"
proof -
  let ?s = "store_lock_path None ''executions.json''" and ?l = "lease_lock_path None ''execution_leases.json''"
  have d: "{?s, ?l} \<inter> {lock_name ''execution_audit.jsonl'', lock_name ''execution_commits.jsonl'',
      lock_name ''reconciliation_journal.json'', lock_name ''tool_intents.json''} = {}" "?s \<noteq> ?l"
    by (simp_all add: store_lock_path_def lease_lock_path_def lock_name_def)
  from mark_failed_waits_for_itself [OF sample_locks_ok(1) _ d(1) refl d(2), of "''tool_results.json''" True] sample_locks_ok(2)
  show ?thesis by simp
qed

end
