(* ===== verification/Durable_Files.thy ===== *)
theory Durable_Files
  imports Prelude
begin

text \<open>
  How the stores replace a file: \<^verbatim>\<open>_write\<close> of \<^verbatim>\<open>runtime/execution_store.py\<close>,
  \<^verbatim>\<open>runtime/execution_lease.py\<close>, \<^verbatim>\<open>runtime/tool_intent_store.py\<close> and
  \<^verbatim>\<open>runtime/reconciliation_journal.py\<close>, \<^verbatim>\<open>_rewrite_unlocked\<close> of
  \<^verbatim>\<open>runtime/recovery_queue.py\<close>, the end of \<^verbatim>\<open>put_if_absent\<close>
  (\<^verbatim>\<open>runtime/tool_idempotency_store.py\<close>) and of \<^verbatim>\<open>_mark\<close>
  (\<^verbatim>\<open>runtime/execution_commit.py\<close>). All write a temporary file, force it to the disk and
  rename it over the old one; they differ in whether they force the directory to the disk as well, and
  whether they remove the temporary file when an operation raises. The other theories take such a write
  as one step; here it is a sequence of file system calls, and the process or the machine may stop
  between any two.
\<close>

section \<open>The file system\<close>

text \<open>
  A name leads to an inode, an inode has contents. \<open>fs_names\<close> and \<open>in_data\<close> are what
  programs see; \<open>in_synced\<close> says that the contents of the inode are on the disk, and
  \<open>fs_dirs\<close> lists the states the directory has been in since it was last forced to the disk:
  the disk has one of them.
\<close>

type_synonym names = "string \<Rightarrow> nat option"

record inode =
  in_data :: string
  in_synced :: bool

record fs =
  fs_names :: names
  fs_dirs :: "names list"
  fs_inodes :: "nat \<Rightarrow> inode"
  fs_next :: nat

definition read_text :: "fs \<Rightarrow> string \<Rightarrow> string option" where
  "read_text s n = map_option (\<lambda>i. in_data (fs_inodes s i)) (fs_names s n)"

datatype fs_op =
    Open_W string
  | Put string string
  | Fsync string
  | Replace string string
  | Fsync_Dir

definition set_inode :: "nat \<Rightarrow> inode \<Rightarrow> fs \<Rightarrow> fs" where
  "set_inode i d s = s\<lparr>fs_inodes := (fs_inodes s)(i := d)\<rparr>"

definition set_names :: "names \<Rightarrow> fs \<Rightarrow> fs" where
  "set_names ns s = s\<lparr>fs_names := ns, fs_dirs := ns # fs_dirs s\<rparr>"

text \<open>
  \<^verbatim>\<open>open(n, "w")\<close> truncates the file or makes a new one; a write adds to it;
  \<^verbatim>\<open>os.fsync\<close> on a file puts its contents on the disk, on a directory the names.
\<close>

fun fs_do :: "fs_op \<Rightarrow> fs \<Rightarrow> fs" where
  "fs_do (Open_W n) s =
     (case fs_names s n of
        Some i \<Rightarrow> set_inode i \<lparr>in_data = [], in_synced = False\<rparr> s
      | None \<Rightarrow> set_inode (fs_next s) \<lparr>in_data = [], in_synced = False\<rparr>
          (set_names ((fs_names s)(n := Some (fs_next s))) (s\<lparr>fs_next := Suc (fs_next s)\<rparr>)))"
| "fs_do (Put n txt) s =
     (case fs_names s n of
        Some i \<Rightarrow> set_inode i \<lparr>in_data = in_data (fs_inodes s i) @ txt, in_synced = False\<rparr> s
      | None \<Rightarrow> s)"
| "fs_do (Fsync n) s =
     (case fs_names s n of
        Some i \<Rightarrow> set_inode i ((fs_inodes s i)\<lparr>in_synced := True\<rparr>) s
      | None \<Rightarrow> s)"
| "fs_do (Replace a b) s =
     (case fs_names s a of
        Some i \<Rightarrow> set_names ((fs_names s)(b := Some i, a := None)) s
      | None \<Rightarrow> s)"
| "fs_do Fsync_Dir s = s\<lparr>fs_dirs := [fs_names s]\<rparr>"

definition fs_run :: "fs_op list \<Rightarrow> fs \<Rightarrow> fs" where
  "fs_run ops s = fold fs_do ops s"

definition unlink :: "string \<Rightarrow> fs \<Rightarrow> fs" where
  "unlink n s = set_names ((fs_names s)(n := None)) s"

text \<open>
  The machine stops and starts again: the directory is in one of the states it may have on the disk,
  and contents that were not forced to the disk may have become anything.
\<close>

definition power_loss :: "fs \<Rightarrow> fs \<Rightarrow> bool" where
  "power_loss s s' \<longleftrightarrow> fs_names s' \<in> set (fs_dirs s) \<and> fs_dirs s' = [fs_names s'] \<and> fs_next s' = fs_next s
     \<and> (\<forall>i. in_synced (fs_inodes s i) \<longrightarrow> fs_inodes s' i = fs_inodes s i)"

section \<open>Writing a file\<close>

text \<open>\<open>wr_dir\<close>: the directory is synced; \<open>wr_finally\<close>: the temporary file is removed.\<close>

record writer =
  wr_dir :: bool
  wr_finally :: bool

definition store_writer :: writer where
  "store_writer = \<lparr>wr_dir = True, wr_finally = True\<rparr>"

definition lease_writer :: writer where
  "lease_writer = \<lparr>wr_dir = True, wr_finally = True\<rparr>"

definition mark_writer :: writer where
  "mark_writer = \<lparr>wr_dir = True, wr_finally = False\<rparr>"

definition intent_writer :: writer where
  "intent_writer = \<lparr>wr_dir = False, wr_finally = False\<rparr>"

definition recon_writer :: writer where
  "recon_writer = \<lparr>wr_dir = False, wr_finally = False\<rparr>"

definition result_writer :: writer where
  "result_writer = \<lparr>wr_dir = False, wr_finally = False\<rparr>"

definition queue_writer :: writer where
  "queue_writer = \<lparr>wr_dir = False, wr_finally = False\<rparr>"

text \<open>The calls of a write; \<open>chunks\<close> are the pieces in which the text reaches the file.\<close>

definition tmp_name :: "string \<Rightarrow> string" where
  "tmp_name path = path @ ''.tmp''"

definition write_ops :: "writer \<Rightarrow> string \<Rightarrow> string list \<Rightarrow> fs_op list" where
  "write_ops wr path chunks =
     Open_W (tmp_name path) # map (Put (tmp_name path)) chunks
       @ [Fsync (tmp_name path), Replace (tmp_name path) path] @ (if wr_dir wr then [Fsync_Dir] else [])"

text \<open>
  A write up to its \<open>k\<close>th call. If that call raises \<^verbatim>\<open>OSError\<close>, the
  \<^verbatim>\<open>finally\<close> clause runs: \<^verbatim>\<open>if tmp.exists(): tmp.unlink()\<close>.
\<close>

definition write_upto :: "writer \<Rightarrow> nat \<Rightarrow> string \<Rightarrow> string list \<Rightarrow> fs \<Rightarrow> fs" where
  "write_upto wr k path chunks s = fs_run (take k (write_ops wr path chunks)) s"

definition write_raises :: "writer \<Rightarrow> nat \<Rightarrow> string \<Rightarrow> string list \<Rightarrow> fs \<Rightarrow> fs" where
  "write_raises wr k path chunks s =
     (let s1 = write_upto wr k path chunks s
      in if wr_finally wr \<and> fs_names s1 (tmp_name path) \<noteq> None then unlink (tmp_name path) s1 else s1)"

definition write_all :: "writer \<Rightarrow> string \<Rightarrow> string list \<Rightarrow> fs \<Rightarrow> fs" where
  "write_all wr path chunks s = write_upto wr (length (write_ops wr path chunks)) path chunks s"

text \<open>
  What can happen to a file: a write that completes; one that raises at its \<open>k\<close>th call; one whose
  process dies there; one that a power loss stops there; a power loss between writes.
\<close>

datatype disk_event =
    Written "string list"
  | Raised nat "string list"
  | Killed nat "string list"
  | Cut_Off nat "string list"
  | Power_Loss

inductive disk_step :: "writer \<Rightarrow> string \<Rightarrow> disk_event \<Rightarrow> fs \<Rightarrow> fs \<Rightarrow> bool" for wr path where
  written: "disk_step wr path (Written c) s (write_all wr path c s)"
| raised: "disk_step wr path (Raised k c) s (write_raises wr k path c s)"
| killed: "disk_step wr path (Killed k c) s (write_upto wr k path c s)"
| cut_off: "power_loss (write_upto wr k path c s) s' \<Longrightarrow> disk_step wr path (Cut_Off k c) s s'"
| lost: "power_loss s s' \<Longrightarrow> disk_step wr path Power_Loss s s'"

inductive_cases disk_stepE: "disk_step wr path e s s'"

inductive disk_run :: "writer \<Rightarrow> string \<Rightarrow> disk_event list \<Rightarrow> fs \<Rightarrow> fs \<Rightarrow> bool" for wr path where
  done_run: "disk_run wr path [] s s"
| step_run: "disk_step wr path e s s1 \<Longrightarrow> disk_run wr path es s1 s' \<Longrightarrow> disk_run wr path (e # es) s s'"

end
