(* ===== verification/Durable_Files_Spec.thy ===== *)
theory Durable_Files_Spec
  imports Durable_Files
begin

text \<open>
  What replacing a file guarantees: at every moment, and after every crash, the file holds one whole
  version; and which versions a power loss can bring back.
\<close>

section \<open>The invariant\<close>

text \<open>
  In every state the directory may have on the disk, the file leads to a complete version out of
  \<open>vs\<close> that is on the disk, and the temporary file, then or now, is not that file.
\<close>

definition version_at :: "string \<Rightarrow> string set \<Rightarrow> fs \<Rightarrow> names \<Rightarrow> bool" where
  "version_at path vs s d \<longleftrightarrow> (\<forall>n i. d n = Some i \<longrightarrow> i < fs_next s)
     \<and> (\<exists>i. d path = Some i \<and> in_synced (fs_inodes s i) \<and> in_data (fs_inodes s i) \<in> vs
         \<and> d (tmp_name path) \<noteq> Some i \<and> fs_names s (tmp_name path) \<noteq> Some i)"

definition file_ok :: "string \<Rightarrow> string set \<Rightarrow> fs \<Rightarrow> bool" where
  "file_ok path vs s \<longleftrightarrow> fs_names s \<in> set (fs_dirs s) \<and> (\<forall>d \<in> set (fs_dirs s). version_at path vs s d)"

definition writing :: "string \<Rightarrow> string set \<Rightarrow> string \<Rightarrow> bool \<Rightarrow> fs \<Rightarrow> bool" where
  "writing path vs txt1 synced s \<longleftrightarrow> file_ok path vs s
     \<and> (\<exists>j. fs_names s (tmp_name path) = Some j \<and> in_data (fs_inodes s j) = txt1 \<and> (synced \<longrightarrow> in_synced (fs_inodes s j)))"

lemma tmp_other [simp]: "tmp_name path \<noteq> path" "path \<noteq> tmp_name path"
  by (simp_all add: tmp_name_def)

lemma file_ok_reads: "file_ok path vs s \<Longrightarrow> \<exists>v \<in> vs. read_text s path = Some v"
  by (auto simp: file_ok_def version_at_def read_text_def)

lemma file_ok_mono: "file_ok path vs s \<Longrightarrow> vs \<subseteq> ws \<Longrightarrow> file_ok path ws s"
  unfolding file_ok_def version_at_def by blast

text \<open>The inode of the temporary file may change at will.\<close>

lemma file_ok_set_inode:
  assumes "file_ok path vs s" and "fs_names s (tmp_name path) = Some j"
  shows "file_ok path vs (set_inode j d s)" "read_text (set_inode j d s) path = read_text s path"
proof -
  have "version_at path vs (set_inode j d s) ns" if "version_at path vs s ns" for ns
    using that assms(2) unfolding version_at_def set_inode_def by force
  then show "file_ok path vs (set_inode j d s)" using assms(1) by (simp add: file_ok_def set_inode_def)
  have "version_at path vs s (fs_names s)" using assms(1) by (simp add: file_ok_def)
  then show "read_text (set_inode j d s) path = read_text s path"
    using assms(2) by (auto simp: version_at_def read_text_def set_inode_def)
qed

lemma open_ok:
  assumes "file_ok path vs s"
  shows "writing path vs [] False (fs_do (Open_W (tmp_name path)) s)
    \<and> read_text (fs_do (Open_W (tmp_name path)) s) path = read_text s path"
proof (cases "fs_names s (tmp_name path)")
  case (Some j)
  then show ?thesis using file_ok_set_inode [OF assms Some] by (simp add: writing_def set_inode_def)
next
  case None
  let ?t = "set_names ((fs_names s)(tmp_name path := Some (fs_next s))) (s\<lparr>fs_next := Suc (fs_next s)\<rparr>)"
  have "version_at path vs ?t d" if "version_at path vs s d" for d
    using that unfolding version_at_def set_names_def by (auto intro: less_SucI)
  moreover have "version_at path vs ?t (fs_names ?t)" if "version_at path vs s (fs_names s)"
    using that unfolding version_at_def set_names_def by (auto intro: less_SucI)
  ultimately have ok: "file_ok path vs ?t" using assms by (simp add: file_ok_def set_names_def)
  have "read_text ?t path = read_text s path" by (simp add: read_text_def set_names_def)
  then show ?thesis using None file_ok_set_inode [OF ok, of "fs_next s"]
    by (simp add: writing_def) (simp add: set_inode_def set_names_def)
qed

lemma put_chunk_ok:
  assumes "writing path vs txt1 b s"
  shows "writing path vs (txt1 @ c) False (fs_do (Put (tmp_name path) c) s)
    \<and> read_text (fs_do (Put (tmp_name path) c) s) path = read_text s path"
  using assms file_ok_set_inode by (auto simp: writing_def) (auto simp: set_inode_def)

lemma puts_ok:
  assumes "writing path vs txt1 False s"
  shows "writing path vs (txt1 @ concat cs) False (fs_run (map (Put (tmp_name path)) cs) s)
    \<and> read_text (fs_run (map (Put (tmp_name path)) cs) s) path = read_text s path"
  using assms
proof (induction cs arbitrary: txt1 s)
  case Nil
  then show ?case by (simp add: fs_run_def)
next
  case (Cons c cs)
  from put_chunk_ok [OF Cons.prems, of c] Cons.IH [of "txt1 @ c" "fs_do (Put (tmp_name path) c) s"]
  show ?case by (simp add: fs_run_def)
qed

lemma fsync_ok:
  assumes "writing path vs txt1 b s"
  shows "writing path vs txt1 True (fs_do (Fsync (tmp_name path)) s)
    \<and> read_text (fs_do (Fsync (tmp_name path)) s) path = read_text s path"
  using assms file_ok_set_inode by (auto simp: writing_def) (auto simp: set_inode_def)

lemma replace_ok:
  assumes "writing path vs txt1 True s"
  shows "file_ok path (insert txt1 vs) (fs_do (Replace (tmp_name path) path) s)
    \<and> read_text (fs_do (Replace (tmp_name path) path) s) path = Some txt1
    \<and> fs_names (fs_do (Replace (tmp_name path) path) s) (tmp_name path) = None"
proof -
  obtain j where j: "fs_names s (tmp_name path) = Some j" "in_data (fs_inodes s j) = txt1" "in_synced (fs_inodes s j)"
    and ok: "file_ok path vs s" using assms by (auto simp: writing_def)
  let ?t = "set_names ((fs_names s)(path := Some j, tmp_name path := None)) s"
  have lt: "\<forall>n i. fs_names s n = Some i \<longrightarrow> i < fs_next s" using ok by (auto simp: file_ok_def version_at_def)
  have "version_at path (insert txt1 vs) ?t d" if "version_at path vs s d" for d
    using that unfolding version_at_def set_names_def by auto
  moreover have "version_at path (insert txt1 vs) ?t (fs_names ?t)"
    using j lt unfolding version_at_def set_names_def by (auto split: if_splits)
  ultimately have "file_ok path (insert txt1 vs) ?t" using ok by (simp add: file_ok_def set_names_def)
  then show ?thesis using j by (simp add: read_text_def set_names_def)
qed

lemma dir_sync_ok:
  assumes "file_ok path vs s" and "read_text s path = Some v"
  shows "file_ok path {v} (fs_do Fsync_Dir s) \<and> read_text (fs_do Fsync_Dir s) path = Some v"
  using assms by (auto simp: file_ok_def version_at_def read_text_def)

lemma power_loss_ok:
  assumes "file_ok path vs s" and "power_loss s s'"
  shows "file_ok path vs s'"
proof -
  have "version_at path vs s (fs_names s')" using assms by (auto simp: file_ok_def power_loss_def)
  then obtain i where "fs_names s' path = Some i" "in_synced (fs_inodes s i)" "in_data (fs_inodes s i) \<in> vs"
    "fs_names s' (tmp_name path) \<noteq> Some i" "\<forall>n i. fs_names s' n = Some i \<longrightarrow> i < fs_next s"
    by (auto simp: version_at_def)
  then show ?thesis using assms(2) by (auto simp: file_ok_def version_at_def power_loss_def)
qed

lemma unlink_ok:
  assumes "file_ok path vs s"
  shows "file_ok path vs (unlink (tmp_name path) s)"
proof -
  have "version_at path vs (unlink (tmp_name path) s) d" if "version_at path vs s d" for d
    using that unfolding version_at_def unlink_def set_names_def by auto
  moreover have "version_at path vs (unlink (tmp_name path) s) (fs_names (unlink (tmp_name path) s))"
    if "version_at path vs s (fs_names s)"
    using that unfolding version_at_def unlink_def set_names_def by auto
  ultimately show ?thesis using assms by (simp add: file_ok_def unlink_def set_names_def)
qed

section \<open>A write, wherever it stops\<close>

lemma fs_run_simps [simp]:
  "fs_run [] s = s" "fs_run (op # ops) s = fs_run ops (fs_do op s)" "fs_run (ops @ ops') s = fs_run ops' (fs_run ops s)"
  by (simp_all add: fs_run_def)

lemma take_write_ops:
  "take k (write_ops wr path chunks) =
    (if k = 0 then []
     else if k \<le> length chunks + 1 then Open_W (tmp_name path) # map (Put (tmp_name path)) (take (k - 1) chunks)
     else if k = length chunks + 2 then Open_W (tmp_name path) # map (Put (tmp_name path)) chunks @ [Fsync (tmp_name path)]
     else Open_W (tmp_name path) # map (Put (tmp_name path)) chunks @ [Fsync (tmp_name path), Replace (tmp_name path) path]
       @ (if wr_dir wr \<and> k \<noteq> length chunks + 3 then [Fsync_Dir] else []))"
proof (cases k)
  case (Suc m)
  have "m \<le> length chunks \<or> m = length chunks + 1 \<or> m = length chunks + 2 \<or> (\<exists>n. m = length chunks + (n + 3))"
    by presburger
  then consider "m \<le> length chunks" | "m = length chunks + 1" | "m = length chunks + 2" | n where "m = length chunks + (n + 3)"
    by blast
  then show ?thesis using Suc by cases (auto simp: write_ops_def take_map)
qed simp

text \<open>The state right before the rename.\<close>

definition before_replace :: "string \<Rightarrow> string list \<Rightarrow> fs \<Rightarrow> fs" where
  "before_replace path chunks s =
     fs_run (Open_W (tmp_name path) # map (Put (tmp_name path)) chunks @ [Fsync (tmp_name path)]) s"

lemma before_replace_ok:
  assumes "file_ok path vs s"
  shows "writing path vs (concat chunks) True (before_replace path chunks s)
    \<and> read_text (before_replace path chunks s) path = read_text s path"
  using open_ok [OF assms] puts_ok [of path vs "[]" "fs_do (Open_W (tmp_name path)) s" chunks]
    fsync_ok [of path vs "concat chunks" False "fs_run (map (Put (tmp_name path)) chunks) (fs_do (Open_W (tmp_name path)) s)"]
  by (simp add: before_replace_def del: fs_do.simps)

lemma write_before:
  assumes "file_ok path vs s" and "k \<le> length chunks + 2"
  shows "file_ok path vs (write_upto wr k path chunks s) \<and> read_text (write_upto wr k path chunks s) path = read_text s path"
proof -
  consider "k = 0" | "k \<noteq> 0" "k \<le> length chunks + 1" | "k = length chunks + 2" using assms(2) by linarith
  then show ?thesis
  proof cases
    case 1
    then show ?thesis using assms(1) by (simp add: write_upto_def)
  next
    case 2
    then show ?thesis
      using open_ok [OF assms(1)] puts_ok [of path vs "[]" "fs_do (Open_W (tmp_name path)) s" "take (k - 1) chunks"]
      by (simp add: write_upto_def take_write_ops writing_def del: fs_do.simps)
  next
    case 3
    then show ?thesis
      using before_replace_ok [OF assms(1), of chunks]
      by (simp add: write_upto_def take_write_ops before_replace_def writing_def del: fs_do.simps)
  qed
qed

lemma write_after:
  assumes "file_ok path vs s" and "length chunks + 3 \<le> k"
  shows "file_ok path (insert (concat chunks) vs) (write_upto wr k path chunks s)
    \<and> read_text (write_upto wr k path chunks s) path = Some (concat chunks)
    \<and> fs_names (write_upto wr k path chunks s) (tmp_name path) = None
    \<and> (wr_dir wr \<and> k \<noteq> length chunks + 3 \<longrightarrow> file_ok path {concat chunks} (write_upto wr k path chunks s))"
proof -
  let ?r = "fs_do (Replace (tmp_name path) path) (before_replace path chunks s)"
  have r: "file_ok path (insert (concat chunks) vs) ?r" "read_text ?r path = Some (concat chunks)"
      "fs_names ?r (tmp_name path) = None"
    using replace_ok before_replace_ok [OF assms(1), of chunks] by blast+
  have w: "write_upto wr k path chunks s = (if wr_dir wr \<and> k \<noteq> length chunks + 3 then fs_do Fsync_Dir ?r else ?r)"
    using assms(2) by (simp add: write_upto_def take_write_ops before_replace_def del: fs_do.simps)
  show ?thesis
  proof (cases "wr_dir wr \<and> k \<noteq> length chunks + 3")
    case True
    have d: "file_ok path {concat chunks} (fs_do Fsync_Dir ?r)" "read_text (fs_do Fsync_Dir ?r) path = Some (concat chunks)"
      using dir_sync_ok [OF r(1,2)] by blast+
    then show ?thesis using w True r(3) file_ok_mono [OF d(1)] by simp
  next
    case False
    then have "write_upto wr k path chunks s = ?r" using w by (simp only: if_False)
    then show ?thesis using r False by (simp only:) simp
  qed
qed

lemma write_all_ok:
  assumes "file_ok path vs s"
  shows "file_ok path (if wr_dir wr then {concat chunks} else insert (concat chunks) vs) (write_all wr path chunks s)
    \<and> read_text (write_all wr path chunks s) path = Some (concat chunks)"
  using write_after [OF assms, of chunks "length (write_ops wr path chunks)" wr]
  by (simp add: write_all_def write_ops_def split: if_splits)

lemma write_upto_ok:
  assumes "file_ok path vs s"
  shows "file_ok path (insert (concat chunks) vs) (write_upto wr k path chunks s)"
proof (cases "k \<le> length chunks + 2")
  case True
  then show ?thesis using write_before [OF assms True] file_ok_mono by blast
next
  case False
  then show ?thesis using write_after [OF assms, of chunks k] by simp
qed

lemma write_raises_ok:
  assumes "file_ok path vs s"
  shows "file_ok path (insert (concat chunks) vs) (write_raises wr k path chunks s)"
  using write_upto_ok [OF assms] unlink_ok by (simp add: write_raises_def Let_def)

lemma fs_do_dirs: "op \<noteq> Fsync_Dir \<Longrightarrow> set (fs_dirs s) \<subseteq> set (fs_dirs (fs_do op s))"
  by (cases op) (auto simp: set_inode_def set_names_def split: option.split)

lemma fs_run_dirs: "Fsync_Dir \<notin> set ops \<Longrightarrow> set (fs_dirs s) \<subseteq> set (fs_dirs (fs_run ops s))"
proof (induction ops arbitrary: s)
  case (Cons op ops)
  then show ?case using fs_do_dirs [of op s] by (auto simp del: fs_do.simps)
qed simp

lemma before_replace_dirs: "set (fs_dirs s) \<subseteq> set (fs_dirs (before_replace path chunks s))"
  unfolding before_replace_def by (rule fs_run_dirs) auto

section \<open>Properties\<close>

text \<open>
  The versions a file can show after the given events, having one of \<open>vs\<close> at the start: a write
  that completes and syncs the directory leaves its own version only; every other write adds its own.
\<close>

fun versions :: "writer \<Rightarrow> string set \<Rightarrow> disk_event list \<Rightarrow> string set" where
  "versions wr vs [] = vs"
| "versions wr vs (Written c # es) = versions wr (if wr_dir wr then {concat c} else insert (concat c) vs) es"
| "versions wr vs (Raised k c # es) = versions wr (insert (concat c) vs) es"
| "versions wr vs (Killed k c # es) = versions wr (insert (concat c) vs) es"
| "versions wr vs (Cut_Off k c # es) = versions wr (insert (concat c) vs) es"
| "versions wr vs (Power_Loss # es) = versions wr vs es"

lemma versions_Cons: "versions wr (versions wr vs [e]) es = versions wr vs (e # es)"
  by (cases e) simp_all

lemma disk_step_ok:
  assumes "file_ok path vs s" and "disk_step wr path e s s1"
  shows "file_ok path (versions wr vs [e]) s1"
  using assms(2)
proof cases
  case (written c)
  then show ?thesis using write_all_ok [OF assms(1)] by simp
next
  case (raised k c)
  then show ?thesis using write_raises_ok [OF assms(1)] by simp
next
  case (killed k c)
  then show ?thesis using write_upto_ok [OF assms(1)] by simp
next
  case (cut_off k c)
  then show ?thesis using power_loss_ok [OF write_upto_ok [OF assms(1)]] by simp
next
  case lost
  then show ?thesis using power_loss_ok [OF assms(1)] by simp
qed

text \<open>
  C9. A store's file is never torn. Whatever happens to it, in any order: writes that complete, that
  raise, whose process dies or that lose power at any file system call, and power losses in between; the
  file exists and holds exactly one of the versions that were written, whole. After a write that synced
  the directory and completed, no version before it ever comes back. A write that raises before its
  rename leaves the version there was, and removes its temporary file where the code says so.
\<close>

theorem file_never_torn:
  assumes "file_ok path vs s" and "disk_run wr path es s s'"
  shows "(\<exists>v \<in> versions wr vs es. read_text s' path = Some v)
    \<and> (\<forall>k c. read_text (write_raises wr k path c s') path =
          (if k \<le> length c + 2 then read_text s' path else Some (concat c))
        \<and> (wr_finally wr \<longrightarrow> read_text (write_raises wr k path c s') (tmp_name path) = None))"
proof -
  have ok: "file_ok path (versions wr vs es) s'"
    using assms(2,1)
  proof (induction es arbitrary: s vs)
    case Nil
    then show ?case by (auto elim: disk_run.cases)
  next
    case (Cons e es)
    from Cons.prems(1) obtain s1 where s1: "disk_step wr path e s s1" "disk_run wr path es s1 s'"
      by (auto elim: disk_run.cases)
    show ?case using Cons.IH [OF s1(2) disk_step_ok [OF Cons.prems(2) s1(1)]] by (simp add: versions_Cons)
  qed
  have tmp: "read_text (write_raises wr k path c s') (tmp_name path) = None" if "wr_finally wr" for k c
    using that by (simp add: write_raises_def Let_def read_text_def unlink_def set_names_def)
  have "read_text (write_raises wr k path c s') path =
      (if k \<le> length c + 2 then read_text s' path else Some (concat c))" for k c
    using write_before [OF ok, of k c wr] write_after [OF ok, of c k wr]
    by (auto simp: write_raises_def Let_def read_text_def unlink_def set_names_def)
  then show ?thesis using file_ok_reads [OF ok] tmp by blast
qed

text \<open>A file of the execution store, written once.\<close>

definition sample_fs :: fs where
  "sample_fs = \<lparr>fs_names = [''executions.json'' \<mapsto> 0], fs_dirs = [[''executions.json'' \<mapsto> 0]],
     fs_inodes = (\<lambda>_. \<lparr>in_data = ''{}'', in_synced = True\<rparr>), fs_next = 1\<rparr>"

lemma sample_fs_ok: "file_ok ''executions.json'' {''{}''} sample_fs"
  by (simp add: file_ok_def version_at_def sample_fs_def tmp_name_def)

theorem file_never_torn_witness:
  "\<exists>s s'. write_all store_writer ''executions.json'' [''{1'', ''}''] sample_fs = s
     \<and> power_loss (write_upto store_writer 3 ''executions.json'' [''{2'', ''}''] s) s'
     \<and> (read_text s' ''executions.json'' = Some ''{1}'' \<or> read_text s' ''executions.json'' = Some ''{2}'')"
proof -
  let ?s = "write_all store_writer ''executions.json'' [''{1'', ''}''] sample_fs"
  let ?u = "write_upto store_writer 3 ''executions.json'' [''{2'', ''}''] ?s"
  let ?s' = "?u\<lparr>fs_names := hd (fs_dirs ?u), fs_dirs := [hd (fs_dirs ?u)]\<rparr>"
  have "file_ok ''executions.json'' {''{1}'', ''{2}''} ?u"
    using write_upto_ok [of _ "{''{1}''}" ?s "[''{2'', ''}'']"] write_all_ok [OF sample_fs_ok, of store_writer "[''{1'', ''}'']"]
    by (simp add: store_writer_def insert_commute)
  then have "fs_dirs ?u \<noteq> []" by (auto simp: file_ok_def)
  then have pl: "power_loss ?u ?s'" by (simp add: power_loss_def)
  have "disk_run store_writer ''executions.json'' [Written [''{1'', ''}''], Cut_Off 3 [''{2'', ''}'']] sample_fs ?s'"
    by (rule step_run [OF written step_run [OF cut_off [OF pl] done_run]])
  from file_never_torn [OF sample_fs_ok this] show ?thesis using pl by (auto simp: store_writer_def)
qed




end
