(* ===== verification/Concurrent_Executors.thy ===== *)
theory Concurrent_Executors
  imports Tool_Executor
begin

text \<open>
  Executions of one call that run at the same time: \<^verbatim>\<open>ToolExecutor.execute\<close>
  (\<^verbatim>\<open>runtime/tool_executor.py\<close>) in several processes that share the intent ledger and the result
  registry, for one idempotency key. An execution is a rival: it goes through the code of \<open>execute\<close>
  with one operation on a shared file per move, and between two moves the others may do theirs, time may
  pass, and a process may die. (The lock per key of \<^verbatim>\<open>_idempotent_locks\<close> and the cache of results
  belong to one executor object and do not reach another process.)
\<close>

section \<open>State\<close>

text \<open>
  What the rivals are given: the key, the life of a claim, and for each rival its call, the execution it
  works for, and the owner and token it has drawn.
\<close>

record contest =
  cn_key :: string
  cn_ttl :: int
  cn_call :: "nat \<Rightarrow> tool_call"
  cn_execution :: "nat \<Rightarrow> string option"
  cn_owner :: "nat \<Rightarrow> string"
  cn_token :: "nat \<Rightarrow> string"

text \<open>
  Where a rival is in \<^verbatim>\<open>execute\<close>: what it does next. \<open>Giving_Up\<close> will release the claim and then
  return its argument (or raise it), \<open>Finishing\<close> has recorded the outcome and will mark the intent.
\<close>

datatype rival =
    Looking | Preparing | Rechecking | Claiming | Refused | Late_Look
  | Launching | In_Tool
  | Giving_Up "tool_result result" | Recording tool_result | Finishing stored_result
  | Answered "tool_result result" | Crashed

text \<open>
  \<open>an_until\<close> is the end of the claim a rival was last granted, \<open>an_began\<close> lists the runs of the
  tool, and \<open>an_lost\<close> those that ended without finishing the intent.
\<close>

record arena =
  an_now :: time
  an_files :: bworld
  an_rival :: "nat \<Rightarrow> rival"
  an_until :: "nat \<Rightarrow> time"
  an_began :: "nat list"
  an_lost :: "nat list"

definition becomes :: "nat \<Rightarrow> rival \<Rightarrow> arena \<Rightarrow> arena" where
  "becomes p ph s = s\<lparr>an_rival := (an_rival s)(p := ph)\<rparr>"

definition loses :: "nat \<Rightarrow> arena \<Rightarrow> arena" where
  "loses p s = s\<lparr>an_lost := an_lost s @ [p]\<rparr>"

definition with_ledger :: "intent_file \<Rightarrow> arena \<Rightarrow> arena" where
  "with_ledger f s = s\<lparr>an_files := (an_files s)\<lparr>bw_intents := f\<rparr>\<rparr>"

definition with_registry :: "result_file \<Rightarrow> arena \<Rightarrow> arena" where
  "with_registry f s = s\<lparr>an_files := (an_files s)\<lparr>bw_results := f\<rparr>\<rparr>"

abbreviation ledger_of :: "arena \<Rightarrow> intent_file" where
  "ledger_of s \<equiv> bw_intents (an_files s)"

abbreviation registry_of :: "arena \<Rightarrow> result_file" where
  "registry_of s \<equiv> bw_results (an_files s)"

section \<open>The moves of a rival\<close>

definition stored_answer :: "tool_call \<Rightarrow> stored_result \<Rightarrow> tool_result result" where
  "stored_answer call stored =
     (if \<not> stored_matches_call stored call then
        Inl (Exc ToolBoundaryError ''idempotency key conflicts with stored tool call'')
      else Inr (result_of_stored call stored))"

definition refusal :: "tool_call \<Rightarrow> tool_result" where
  "refusal call = tool_failure call (Exc RuntimeError ''intent is already claimed'') False False"

definition committed_answer :: "tool_call \<Rightarrow> stored_result \<Rightarrow> bool \<Rightarrow> tool_result" where
  "committed_answer call stored committed =
     \<lparr>tr_call_id = tc_call_id call, tr_tool = tc_tool call, tr_ok = sr_ok stored, tr_value = sr_value stored,
      tr_error = sr_error stored, tr_retryable = False, tr_idempotency_key = tc_idempotency_key call,
      tr_ambiguous = (\<not> committed)\<rparr>"

text \<open>A look at the registry, with what to do when there is no outcome.\<close>

definition look_then :: "contest \<Rightarrow> nat \<Rightarrow> rival \<Rightarrow> arena \<Rightarrow> arena" where
  "look_then cn p none s =
     (case get_result (Some (cn_key cn)) (registry_of s) of
        Inl e \<Rightarrow> becomes p (Answered (Inl e)) s
      | Inr (Some stored) \<Rightarrow> becomes p (Answered (stored_answer (cn_call cn p) stored)) s
      | Inr None \<Rightarrow> becomes p none s)"

fun advance :: "contest \<Rightarrow> nat \<Rightarrow> rival \<Rightarrow> arena \<Rightarrow> arena" where
  "advance cn p Looking s = look_then cn p Preparing s"
| "advance cn p Preparing s =
     (case prepare (new_intent (cn_key cn) (tc_call_id (cn_call cn p)) (tc_tool (cn_call cn p))
                      (VDict (tc_arguments (cn_call cn p))) (cn_execution cn p) (an_now s)) (ledger_of s) of
        (Inl e, f) \<Rightarrow> becomes p (Answered (Inl e)) (with_ledger f s)
      | (Inr i, f) \<Rightarrow>
          becomes p (if terminal_state (ti_state i) then Rechecking else Claiming) (with_ledger f s))"
| "advance cn p Rechecking s = look_then cn p Claiming s"
| "advance cn p Claiming s =
     (case claim (cn_ttl cn) (cn_key cn) (cn_owner cn p) (cn_token cn p) (an_now s) (ledger_of s) of
        (Inl e, f) \<Rightarrow> becomes p (Answered (Inl e)) (with_ledger f s)
      | (Inr None, f) \<Rightarrow> becomes p Refused (with_ledger f s)
      | (Inr (Some i), f) \<Rightarrow>
          becomes p Launching (with_ledger f (s\<lparr>an_until := (an_until s)(p := an_now s + seconds (cn_ttl cn))\<rparr>)))"
| "advance cn p Refused s =
     (case get_intent (cn_key cn) (ledger_of s) of
        Inl e \<Rightarrow> becomes p (Answered (Inl e)) s
      | Inr current \<Rightarrow>
          becomes p (if current \<noteq> None \<and> terminal_state (ti_state (the current)) then Late_Look
                     else Answered (Inr (refusal (cn_call cn p)))) s)"
| "advance cn p Late_Look s = look_then cn p (Answered (Inr (refusal (cn_call cn p)))) s"
| "advance cn p Launching s = becomes p In_Tool (s\<lparr>an_began := an_began s @ [p]\<rparr>)"
| "advance cn p In_Tool s = s"
| "advance cn p (Giving_Up y) s =
     (case release_claim (cn_key cn) (cn_owner cn p) (cn_token cn p) ''ambiguous'' (ledger_of s) of
        (Inl e, f) \<Rightarrow> becomes p (Answered (Inl e)) (with_ledger f s)
      | (Inr b, f) \<Rightarrow> becomes p (Answered y) (with_ledger f s))"
| "advance cn p (Recording r) s =
     (case put_if_absent (report_result (report_of_call (cn_call cn p) r)) (registry_of s) of
        (Inl e, f) \<Rightarrow> loses p (becomes p (Answered (Inl e)) (with_registry f s))
      | (Inr stored, f) \<Rightarrow> becomes p (Finishing stored) (with_registry f s))"
| "advance cn p (Finishing stored) s =
     (case mark_claimed (opt_list (tc_idempotency_key (cn_call cn p))) (cn_owner cn p) (cn_token cn p)
             (terminal_of (sr_ok stored)) (an_now s) (ledger_of s) of
        (Inl e, f) \<Rightarrow> loses p (becomes p (Answered (Inl e)) (with_ledger f s))
      | (Inr None, f) \<Rightarrow>
          loses p (becomes p (Answered (Inr (committed_answer (cn_call cn p) stored False))) (with_ledger f s))
      | (Inr (Some i), f) \<Rightarrow>
          becomes p (Answered (Inr (committed_answer (cn_call cn p) stored True))) (with_ledger f s))"
| "advance cn p (Answered y) s = s"
| "advance cn p Crashed s = s"

text \<open>
  What becomes of a run: the tool returns a result (a timeout and an exception of the tool are results,
  \<open>Tool_Executor.execute_once\<close>), or the call is denied or cancelled. Only a cancellation gives the claim
  back; a result that is ambiguous or retryable does too.
\<close>

definition come_back :: "nat \<Rightarrow> tool_result result \<Rightarrow> arena \<Rightarrow> arena" where
  "come_back p y s =
     (case y of
        Inl e \<Rightarrow> loses p (becomes p (if isinst e [CancelledError] then Giving_Up y else Answered y) s)
      | Inr r \<Rightarrow>
          (if tr_ambiguous r \<or> tr_retryable r then loses p (becomes p (Giving_Up y) s)
           else becomes p (Recording r) s))"

text \<open>A rival holds a claim (or has held it) until it is through; its run is open until it is finished.\<close>

fun holding :: "rival \<Rightarrow> bool" where
  "holding Launching = True"
| "holding In_Tool = True"
| "holding (Giving_Up y) = True"
| "holding (Recording r) = True"
| "holding (Finishing r) = True"
| "holding _ = False"

fun run_open :: "rival \<Rightarrow> bool" where
  "run_open In_Tool = True"
| "run_open (Recording r) = True"
| "run_open (Finishing r) = True"
| "run_open _ = False"

section \<open>The contest\<close>

text \<open>
  \<open>Others\<close> and \<open>Others_Put\<close> are what everybody else does to the ledger and the registry (recovery
  workers, operators); \<open>Pass\<close> lets time pass.
\<close>

datatype contest_move =
    Advance nat
  | Come_Back nat "tool_result result"
  | Crash nat
  | Pass nat
  | Others intent_op
  | Others_Put stored_result

fun contest_step :: "contest \<Rightarrow> arena \<Rightarrow> contest_move \<Rightarrow> arena" where
  "contest_step cn s (Advance p) = advance cn p (an_rival s p) s"
| "contest_step cn s (Come_Back p y) = (if an_rival s p = In_Tool then come_back p y s else s)"
| "contest_step cn s (Crash p) =
     (if run_open (an_rival s p) then loses p (becomes p Crashed s) else becomes p Crashed s)"
| "contest_step cn s (Pass d) = s\<lparr>an_now := an_now s + int d\<rparr>"
| "contest_step cn s (Others e) = with_ledger (intent_step (cn_ttl cn) (ledger_of s) (an_now s, e)) s"
| "contest_step cn s (Others_Put r) = with_registry (snd (put_if_absent r (registry_of s))) s"

definition kick_off :: "time \<Rightarrow> bworld \<Rightarrow> arena" where
  "kick_off now w =
     \<lparr>an_now = now, an_files = w, an_rival = (\<lambda>_. Looking), an_until = (\<lambda>_. 0), an_began = [], an_lost = []\<rparr>"

text \<open>The states a contest can reach when every move obeys a rule.\<close>

inductive plays :: "(arena \<Rightarrow> contest_move \<Rightarrow> bool) \<Rightarrow> contest \<Rightarrow> arena \<Rightarrow> arena \<Rightarrow> bool"
  for ok cn s0 where
  begins: "plays ok cn s0 s0"
| moves: "plays ok cn s0 s \<Longrightarrow> ok s m \<Longrightarrow> plays ok cn s0 (contest_step cn s m)"

text \<open>
  Fair: the others do not act under a rival's claim, do not finish the intent from the reconciliation
  journal and do not reopen it. Timely: besides, no claim expires while its holder is at work.
\<close>

definition fair :: "contest \<Rightarrow> arena \<Rightarrow> contest_move \<Rightarrow> bool" where
  "fair cn s m \<longleftrightarrow>
     (case m of
        Others e \<Rightarrow> \<not> reopens (cn_key cn) e \<and> (\<forall>p. intrudes (cn_key cn) (cn_owner cn p) (cn_token cn p) e)
      | _ \<Rightarrow> True)"

definition timely :: "contest \<Rightarrow> arena \<Rightarrow> contest_move \<Rightarrow> bool" where
  "timely cn s m \<longleftrightarrow>
     fair cn s m \<and> (\<forall>d. m = Pass d \<longrightarrow> (\<forall>p. holding (an_rival s p) \<longrightarrow> an_now s + int d < an_until s p))"

text \<open>
  Every rival runs the call of the key; owners are drawn at random, here simply without collisions.
\<close>

definition contest_ok :: "contest \<Rightarrow> bool" where
  "contest_ok cn \<longleftrightarrow> cn_key cn \<noteq> [] \<and> 0 < cn_ttl cn \<and> inj (cn_owner cn)
     \<and> (\<forall>p. cn_owner cn p \<noteq> [] \<and> cn_token cn p \<noteq> [] \<and> tc_idempotency_key (cn_call cn p) = Some (cn_key cn))"

text \<open>One rival that makes all its moves while nobody else does, whose tool comes back with \<open>y\<close>.\<close>

fun solo :: "contest \<Rightarrow> nat \<Rightarrow> tool_result result \<Rightarrow> nat \<Rightarrow> arena \<Rightarrow> arena" where
  "solo cn p y 0 s = s"
| "solo cn p y (Suc n) s =
     solo cn p y n (contest_step cn s (if an_rival s p = In_Tool then Come_Back p y else Advance p))"

section \<open>Facts\<close>

lemma becomes_simps [simp]:
  "an_rival (becomes p ph s) = (an_rival s)(p := ph)" "an_now (becomes p ph s) = an_now s"
  "an_files (becomes p ph s) = an_files s" "an_until (becomes p ph s) = an_until s"
  "an_began (becomes p ph s) = an_began s" "an_lost (becomes p ph s) = an_lost s"
  by (simp_all add: becomes_def)

lemma loses_simps [simp]:
  "an_rival (loses p s) = an_rival s" "an_now (loses p s) = an_now s" "an_files (loses p s) = an_files s"
  "an_until (loses p s) = an_until s" "an_began (loses p s) = an_began s" "an_lost (loses p s) = an_lost s @ [p]"
  by (simp_all add: loses_def)

lemma with_simps [simp]:
  "an_rival (with_ledger f s) = an_rival s" "an_now (with_ledger f s) = an_now s"
  "ledger_of (with_ledger f s) = f" "registry_of (with_ledger f s) = registry_of s"
  "an_until (with_ledger f s) = an_until s" "an_began (with_ledger f s) = an_began s"
  "an_lost (with_ledger f s) = an_lost s"
  "an_rival (with_registry g s) = an_rival s" "an_now (with_registry g s) = an_now s"
  "ledger_of (with_registry g s) = ledger_of s" "registry_of (with_registry g s) = g"
  "an_until (with_registry g s) = an_until s" "an_began (with_registry g s) = an_began s"
  "an_lost (with_registry g s) = an_lost s"
  by (simp_all add: with_ledger_def with_registry_def)

lemma kick_off_simps [simp]:
  "an_rival (kick_off now w) = (\<lambda>_. Looking)" "an_now (kick_off now w) = now" "an_files (kick_off now w) = w"
  "an_until (kick_off now w) = (\<lambda>_. 0)" "an_began (kick_off now w) = []" "an_lost (kick_off now w) = []"
  by (simp_all add: kick_off_def)

lemma run_open_holding: "run_open ph \<Longrightarrow> holding ph"
  by (cases ph) simp_all

lemma look_then_cases:
  "look_then cn p none s = becomes p none s \<or> (\<exists>y. look_then cn p none s = becomes p (Answered y) s)"
  by (auto simp: look_then_def split: sum.split option.split)

text \<open>
  A move of a rival: one operation on the ledger (under the rival's claim, or preparing) or a put to the
  registry, or none; it changes only that rival.
\<close>

fun rival_ledger_op :: "contest \<Rightarrow> nat \<Rightarrow> time \<Rightarrow> rival \<Rightarrow> intent_op option" where
  "rival_ledger_op cn p now Preparing =
     Some (Prepare (new_intent (cn_key cn) (tc_call_id (cn_call cn p)) (tc_tool (cn_call cn p))
             (VDict (tc_arguments (cn_call cn p))) (cn_execution cn p) now))"
| "rival_ledger_op cn p now Claiming = Some (Claim (cn_key cn) (cn_owner cn p) (cn_token cn p))"
| "rival_ledger_op cn p now (Giving_Up y) =
     Some (Release (cn_key cn) (cn_owner cn p) (cn_token cn p) ''ambiguous'')"
| "rival_ledger_op cn p now (Finishing r) =
     Some (Mark_Claimed (opt_list (tc_idempotency_key (cn_call cn p))) (cn_owner cn p) (cn_token cn p)
             (terminal_of (sr_ok r)))"
| "rival_ledger_op cn p now _ = None"

lemma advance_ledger:
  "ledger_of (advance cn p ph s) =
     (case rival_ledger_op cn p (an_now s) ph of None \<Rightarrow> ledger_of s
      | Some e \<Rightarrow> intent_step (cn_ttl cn) (ledger_of s) (an_now s, e))"
  by (cases ph) (auto simp: look_then_def split: prod.split sum.split option.split)

lemma advance_now: "an_now (advance cn p ph s) = an_now s"
  by (cases ph) (auto simp: look_then_def split: prod.split sum.split option.split)

lemma advance_other: "q \<noteq> p \<Longrightarrow> an_rival (advance cn p ph s) q = an_rival s q"
  by (cases ph) (auto simp: look_then_def split: prod.split sum.split option.split)

lemma advance_until: "q \<noteq> p \<or> ph \<noteq> Claiming \<Longrightarrow> an_until (advance cn p ph s) q = an_until s q"
  by (cases ph) (auto simp: look_then_def split: prod.split sum.split option.split)

lemma advance_registry:
  "registry_of (advance cn p ph s) =
     (case ph of Recording r \<Rightarrow> snd (put_if_absent (report_result (report_of_call (cn_call cn p) r)) (registry_of s))
      | _ \<Rightarrow> registry_of s)"
  by (cases ph) (auto simp: look_then_def split: prod.split sum.split option.split)

end
