(* ===== verification/Concurrent_Executors_Spec.thy ===== *)
theory Concurrent_Executors_Spec
  imports Concurrent_Executors Executor_Spec
begin

text \<open>
  What executions of one call that run at the same time can do to each other: a claim keeps the others
  out as long as it lasts, definitive answers agree, and a call runs once if no claim expires under a
  run and no run is lost; and what happens otherwise.
\<close>

section \<open>The claim as the right to run\<close>

text \<open>A rival at work whose claim has not expired is the holder of the intent.\<close>

definition right_to_run :: "contest \<Rightarrow> arena \<Rightarrow> nat \<Rightarrow> bool" where
  "right_to_run cn s p \<longleftrightarrow>
     (\<exists>i. intent_at (ledger_of s) (cn_key cn) = Some i \<and> held_by (cn_owner cn p) (cn_token cn p) i
        \<and> ti_expires i = Some (an_until s p))"

definition claims_hold :: "contest \<Rightarrow> arena \<Rightarrow> bool" where
  "claims_hold cn s \<longleftrightarrow> ledger_ok (ledger_of s) \<and>
     (\<forall>p. holding (an_rival s p) \<and> an_now s < an_until s p \<longrightarrow> right_to_run cn s p)"

lemma claims_holdD:
  "claims_hold cn s \<Longrightarrow> holding (an_rival s p) \<Longrightarrow> an_now s < an_until s p \<Longrightarrow> right_to_run cn s p"
  by (simp add: claims_hold_def)

text \<open>One claim at a time.\<close>

lemma right_unique: "contest_ok cn \<Longrightarrow> right_to_run cn s p \<Longrightarrow> right_to_run cn s q \<Longrightarrow> p = q"
  by (auto simp: right_to_run_def contest_ok_def held_by_def inj_def)

lemma right_after:
  assumes "right_to_run cn s p" and "an_now s < an_until s p"
    and "intrudes (cn_key cn) (cn_owner cn p) (cn_token cn p) e"
    and "ledger_of s' = intent_step (cn_ttl cn) (ledger_of s) (an_now s, e)" and "an_until s' p = an_until s p"
  shows "right_to_run cn s' p"
proof -
  obtain i where i: "intent_at (ledger_of s) (cn_key cn) = Some i" "held_by (cn_owner cn p) (cn_token cn p) i"
      "ti_expires i = Some (an_until s p)"
    using assms(1) by (auto simp: right_to_run_def)
  then have "live_at (an_now s) i" using assms(2) by (simp add: live_at_def)
  with i claimed_step [OF i(1,2) this assms(3)] show ?thesis by (simp add: right_to_run_def assms(4,5))
qed

lemma right_same:
  "right_to_run cn s p \<Longrightarrow> ledger_of s' = ledger_of s \<Longrightarrow> an_until s' p = an_until s p \<Longrightarrow> right_to_run cn s' p"
  by (simp add: right_to_run_def)

text \<open>The operations of a rival intrude on every other one.\<close>

lemma rival_op_intrudes:
  "contest_ok cn \<Longrightarrow> q \<noteq> p \<Longrightarrow> rival_ledger_op cn p now ph = Some e \<Longrightarrow>
     intrudes (cn_key cn) (cn_owner cn q) (cn_token cn q) e"
  by (cases ph) (auto simp: intrudes_def contest_ok_def inj_def)

lemma rival_op_fresh: "rival_ledger_op cn p now ph = Some e \<Longrightarrow> \<not> reopens k e"
  by (cases ph) (auto simp: reopens_def)

lemma claim_grants:
  assumes "claim ttl k w t now f = (Inr (Some i), f')"
  shows "intent_at f' k = Some i \<and> held_by w t i \<and> ti_expires i = Some (now + seconds ttl)"
  using assms
  by (auto simp: claim_def Let_def held_by_def claimed_def split: if_splits sum.splits option.splits)

lemma own_move:
  assumes "holding (an_rival (advance cn p ph s) p)" and "an_rival s p = ph"
  shows "ph = Claiming \<and> right_to_run cn (advance cn p ph s) p
           \<and> an_until (advance cn p ph s) p = an_now s + seconds (cn_ttl cn)
    \<or> holding ph \<and> rival_ledger_op cn p (an_now s) ph = None"
  using assms
  by (cases ph)
    (auto simp: look_then_def right_to_run_def dest!: claim_grants split: prod.splits sum.splits option.splits if_splits)

lemma claims_hold_advance:
  assumes "contest_ok cn" and "claims_hold cn s"
  shows "claims_hold cn (advance cn p (an_rival s p) s)"
proof -
  let ?s = "advance cn p (an_rival s p) s"
  have led: "ledger_ok (ledger_of ?s)"
    using assms(2) intent_step_ok by (auto simp: claims_hold_def advance_ledger split: option.split)
  have "right_to_run cn ?s q" if h: "holding (an_rival ?s q)" "an_now ?s < an_until ?s q" for q
  proof (cases "q = p")
    case True
    with own_move [of cn p "an_rival s p" s] h(1)
    consider "right_to_run cn ?s p"
      | "an_rival s p \<noteq> Claiming" "holding (an_rival s p)" "rival_ledger_op cn p (an_now s) (an_rival s p) = None"
      by fastforce
    then show ?thesis
    proof cases
      case 1
      with True show ?thesis by simp
    next
      case 2
      then have "an_until ?s q = an_until s q" "ledger_of ?s = ledger_of s"
        by (simp_all add: advance_until advance_ledger)
      with 2 h(2) True assms(2) show ?thesis
        using right_same claims_holdD by (metis advance_now)
    qed
  next
    case False
    then have same: "an_rival ?s q = an_rival s q" "an_until ?s q = an_until s q"
      by (simp_all add: advance_other advance_until)
    with h have q: "right_to_run cn s q" "an_now s < an_until s q"
      using claims_holdD [OF assms(2), of q] by (simp_all add: advance_now)
    show ?thesis
    proof (cases "rival_ledger_op cn p (an_now s) (an_rival s p)")
      case None
      with q(1) same(2) show ?thesis by (simp add: right_to_run_def advance_ledger)
    next
      case (Some e)
      show ?thesis
        by (rule right_after [OF q rival_op_intrudes [OF assms(1) False Some]])
          (simp_all add: advance_ledger Some same(2))
    qed
  qed
  with led show ?thesis by (simp add: claims_hold_def)
qed

lemma come_back_same [simp]:
  "an_now (come_back p y s) = an_now s" "ledger_of (come_back p y s) = ledger_of s"
  "an_until (come_back p y s) = an_until s" "q \<noteq> p \<Longrightarrow> an_rival (come_back p y s) q = an_rival s q"
  by (auto simp: come_back_def split: sum.split)

lemma claims_hold_step:
  assumes "contest_ok cn" and "claims_hold cn s" and "fair cn s m"
  shows "claims_hold cn (contest_step cn s m)"
proof (cases m)
  case (Advance p)
  with claims_hold_advance [OF assms(1,2)] show ?thesis by simp
next
  case (Come_Back p y)
  show ?thesis
  proof (cases "an_rival s p = In_Tool")
    case True
    have "right_to_run cn (come_back p y s) q"
      if "holding (an_rival (come_back p y s) q)" "an_now s < an_until s q" for q
      using that claims_holdD [OF assms(2), of q] True
      by (cases "q = p") (auto simp: right_to_run_def)
    with assms(2) True Come_Back show ?thesis by (simp add: claims_hold_def)
  next
    case False
    with assms(2) Come_Back show ?thesis by simp
  qed
next
  case (Others e)
  have "right_to_run cn (contest_step cn s m) q"
    if "holding (an_rival s q)" "an_now s < an_until s q" for q
    using right_after [OF claims_holdD [OF assms(2) that] that(2), of e "contest_step cn s m"] assms(3)
    by (simp add: Others fair_def)
  moreover have "ledger_ok (ledger_of (contest_step cn s m))"
    using assms(2) intent_step_ok by (simp add: Others claims_hold_def)
  ultimately show ?thesis by (simp add: claims_hold_def Others)
qed (use assms(2) in \<open>auto simp: claims_hold_def right_to_run_def\<close>)

lemma claims_hold_start: "bworld_ok w \<Longrightarrow> claims_hold cn (kick_off now w)"
  by (simp add: claims_hold_def kick_off_def bworld_ok_def)

lemma plays_weaken:
  assumes "plays ok cn s0 s" and "\<And>s m. ok s m \<Longrightarrow> ok' s m"
  shows "plays ok' cn s0 s"
  using assms(1) by induction (auto intro: plays.intros assms(2))

lemma plays_claims_hold:
  assumes "plays (fair cn) cn (kick_off now w) s" and "contest_ok cn" and "bworld_ok w"
  shows "claims_hold cn s"
  using assms(1)
  by induction (simp_all add: claims_hold_start assms(3) claims_hold_step [OF assms(2)])


text \<open>
  C20. Single flight. However the executions of one call interleave, die and let time pass, and
  whatever recovery workers and operators do to the ledger meanwhile short of finishing the intent:
  of two executions that have been admitted and are not through, at most one has a claim that has not
  expired; and that one is the holder of the intent in the ledger.
\<close>

theorem single_flight:
  assumes "contest_ok cn" and "bworld_ok w" and "plays (fair cn) cn (kick_off now w) s"
    and "holding (an_rival s p)" and "an_now s < an_until s p"
    and "holding (an_rival s q)" and "an_now s < an_until s q"
  shows "p = q \<and> (\<exists>i. intent_at (ledger_of s) (cn_key cn) = Some i \<and> held_by (cn_owner cn p) (cn_token cn p) i
      \<and> ti_expires i = Some (an_until s p))"
proof -
  have "claims_hold cn s" by (rule plays_claims_hold [OF assms(3,1,2)])
  then have "right_to_run cn s p" "right_to_run cn s q" using assms(4-7) claims_holdD by blast+
  with right_unique [OF assms(1)] show ?thesis by (auto simp: right_to_run_def)
qed

section \<open>Contests in which no claim expires under a run\<close>

definition settled :: "contest \<Rightarrow> arena \<Rightarrow> bool" where
  "settled cn s \<longleftrightarrow>
     (\<exists>i. intent_at (ledger_of s) (cn_key cn) = Some i \<and> terminal_state (ti_state i) \<and> ti_owner i = None)"

definition accounted :: "contest \<Rightarrow> arena \<Rightarrow> bool" where
  "accounted cn s \<longleftrightarrow>
     length (an_began s) \<le> length (an_lost s)
       + (if (\<exists>p. run_open (an_rival s p)) \<or> settled cn s then 1 else 0)"

definition all_timely :: "arena \<Rightarrow> bool" where
  "all_timely s \<longleftrightarrow> (\<forall>p. holding (an_rival s p) \<longrightarrow> an_now s < an_until s p)"

lemma settled_not_held: "settled cn s \<Longrightarrow> \<not> right_to_run cn s p"
  by (auto simp: settled_def right_to_run_def held_by_def)

lemma settled_after:
  assumes "settled cn s" and "\<not> reopens (cn_key cn) e"
    and "ledger_of s' = intent_step ttl (ledger_of s) (now, e)"
  shows "settled cn s'"
  using assms terminal_step by (fastforce simp: settled_def)

lemma settled_same: "settled cn s \<Longrightarrow> ledger_of s' = ledger_of s \<Longrightarrow> settled cn s'"
  by (simp add: settled_def)

lemma settled_advance: "settled cn s \<Longrightarrow> settled cn (advance cn p ph s)"
proof (cases "rival_ledger_op cn p (an_now s) ph")
  case None
  then show "settled cn s \<Longrightarrow> settled cn (advance cn p ph s)" by (simp add: settled_def advance_ledger)
next
  case (Some e)
  assume "settled cn s"
  then show "settled cn (advance cn p ph s)"
    by (rule settled_after [OF _ rival_op_fresh [OF Some]]) (simp add: advance_ledger Some)
qed

lemma timely_advance:
  assumes "contest_ok cn" and "all_timely s"
  shows "all_timely (advance cn p (an_rival s p) s)"
proof -
  have "an_now s < an_until (advance cn p (an_rival s p) s) q"
    if h: "holding (an_rival (advance cn p (an_rival s p) s) q)" for q
  proof (cases "q = p")
    case True
    have "0 < seconds (cn_ttl cn)" using assms(1) by (simp add: contest_ok_def seconds_def)
    with True own_move [of cn p "an_rival s p" s] h assms(2)
    show ?thesis
      by (cases "an_rival s p = Claiming") (auto simp: all_timely_def advance_until)
  next
    case False
    with h assms(2) show ?thesis by (simp add: all_timely_def advance_other advance_until)
  qed
  then show ?thesis by (simp add: all_timely_def advance_now)
qed

text \<open>A move that starts no run and closes none by itself leaves the account as it is.\<close>

lemma accounted_same:
  assumes "accounted cn s" and "an_began s' = an_began s" and "an_lost s' = an_lost s"
    and "\<And>p. run_open (an_rival s p) \<Longrightarrow> (\<exists>q. run_open (an_rival s' q)) \<or> settled cn s'"
    and "settled cn s \<Longrightarrow> settled cn s'"
  shows "accounted cn s'"
  using assms(1,4,5) unfolding accounted_def assms(2,3) by (auto split: if_splits)

lemma accounted_lost:
  "accounted cn s \<Longrightarrow> an_began s' = an_began s \<Longrightarrow> an_lost s' = an_lost s @ [p] \<Longrightarrow> accounted cn s'"
  by (auto simp: accounted_def split: if_splits)

lemma accounted_began:
  assumes "accounted cn s" and "\<forall>p. \<not> run_open (an_rival s p)" and "\<not> settled cn s"
    and "an_began s' = an_began s @ [p]" and "an_lost s' = an_lost s" and "run_open (an_rival s' p)"
  shows "accounted cn s'"
  using assms by (auto simp: accounted_def)

lemma mark_settles:
  assumes "mark_claimed k w t (terminal_of ok) now f = (Inr (Some i), f')"
  shows "intent_at f' k = Some i \<and> terminal_state (ti_state i) \<and> ti_owner i = None"
  using assms by (auto simp: mark_claimed_def unclaimed_def split: if_splits sum.splits option.splits)

lemma accounted_advance:
  assumes "contest_ok cn" and "claims_hold cn s" and "all_timely s" and "accounted cn s"
  shows "accounted cn (advance cn p (an_rival s p) s)"
proof -
  let ?s = "advance cn p (an_rival s p) s"
  have keep: "\<exists>r. run_open (an_rival ?s r)" if "q \<noteq> p" "run_open (an_rival s q)" for q
    using that advance_other by metis
  note sett = settled_advance [of cn s p "an_rival s p"]
  show ?thesis
  proof (cases "run_open (an_rival s p)")
    case True
    then consider "an_rival s p = In_Tool" | r where "an_rival s p = Recording r"
      | st where "an_rival s p = Finishing st" by (cases "an_rival s p") auto
    then show ?thesis
    proof cases
      case 1
      with assms(4) show ?thesis by simp
    next
      case (2 r)
      obtain y f where put: "put_if_absent (report_result (report_of_call (cn_call cn p) r)) (registry_of s) = (y, f)"
        by fastforce
      show ?thesis
      proof (cases y)
        case (Inl e)
        then show ?thesis by (intro accounted_lost [OF assms(4), of _ p]) (simp_all add: 2 put)
      next
        case (Inr st)
        have "run_open (an_rival ?s p)" by (simp add: 2 put Inr)
        then show ?thesis using sett by (intro accounted_same [OF assms(4)]) (auto simp: 2 put Inr)
      qed
    next
      case (3 st)
      have key: "opt_list (tc_idempotency_key (cn_call cn p)) = cn_key cn"
        using assms(1) by (simp add: contest_ok_def opt_list_def)
      obtain y f where mark: "mark_claimed (cn_key cn) (cn_owner cn p) (cn_token cn p) (terminal_of (sr_ok st))
          (an_now s) (ledger_of s) = (y, f)" by fastforce
      show ?thesis
      proof (cases "\<exists>i. y = Inr (Some i)")
        case True
        then obtain i where i: "y = Inr (Some i)" by blast
        then have "settled cn ?s" using mark_settles mark by (fastforce simp: 3 key settled_def)
        then show ?thesis by (intro accounted_same [OF assms(4)]) (simp_all add: 3 key mark i)
      next
        case False
        then show ?thesis
          by (intro accounted_lost [OF assms(4), of _ p])
            (auto simp: 3 key mark split: sum.split option.split)
      qed
    qed
  next
    case False
    show ?thesis
    proof (cases "an_rival s p = Launching")
      case True
      then have p: "right_to_run cn s p" using claims_holdD [OF assms(2)] assms(3) by (simp add: all_timely_def)
      then have ns: "\<not> settled cn s" using settled_not_held by blast
      have "\<not> run_open (an_rival s q)" for q
      proof
        assume q: "run_open (an_rival s q)"
        then have "right_to_run cn s q"
          using claims_holdD [OF assms(2)] assms(3) run_open_holding by (simp add: all_timely_def)
        with right_unique [OF assms(1) p] q True show False by auto
      qed
      with ns show ?thesis by (intro accounted_began [OF assms(4), of _ p]) (simp_all add: True)
    next
      case nl: False
      have same: "an_began ?s = an_began s" "an_lost ?s = an_lost s"
        using False nl by (cases "an_rival s p"; auto simp: look_then_def split: prod.split sum.split option.split)+
      show ?thesis
      proof (rule accounted_same [OF assms(4) same])
        fix q
        assume "run_open (an_rival s q)"
        with False have "q \<noteq> p" by auto
        with keep \<open>run_open (an_rival s q)\<close>
        show "(\<exists>q. run_open (an_rival ?s q)) \<or> settled cn ?s" by blast
      qed (rule sett)
    qed
  qed
qed

definition in_order :: "contest \<Rightarrow> arena \<Rightarrow> bool" where
  "in_order cn s \<longleftrightarrow> claims_hold cn s \<and> all_timely s \<and> accounted cn s"

lemma in_order_step:
  assumes "contest_ok cn" and "in_order cn s" and "timely cn s m"
  shows "in_order cn (contest_step cn s m)"
proof -
  have i: "claims_hold cn s" "all_timely s" "accounted cn s" and f: "fair cn s m"
    using assms(2,3) by (simp_all add: in_order_def timely_def)
  have "all_timely (contest_step cn s m) \<and> accounted cn (contest_step cn s m)"
  proof (cases m)
    case (Advance p)
    with timely_advance [OF assms(1) i(2)] accounted_advance [OF assms(1) i] show ?thesis by simp
  next
    case (Come_Back p y)
    have "accounted cn (come_back p y s)" if t: "an_rival s p = In_Tool"
    proof (cases "\<exists>r. y = Inr r \<and> \<not> tr_ambiguous r \<and> \<not> tr_retryable r")
      case True
      then obtain r where "come_back p y s = becomes p (Recording r) s" by (auto simp: come_back_def)
      with t show ?thesis
        by (intro accounted_same [OF i(3)]) (auto simp: settled_def intro: exI [of _ p])
    next
      case False
      then show ?thesis
        by (intro accounted_lost [OF i(3), of _ p]) (auto simp: come_back_def split: sum.split)
    qed
    moreover have "all_timely (come_back p y s)" if t: "an_rival s p = In_Tool"
    proof -
      have "holding (an_rival s q)" if "holding (an_rival (come_back p y s) q)" for q
        using that t by (cases "q = p") simp_all
      with i(2) show ?thesis by (simp add: all_timely_def)
    qed
    ultimately show ?thesis using i by (simp add: Come_Back)
  next
    case (Crash p)
    have "accounted cn (contest_step cn s m)"
    proof (cases "run_open (an_rival s p)")
      case True
      then show ?thesis by (intro accounted_lost [OF i(3), of _ p]) (simp_all add: Crash)
    next
      case False
      then show ?thesis
        by (intro accounted_same [OF i(3)]) (auto simp: Crash settled_def)
    qed
    with i(2) show ?thesis by (auto simp: all_timely_def Crash)
  next
    case (Pass d)
    with assms(3) i show ?thesis by (simp add: all_timely_def timely_def accounted_def settled_def)
  next
    case (Others e)
    with f have "\<not> reopens (cn_key cn) e" by (simp add: fair_def)
    then have "accounted cn (contest_step cn s m)"
      using settled_after [of cn s e]
      by (intro accounted_same [OF i(3)]) (auto simp: Others)
    with i(2) show ?thesis by (simp add: all_timely_def Others)
  next
    case (Others_Put r)
    with i show ?thesis by (simp add: all_timely_def accounted_def settled_def)
  qed
  with claims_hold_step [OF assms(1) i(1) f] show ?thesis by (simp add: in_order_def)
qed

lemma in_order_start: "bworld_ok w \<Longrightarrow> in_order cn (kick_off now w)"
  using claims_hold_start [of w cn now] by (simp add: in_order_def all_timely_def accounted_def kick_off_def)

text \<open>
  C21. A call runs once, and once more for every run that is lost. As long as no claim expires while
  its holder is at work, the number of times the tool is started is at most one more than the number of
  runs that ended without an outcome: an ambiguous or retryable result, a denied or cancelled call, a
  process that died in between. In particular, without such a loss the tool runs at most once,
  however many processes execute the call and however they interleave.
\<close>

theorem one_run_and_one_per_loss:
  assumes "contest_ok cn" and "bworld_ok w" and "plays (timely cn) cn (kick_off now w) s"
  shows "length (an_began s) \<le> 1 + length (an_lost s)"
proof -
  have "in_order cn s"
    using assms(3) by induction (simp_all add: in_order_start assms(2) in_order_step [OF assms(1)])
  then show ?thesis by (simp add: in_order_def accounted_def split: if_splits)
qed


section \<open>Agreement\<close>

text \<open>
  A definite answer: neither ambiguous nor retryable, and not the refusal because somebody else has the
  claim. It carries a recorded outcome if it tells what the record tells (a value that was not plain JSON
  is recorded in the form \<open>asdict_val\<close> gives it).
\<close>

definition definite :: "contest \<Rightarrow> nat \<Rightarrow> tool_result \<Rightarrow> bool" where
  "definite cn p r \<longleftrightarrow> \<not> tr_ambiguous r \<and> \<not> tr_retryable r \<and> r \<noteq> refusal (cn_call cn p)"

definition carries :: "stored_result \<Rightarrow> tool_result \<Rightarrow> bool" where
  "carries st r \<longleftrightarrow> tr_ok r = sr_ok st \<and> tr_error r = sr_error st
     \<and> asdict_val (tr_value r) = asdict_val (sr_value st)"

fun backed :: "contest \<Rightarrow> result_file \<Rightarrow> nat \<Rightarrow> rival \<Rightarrow> bool" where
  "backed cn f p (Finishing st) \<longleftrightarrow>
     (\<exists>st'. result_at f (cn_key cn) = Some st' \<and> (st' = st \<or> st' = asdict_result st))"
| "backed cn f p (Giving_Up y) \<longleftrightarrow> (\<forall>r. y = Inr r \<longrightarrow> \<not> definite cn p r)"
| "backed cn f p (Answered y) \<longleftrightarrow>
     (\<forall>r. y = Inr r \<and> definite cn p r \<longrightarrow> (\<exists>st. result_at f (cn_key cn) = Some st \<and> carries st r))"
| "backed cn f p _ \<longleftrightarrow> True"

definition all_backed :: "contest \<Rightarrow> arena \<Rightarrow> bool" where
  "all_backed cn s \<longleftrightarrow>
     results_ok (registry_of s) \<and> (\<forall>p. backed cn (registry_of s) p (an_rival s p))"

lemma asdict_twice [simp]: "asdict_val (asdict_val v) = asdict_val v"
  by (rule asdict_json [OF json_asdict])

lemma carries_stored: "carries st (result_of_stored call st)"
  by (simp add: carries_def result_of_stored_def)

lemma carries_committed:
  "st' = st \<or> st' = asdict_result st \<Longrightarrow> carries st' (committed_answer call st b)"
  by (auto simp: carries_def committed_answer_def asdict_result_def)

lemma backed_stays:
  assumes "backed cn f p ph" and "\<And>st. result_at f (cn_key cn) = Some st \<Longrightarrow> result_at f' (cn_key cn) = Some st"
  shows "backed cn f' p ph"
  using assms by (cases ph) auto

lemma all_backed_move:
  assumes "all_backed cn s" and "\<And>q. q \<noteq> p \<Longrightarrow> an_rival s' q = an_rival s q"
    and "registry_of s' = registry_of s \<or> (\<exists>r. registry_of s' = snd (put_if_absent r (registry_of s)))"
    and "backed cn (registry_of s') p (an_rival s' p)"
  shows "all_backed cn s'"
proof -
  have f: "results_ok (registry_of s)" using assms(1) by (simp add: all_backed_def)
  then have "results_ok (registry_of s')" using assms(3) put_ok by auto
  moreover have "backed cn (registry_of s') q (an_rival s' q)" for q
  proof (cases "q = p")
    case False
    then have "backed cn (registry_of s) q (an_rival s' q)" using assms(1,2) by (simp add: all_backed_def)
    then show ?thesis
      by (rule backed_stays) (use assms(3) put_keeps [OF f] in auto)
  qed (use assms(4) in simp)
  ultimately show ?thesis by (simp add: all_backed_def)
qed

lemma look_then_backed:
  assumes "results_ok (registry_of s)" and "cn_key cn \<noteq> []" and "backed cn (registry_of s) p none"
  shows "backed cn (registry_of s) p (an_rival (look_then cn p none s) p)"
  using assms(3) get_result_at [OF assms(1,2)]
  by (auto simp: look_then_def stored_answer_def carries_stored split: option.split if_splits)

lemma look_then_registry [simp]: "registry_of (look_then cn p none s) = registry_of s"
  by (simp add: look_then_def split: sum.split option.split)

lemma put_backs:
  assumes "results_ok f" and "put_if_absent (report_result q) f = (Inr st, f')"
  shows "\<exists>st'. result_at f' (or_key q) = Some st' \<and> (st' = st \<or> st' = asdict_result st)"
proof (cases "result_at f (or_key q)")
  case None
  have "result_at f (sr_key (report_result q)) = None" using None by simp
  then show ?thesis using assms by (elim put_new [OF assms(1)]) auto
next
  case (Some s)
  then show ?thesis using assms put_old [OF assms(1), of "report_result q" s] by (auto split: if_splits)
qed

lemma all_backed_advance:
  assumes "contest_ok cn" and "all_backed cn s"
  shows "all_backed cn (advance cn p (an_rival s p) s)"
proof -
  let ?s = "advance cn p (an_rival s p) s"
  have f: "results_ok (registry_of s)" and p: "backed cn (registry_of s) p (an_rival s p)"
    using assms(2) by (simp_all add: all_backed_def)
  have key: "cn_key cn \<noteq> []" and call: "opt_list (tc_idempotency_key (cn_call cn p)) = cn_key cn"
    using assms(1) by (simp_all add: contest_ok_def opt_list_def)
  have refused: "backed cn (registry_of s) p (Answered (Inr (refusal (cn_call cn p))))"
    by (simp add: definite_def)
  show ?thesis
  proof (rule all_backed_move [OF assms(2), of p])
    show "an_rival ?s q = an_rival s q" if "q \<noteq> p" for q using that by (rule advance_other)
    show "registry_of ?s = registry_of s \<or> (\<exists>r. registry_of ?s = snd (put_if_absent r (registry_of s)))"
      by (auto simp: advance_registry split: rival.split)
    show "backed cn (registry_of ?s) p (an_rival ?s p)"
    proof (cases "an_rival s p")
      case (Recording r)
      have "or_key (report_of_call (cn_call cn p) r) = cn_key cn" by (simp add: report_of_call_def call)
      then show ?thesis
        using put_backs [OF f, of "report_of_call (cn_call cn p) r"]
        by (auto simp: Recording split: prod.split sum.split)
    next
      case (Finishing st)
      then obtain st' where "result_at (registry_of s) (cn_key cn) = Some st'" "st' = st \<or> st' = asdict_result st"
        using p by auto
      then show ?thesis
        using carries_committed by (auto simp: Finishing split: prod.split sum.split option.split)
    next
      case Late_Look
      then show ?thesis using look_then_backed [OF f key refused] by simp
    next
      case Looking
      then show ?thesis using look_then_backed [OF f key, of p Preparing] by simp
    next
      case Rechecking
      then show ?thesis using look_then_backed [OF f key, of p Claiming] by simp
    qed (use p refused in \<open>auto split: prod.split sum.split option.split\<close>)
  qed
qed

lemma all_backed_step:
  assumes "contest_ok cn" and "all_backed cn s"
  shows "all_backed cn (contest_step cn s m)"
proof (cases m)
  case (Advance p)
  with all_backed_advance [OF assms] show ?thesis by simp
next
  case (Come_Back p y)
  have "registry_of (come_back p y s) = registry_of s" by (auto simp: come_back_def split: sum.split)
  moreover have "backed cn f p (an_rival (come_back p y s) p)" for f
    by (auto simp: come_back_def definite_def split: sum.split)
  ultimately have "all_backed cn (come_back p y s)"
    by (intro all_backed_move [OF assms(2), of p]) simp_all
  with assms(2) show ?thesis by (simp add: Come_Back)
next
  case (Crash p)
  show ?thesis by (rule all_backed_move [OF assms(2), of p]) (simp_all add: Crash)
next
  case (Others_Put r)
  show ?thesis
    by (rule all_backed_move [OF assms(2)])
      (use assms(2) put_keeps in \<open>auto simp: Others_Put all_backed_def intro: backed_stays\<close>)
qed (use assms(2) in \<open>simp_all add: all_backed_def\<close>)

lemma all_backed_start: "bworld_ok w \<Longrightarrow> all_backed cn (kick_off now w)"
  by (simp add: all_backed_def kick_off_def bworld_ok_def)

text \<open>
  C22. Definite answers agree. Whatever happens in a contest (claims may expire, processes die, others
  finish or reopen the intent): all executions of the call that return a definite answer give the same
  outcome, value and error, and it is the outcome recorded in the registry under the key, which stays
  there.
\<close>

theorem definite_answers_agree:
  assumes "contest_ok cn" and "bworld_ok w" and "plays ok cn (kick_off now w) s"
    and "an_rival s p = Answered (Inr r)" and "definite cn p r"
    and "an_rival s q = Answered (Inr r')" and "definite cn q r'"
  shows "tr_ok r' = tr_ok r \<and> tr_error r' = tr_error r \<and> asdict_val (tr_value r') = asdict_val (tr_value r)
    \<and> (\<exists>st. result_at (registry_of s) (cn_key cn) = Some st \<and> sr_ok st = tr_ok r \<and> sr_error st = tr_error r)"
proof -
  have b: "all_backed cn s"
    using assms(3) by induction (simp_all add: all_backed_start assms(2) all_backed_step [OF assms(1)])
  then have "backed cn (registry_of s) p (an_rival s p)" "backed cn (registry_of s) q (an_rival s q)"
    by (simp_all add: all_backed_def)
  with assms(4-7) show ?thesis by (auto simp: carries_def)
qed


section \<open>Runs that are repeated\<close>

text \<open>The intent is there to be claimed: not finished, and nobody has an unexpired claim on it.\<close>

definition claimable :: "contest \<Rightarrow> nat \<Rightarrow> arena \<Rightarrow> bool" where
  "claimable cn p s \<longleftrightarrow>
     (\<forall>i. intent_at (ledger_of s) (cn_key cn) = Some i \<longrightarrow>
        ambiguous_state (ti_state i) \<and> ti_owner i \<noteq> Some (cn_owner cn p)
        \<and> (ti_owner i = None \<or> \<not> live_at (an_now s) i))"

lemma ledger_okE:
  assumes "ledger_ok f"
  obtains d where "read_intents f = Inr d" "\<And>k. intent_at f k = map_of d k"
  using ledger_read [OF assms] intent_at_read by blast

lemma not_finished: "ambiguous_state st \<Longrightarrow> \<not> terminal_state st"
  using states_disjoint by blast

lemma prepare_claimable:
  assumes "ledger_ok f"
    and "\<And>i. intent_at f k = Some i \<Longrightarrow> ambiguous_state (ti_state i) \<and> P (ti_owner i) (ti_expires i)"
    and "P None None"
  obtains i j f' where "prepare (new_intent k c t a e now) f = (Inr i, f')" "\<not> terminal_state (ti_state i)"
    "ledger_ok f'" "intent_at f' k = Some j" "ambiguous_state (ti_state j)" "P (ti_owner j) (ti_expires j)"
proof -
  let ?n = "new_intent k c t a e now"
  obtain d where d: "read_intents f = Inr d" "\<And>k. intent_at f k = map_of d k"
    by (rule ledger_okE [OF assms(1)]) blast
  have valid: "ti_state ?n \<in> set VALID_STATES" "ambiguous_state (ti_state ?n)" "ti_key ?n = k"
    by (simp_all add: new_intent_def VALID_STATES_def AMBIGUOUS_STATES_def)
  show thesis
  proof (cases "map_of d k")
    case None
    let ?f = "Object (dset k (asdict_intent ?n) d)"
    have p: "prepare ?n f = (Inr ?n, ?f)" using valid by (simp add: prepare_def d None)
    have "ledger_ok (snd (prepare ?n f))" using intent_step_ok [OF assms(1), of 0 0 "Prepare ?n"] by simp
    then show thesis
      using that [OF p not_finished [OF valid(2)], of "asdict_intent ?n"] valid(2) assms(3)
      by (simp add: p asdict_intent_def) (simp add: new_intent_def)
  next
    case (Some i)
    then have "prepare ?n f = (Inr i, f)" using valid by (simp add: prepare_def d)
    moreover have "ambiguous_state (ti_state i)" "P (ti_owner i) (ti_expires i)"
      using assms(2) [of i] Some by (simp_all add: d)
    ultimately show thesis
      using that [of i f i] assms(1) not_finished by (simp add: d Some)
  qed
qed

lemma claim_claimable:
  assumes "ledger_ok f" and "intent_at f k = Some j" and "ambiguous_state (ti_state j)"
    and "ti_owner j \<noteq> Some w" and "ti_owner j = None \<or> \<not> live_at now j" and "k \<noteq> []" and "w \<noteq> []" and "t \<noteq> []"
  obtains f' where "claim ttl k w t now f = (Inr (Some (claimed ttl now w t j)), f')" "ledger_ok f'"
    "intent_at f' k = Some (claimed ttl now w t j)"
proof -
  obtain d where d: "read_intents f = Inr d" "\<And>k. intent_at f k = map_of d k"
    by (rule ledger_okE [OF assms(1)]) blast
  let ?f = "Object (dset k (claimed ttl now w t j) d)"
  have c: "claim ttl k w t now f = (Inr (Some (claimed ttl now w t j)), ?f)"
    using assms(2-8) by (auto simp: claim_def d Let_def)
  have "ledger_ok (snd (claim ttl k w t now f))" using intent_step_ok [OF assms(1), of ttl now "Claim k w t"] by simp
  with c show thesis by (intro that [OF c]) simp_all
qed

text \<open>A rival that finds no outcome and a claimable intent gets to the tool with its first four moves.\<close>

definition four_moves :: "nat \<Rightarrow> contest_move list" where
  "four_moves p = [Advance p, Advance p, Advance p, Advance p]"

lemma gets_to_tool:
  assumes "contest_ok cn" and "bworld_ok (an_files s)" and "an_rival s p = Looking"
    and "result_at (registry_of s) (cn_key cn) = None" and "claimable cn p s"
    and "s' = run (contest_step cn) s (four_moves p)"
  shows "an_rival s' = (an_rival s)(p := In_Tool) \<and> an_began s' = an_began s @ [p] \<and> an_lost s' = an_lost s
    \<and> an_now s' = an_now s \<and> registry_of s' = registry_of s \<and> ledger_ok (ledger_of s')
    \<and> (\<exists>i. intent_at (ledger_of s') (cn_key cn) = Some i \<and> ti_state i = ''executing''
         \<and> held_by (cn_owner cn p) (cn_token cn p) i \<and> ti_expires i = Some (an_now s + seconds (cn_ttl cn)))"
proof -
  have cn: "cn_key cn \<noteq> []" "cn_owner cn p \<noteq> []" "cn_token cn p \<noteq> []" using assms(1) by (simp_all add: contest_ok_def)
  have ok: "ledger_ok (ledger_of s)" "results_ok (registry_of s)" using assms(2) by (simp_all add: bworld_ok_def)
  let ?P = "\<lambda>u e. u \<noteq> Some (cn_owner cn p) \<and> (u = None \<or> \<not> (case e of None \<Rightarrow> False | Some v \<Rightarrow> v > an_now s))"
  have look: "get_result (Some (cn_key cn)) (registry_of s) = Inr None"
    using get_result_at [OF ok(2) cn(1)] assms(4) by simp
  obtain i j f where prep: "prepare (new_intent (cn_key cn) (tc_call_id (cn_call cn p)) (tc_tool (cn_call cn p))
        (VDict (tc_arguments (cn_call cn p))) (cn_execution cn p) (an_now s)) (ledger_of s) = (Inr i, f)"
      "\<not> terminal_state (ti_state i)"
    and f: "ledger_ok f" "intent_at f (cn_key cn) = Some j" "ambiguous_state (ti_state j)"
      "?P (ti_owner j) (ti_expires j)"
    by (rule prepare_claimable [OF ok(1), of "cn_key cn" ?P])
      (use assms(5) in \<open>auto simp: claimable_def live_at_def\<close>)
  obtain f' where cl: "claim (cn_ttl cn) (cn_key cn) (cn_owner cn p) (cn_token cn p) (an_now s) f =
        (Inr (Some (claimed (cn_ttl cn) (an_now s) (cn_owner cn p) (cn_token cn p) j)), f')"
    and f': "ledger_ok f'"
      "intent_at f' (cn_key cn) = Some (claimed (cn_ttl cn) (an_now s) (cn_owner cn p) (cn_token cn p) j)"
    by (rule claim_claimable [OF f(1-3), of "cn_owner cn p" "an_now s" "cn_token cn p" "cn_ttl cn"])
      (use f(4) cn in \<open>auto simp: live_at_def\<close>)
  have "s' = becomes p In_Tool ((becomes p Launching (with_ledger f' ((becomes p Claiming (with_ledger f
      (becomes p Preparing s)))\<lparr>an_until := (an_until s)(p := an_now s + seconds (cn_ttl cn))\<rparr>)))
      \<lparr>an_began := an_began s @ [p]\<rparr>)"
    using prep(2) by (simp add: assms(6) four_moves_def assms(3) look_then_def look prep(1) cl)
  with f' show ?thesis by (simp add: claimed_def held_by_def)
qed

text \<open>
  C26. A slow tool runs twice. The executor does not renew its claim while the tool runs: if two
  processes execute a call that nobody has executed before, and the tool of the first has not come back
  when its claim expires, the second one is admitted and the tool runs twice at the same time, although
  no run was lost.
\<close>

theorem slow_tool_runs_twice:
  assumes "contest_ok cn" and "bworld_ok w" and "p \<noteq> q"
    and "result_at (bw_results w) (cn_key cn) = None" and "intent_at (bw_intents w) (cn_key cn) = None"
  shows "\<exists>ms s. set ms \<subseteq> {Advance p, Advance q, Pass (nat (seconds (cn_ttl cn)))}
    \<and> s = run (contest_step cn) (kick_off now w) ms
    \<and> an_rival s p = In_Tool \<and> an_rival s q = In_Tool \<and> an_began s = [p, q] \<and> an_lost s = []"
proof -
  let ?d = "nat (seconds (cn_ttl cn))"
  define s1 where "s1 = run (contest_step cn) (kick_off now w) (four_moves p)"
  define s2 where "s2 = contest_step cn s1 (Pass ?d)"
  define s3 where "s3 = run (contest_step cn) s2 (four_moves q)"
  have ttl: "0 < seconds (cn_ttl cn)" using assms(1) by (simp add: contest_ok_def seconds_def)
  have "an_rival s1 = (\<lambda>_. Looking)(p := In_Tool) \<and> an_began s1 = [p] \<and> an_lost s1 = []
    \<and> an_now s1 = now \<and> registry_of s1 = bw_results w \<and> ledger_ok (ledger_of s1)
    \<and> (\<exists>i. intent_at (ledger_of s1) (cn_key cn) = Some i \<and> ti_state i = ''executing''
         \<and> held_by (cn_owner cn p) (cn_token cn p) i \<and> ti_expires i = Some (now + seconds (cn_ttl cn)))"
    using gets_to_tool [OF assms(1) _ _ _ _ s1_def] assms(2,4,5) by (simp add: kick_off_def claimable_def)
  then obtain i where s1: "an_rival s1 = (\<lambda>_. Looking)(p := In_Tool)" "an_began s1 = [p]" "an_lost s1 = []"
      "an_now s1 = now" "registry_of s1 = bw_results w" "ledger_ok (ledger_of s1)"
    and i: "intent_at (ledger_of s1) (cn_key cn) = Some i" "ti_state i = ''executing''"
      "held_by (cn_owner cn p) (cn_token cn p) i" "ti_expires i = Some (now + seconds (cn_ttl cn))"
    by blast
  have "cn_owner cn p \<noteq> cn_owner cn q" using assms(1,3) by (auto simp: contest_ok_def inj_def)
  then have c: "claimable cn q s2"
    using i ttl by (simp add: claimable_def s2_def s1 AMBIGUOUS_STATES_def held_by_def live_at_def seconds_def)
  have b: "bworld_ok (an_files s2)" using s1(5,6) assms(2) by (simp add: s2_def bworld_ok_def)
  have "an_rival s3 = (an_rival s2)(q := In_Tool) \<and> an_began s3 = an_began s2 @ [q] \<and> an_lost s3 = an_lost s2"
    using gets_to_tool [OF assms(1) b _ _ c s3_def] assms(3,4) by (simp add: s2_def s1)
  then have "an_rival s3 p = In_Tool" "an_rival s3 q = In_Tool" "an_began s3 = [p, q]" "an_lost s3 = []"
    using assms(3) by (simp_all add: s2_def s1)
  moreover have "s3 = run (contest_step cn) (kick_off now w) (four_moves p @ Pass ?d # four_moves q)"
    by (simp add: s3_def s2_def s1_def run_append)
  ultimately show ?thesis
    by (intro exI [of _ "four_moves p @ Pass ?d # four_moves q"] exI [of _ s3]) (simp add: four_moves_def)
qed

lemma release_held:
  assumes "ledger_ok f" and "intent_at f k = Some i" and "held_by w t i" and "ambiguous_state st"
  obtains f' where "release_claim k w t st f = (Inr True, f')" "ledger_ok f'"
    "intent_at f' k = Some (unclaimed st i)"
proof -
  obtain d where d: "read_intents f = Inr d" "\<And>k. intent_at f k = map_of d k"
    by (rule ledger_okE [OF assms(1)]) blast
  have r: "release_claim k w t st f = (Inr True, Object (dset k (unclaimed st i) d))"
    using assms by (simp add: release_claim_def d)
  have "ledger_ok (snd (release_claim k w t st f))"
    using intent_step_ok [OF assms(1), of 0 0 "Release k w t st"] by simp
  with r show thesis by (intro that [OF r]) simp_all
qed

text \<open>
  C25. An ambiguous call is run again. When the tool of a first execution comes back with an
  ambiguous result (a timeout: its effect may have happened), the claim is released and the intent is
  claimable: the next process that executes the call runs the tool again, at once and without asking
  anybody what became of the first run.
\<close>

theorem ambiguous_call_run_again:
  assumes "contest_ok cn" and "bworld_ok w" and "p \<noteq> q" and "tr_ambiguous r"
    and "result_at (bw_results w) (cn_key cn) = None" and "intent_at (bw_intents w) (cn_key cn) = None"
  shows "\<exists>ms s. set ms \<subseteq> {Advance p, Come_Back p (Inr r), Advance q}
    \<and> s = run (contest_step cn) (kick_off now w) ms
    \<and> an_rival s p = Answered (Inr r) \<and> an_rival s q = In_Tool \<and> an_began s = [p, q]"
proof -
  define s1 where "s1 = run (contest_step cn) (kick_off now w) (four_moves p)"
  define s2 where "s2 = run (contest_step cn) s1 [Come_Back p (Inr r), Advance p]"
  define s3 where "s3 = run (contest_step cn) s2 (four_moves q)"
  have "an_rival s1 = (\<lambda>_. Looking)(p := In_Tool) \<and> an_began s1 = [p] \<and> registry_of s1 = bw_results w
    \<and> ledger_ok (ledger_of s1)
    \<and> (\<exists>i. intent_at (ledger_of s1) (cn_key cn) = Some i \<and> held_by (cn_owner cn p) (cn_token cn p) i)"
    using gets_to_tool [OF assms(1) _ _ _ _ s1_def] assms(2,5,6) by (auto simp: kick_off_def claimable_def)
  then obtain i where s1: "an_rival s1 = (\<lambda>_. Looking)(p := In_Tool)" "an_began s1 = [p]"
      "registry_of s1 = bw_results w" "ledger_ok (ledger_of s1)"
    and i: "intent_at (ledger_of s1) (cn_key cn) = Some i" "held_by (cn_owner cn p) (cn_token cn p) i"
    by blast
  have amb: "ambiguous_state ''ambiguous''" by (simp add: AMBIGUOUS_STATES_def)
  obtain f where rel: "release_claim (cn_key cn) (cn_owner cn p) (cn_token cn p) ''ambiguous'' (ledger_of s1) = (Inr True, f)"
    and f: "ledger_ok f" "intent_at f (cn_key cn) = Some (unclaimed ''ambiguous'' i)"
    by (rule release_held [OF s1(4) i amb])
  have s2: "an_rival s2 = (\<lambda>_. Looking)(p := Answered (Inr r))" "an_began s2 = [p]" "registry_of s2 = bw_results w"
      "ledger_of s2 = f"
    using assms(4) s1 by (simp_all add: s2_def come_back_def rel)
  have c: "claimable cn q s2" using amb by (simp add: claimable_def s2(4) f(2) unclaimed_def)
  have b: "bworld_ok (an_files s2)" using s2(3,4) f(1) assms(2) by (simp add: bworld_ok_def)
  have "an_rival s3 = (an_rival s2)(q := In_Tool) \<and> an_began s3 = an_began s2 @ [q]"
    using gets_to_tool [OF assms(1) b _ _ c s3_def] assms(3,5) by (simp add: s2)
  then have "an_rival s3 p = Answered (Inr r)" "an_rival s3 q = In_Tool" "an_began s3 = [p, q]"
    using assms(3) by (simp_all add: s2)
  moreover have "s3 = run (contest_step cn) (kick_off now w) (four_moves p @ [Come_Back p (Inr r), Advance p] @ four_moves q)"
    by (simp add: s3_def s2_def s1_def run_append)
  ultimately show ?thesis
    by (intro exI [of _ "four_moves p @ [Come_Back p (Inr r), Advance p] @ four_moves q"] exI [of _ s3])
      (auto simp: four_moves_def)
qed

section \<open>One execution by itself\<close>

text \<open>
  The tool, with everything around it (sandbox, events), gives \<open>y\<close> and leaves the two files alone,
  whatever they hold.
\<close>

definition runs_apart ::
    "'w executor \<Rightarrow> time \<Rightarrow> string \<Rightarrow> tool_call \<Rightarrow> tool_context \<Rightarrow> exec_context option \<Rightarrow> 'w xstate \<Rightarrow>
     tool_result result \<Rightarrow> bool" where
  "runs_apart x now uid call ctx ec s y \<longleftrightarrow>
     (\<forall>f. \<exists>s'. execute_once x (\<lambda>_. now) uid call ctx ec (set_files f s) = (y, s') \<and> ve_files (xs_env s') = f)"

definition answers :: "contest \<Rightarrow> nat \<Rightarrow> tool_result result \<Rightarrow> nat \<Rightarrow> arena \<Rightarrow> tool_result result \<Rightarrow> bworld \<Rightarrow> bool" where
  "answers cn p y n a z f \<longleftrightarrow> an_rival (solo cn p y n a) p = Answered z \<and> an_files (solo cn p y n a) = f"

lemma solo_answered: "an_rival a p = Answered z \<Longrightarrow> solo cn p y n a = a"
  by (induction n) simp_all

lemma answers_now: "an_rival a p = Answered z \<Longrightarrow> answers cn p y n a z' f' \<longleftrightarrow> z' = z \<and> f' = an_files a"
  by (auto simp: answers_def solo_answered)

lemma answers_0: "answers cn p y 0 a z f \<longleftrightarrow> an_rival a p = Answered z \<and> an_files a = f"
  by (simp add: answers_def)

lemma answers_step:
  "an_rival a p \<noteq> In_Tool \<Longrightarrow> answers cn p y (Suc n) a z f \<longleftrightarrow> answers cn p y n (advance cn p (an_rival a p) a) z f"
  by (simp add: answers_def)

lemma answers_back:
  "an_rival a p = In_Tool \<Longrightarrow> answers cn p y (Suc n) a z f \<longleftrightarrow> answers cn p y n (come_back p y a) z f"
  by (simp add: answers_def)

lemma files_of_set_parts:
  "ve_files (xs_env (set_intents f s)) = (ve_files (xs_env s))\<lparr>bw_intents := f\<rparr>"
  "ve_files (xs_env (set_results g s)) = (ve_files (xs_env s))\<lparr>bw_results := g\<rparr>"
  "ve_files (xs_env (set_files b s)) = b" "ve_files (xs_env (remember_result k r s)) = ve_files (xs_env s)"
  "an_files (with_ledger f a) = (an_files a)\<lparr>bw_intents := f\<rparr>"
  "an_files (with_registry g a) = (an_files a)\<lparr>bw_results := g\<rparr>"
  by (simp_all add: set_intents_def set_results_def set_files_def remember_result_def with_ledger_def with_registry_def)

lemma same_files: "ve_files (xs_env s) = f \<Longrightarrow> set_files f s = s"
  by (auto simp: set_files_def)

text \<open>From the launch on.\<close>

lemma solo_run:
  assumes "contest_ok cn" and "cn_call cn p = call" and "an_rival a p = Launching"
    and "runs_apart x (an_now a) uid call ctx ec s0 y"
    and "xe_has_results x" and "xe_has_intents x" and "s = set_files (an_files a) s0"
    and "run_admitted x (\<lambda>_. an_now a) uid (cn_owner cn p) (cn_token cn p) True (cn_key cn) call ctx ec s = (z, s')"
  shows "answers cn p y 4 a z (ve_files (xs_env s'))"
proof -
  have key: "opt_list (tc_idempotency_key call) = cn_key cn"
    using assms(1,2) by (auto simp: contest_ok_def opt_list_def)
  obtain s1 where once: "execute_once x (\<lambda>_. an_now a) uid call ctx ec s = (y, s1)"
      "ve_files (xs_env s1) = an_files a"
    using assms(4) unfolding runs_apart_def assms(7) by blast
  note defs = run_admitted_def once release_after_def record_outcome_def adapter_commit_def boundary_commit_def
    report_of_call_def committed_answer_def files_of_set_parts Let_def
  have n: "(4::nat) = Suc (Suc (Suc (Suc 0)))" by simp
  show ?thesis
  proof (cases "\<exists>r. y = Inr r \<and> \<not> tr_ambiguous r \<and> \<not> tr_retryable r")
    case True
    then obtain r where r: "y = Inr r" "\<not> tr_ambiguous r" "\<not> tr_retryable r" by blast
    show ?thesis
      using assms(8) r
      by (auto simp: n answers_0 answers_step answers_back assms(2,3,5,6) come_back_def defs key split: prod.splits sum.splits option.splits)
  next
    case False
    show ?thesis
      using assms(8) False
      by (auto simp: n answers_0 answers_step answers_back assms(2,3) come_back_def defs split: prod.splits sum.splits if_splits)
        (use once(2) in simp)+
  qed
qed


lemma solo_add: "solo cn p y (n + m) a = solo cn p y m (solo cn p y n a)"
  by (induction n arbitrary: a) simp_all

lemma answers_more: "answers cn p y n a z f \<Longrightarrow> n \<le> m \<Longrightarrow> answers cn p y m a z f"
  using solo_add [of cn p y n "m - n" a] by (auto simp: answers_def solo_answered)

text \<open>From the claim on, for a process that has both stores.\<close>

definition claim_and_run ::
    "'w executor \<Rightarrow> time \<Rightarrow> string \<Rightarrow> string \<Rightarrow> string \<Rightarrow> string \<Rightarrow> tool_call \<Rightarrow> tool_context \<Rightarrow>
     exec_context option \<Rightarrow> 'w xstate \<Rightarrow> tool_result result \<times> 'w xstate" where
  "claim_and_run x now uid owner token key call ctx ec s =
     (case claim (xe_ttl x) key owner token now (intents_of s) of
        (Inl e, f) \<Rightarrow> (Inl e, set_intents f s)
      | (Inr (Some i), f) \<Rightarrow> run_admitted x (\<lambda>_. now) uid owner token True key call ctx ec (set_intents f s)
      | (Inr None, f) \<Rightarrow>
          (case get_intent key f of
             Inl e \<Rightarrow> (Inl e, set_intents f s)
           | Inr current \<Rightarrow>
               (case (if current \<noteq> None \<and> terminal_state (ti_state (the current))
                      then look_stored x key (set_intents f s) else Inr None) of
                  Inl e \<Rightarrow> (Inl e, set_intents f s)
                | Inr (Some stored) \<Rightarrow> replay key call stored (set_intents f s)
                | Inr None \<Rightarrow> (Inr (refusal call), set_intents f s))))"

lemma solo_claim:
  assumes "contest_ok cn" and "cn_call cn p = call" and "an_rival a p = Claiming" and "cn_ttl cn = xe_ttl x"
    and "runs_apart x (an_now a) uid call ctx ec s0 y"
    and "xe_has_results x" and "xe_has_intents x" and "s = set_files (an_files a) s0"
    and "claim_and_run x (an_now a) uid (cn_owner cn p) (cn_token cn p) (cn_key cn) call ctx ec s = (z, s')"
  shows "answers cn p y 5 a z (ve_files (xs_env s'))"
proof -
  obtain c f where c: "claim (xe_ttl x) (cn_key cn) (cn_owner cn p) (cn_token cn p) (an_now a) (ledger_of a) = (c, f)"
    by fastforce
  have s: "intents_of s = ledger_of a" "results_of s = registry_of a" "ve_files (xs_env s) = an_files a"
    by (simp_all add: assms(8) files_of_set_parts)
  have n: "(5::nat) = Suc 4" "(4::nat) = Suc (Suc (Suc (Suc 0)))" by simp_all
  show ?thesis
  proof (cases "\<exists>i. c = Inr (Some i)")
    case True
    then obtain i where i: "c = Inr (Some i)" by blast
    let ?a = "advance cn p Claiming a"
    have a: "an_rival ?a p = Launching" "an_now ?a = an_now a" "an_files ?a = (an_files a)\<lparr>bw_intents := f\<rparr>"
      by (simp_all add: assms(4) c i with_ledger_def)
    have set: "set_intents f s = set_files (an_files ?a) s0"
      unfolding a(3) by (simp add: assms(8) set_intents_def set_files_def)
    have run: "run_admitted x (\<lambda>_. an_now ?a) uid (cn_owner cn p) (cn_token cn p) True (cn_key cn) call ctx ec
        (set_intents f s) = (z, s')"
      unfolding a(2) using assms(9) by (simp add: claim_and_run_def s(1) c i)
    have "answers cn p y 4 ?a z (ve_files (xs_env s'))"
      by (rule solo_run [OF assms(1,2) a(1) _ assms(6,7) set run], unfold a(2)) (rule assms(5))
    then show ?thesis using assms(3) answers_step [of a p cn y 4] by simp
  next
    case False
    with assms(9) show ?thesis
      by (auto simp: numeral_eq_Suc claim_and_run_def s c answers_0 answers_step assms(2-4,6) look_then_def look_stored_def
          files_of_set_parts replay_def stored_answer_def set_intents_def set_files_def with_ledger_def
          split: sum.splits option.splits if_splits)
  qed
qed

text \<open>
  C24. Alone, a rival does what \<open>execute\<close> does. If nobody else moves and the clock stands still, the
  eight moves of a rival lead to the answer and to the files of \<open>execute\<close> (with both stores, without a
  cached answer), for every tool that leaves the two files alone.
\<close>

theorem solo_rival_is_execute:
  assumes "contest_ok cn" and "cn_call cn p = call" and "cn_ttl cn = xe_ttl x"
    and "cn_execution cn p = map_option ctx_execution_id ec"
    and "xe_has_results x" and "xe_has_intents x" and "tx_agent_id ctx \<noteq> []"
    and "cached_answer s (cn_key cn) = None" and "runs_apart x now uid call ctx ec s y"
    and "execute x (\<lambda>_. now) uid (cn_owner cn p) (cn_token cn p) call ctx ec s = (z, s')"
    and "a = solo cn p y 8 (kick_off now (ve_files (xs_env s)))"
  shows "an_rival a p = Answered z \<and> an_files a = ve_files (xs_env s')"
proof -
  let ?k = "cn_key cn" and ?a = "kick_off now (ve_files (xs_env s))"
  have key: "?k \<noteq> []" "opt_list (tc_idempotency_key call) = ?k"
    using assms(1,2) by (auto simp: contest_ok_def opt_list_def)
  have unc: "uncached x (\<lambda>_. now) uid (cn_owner cn p) (cn_token cn p) call ctx ec ?k s = (z, s')"
    using assms(7,8,10) key by (simp add: execute_def)
  have n: "(8::nat) = Suc (Suc (Suc 5))" by simp
  have finish: "answers cn p y 5 b z (ve_files (xs_env s'))"
    if "an_rival b p = Claiming" "an_now b = now" "t = set_files (an_files b) s"
      "claim_and_run x now uid (cn_owner cn p) (cn_token cn p) ?k call ctx ec t = (z, s')" for b t
    using solo_claim [OF assms(1,2) that(1) assms(3) _ assms(5,6) that(3), of uid ctx ec y z s'] that(2,4) assms(9)
    by simp
  obtain c f where prep: "prepare (new_intent ?k (tc_call_id call) (tc_tool call) (VDict (tc_arguments call))
      (map_option ctx_execution_id ec) now) (intents_of s) = (c, f)" by fastforce
  have "answers cn p y 8 ?a z (ve_files (xs_env s'))"
  proof (cases "get_result (Some ?k) (results_of s)")
    case (Inl e)
    with unc show ?thesis
      by (simp add: numeral_eq_Suc uncached_def look_stored_def assms(5) answers_0 answers_step look_then_def)
  next
    case (Inr o1)
    show ?thesis
    proof (cases o1)
      case (Some stored)
      with Inr unc show ?thesis
        by (auto simp: numeral_eq_Suc uncached_def look_stored_def assms(2,5) answers_0 answers_step look_then_def replay_def
          stored_answer_def files_of_set_parts split: if_splits)
    next
      case None
      let ?b = "becomes p Preparing ?a"
      have one: "answers cn p y 8 ?a z f \<longleftrightarrow> answers cn p y 7 ?b z f" for z f
        using Inr None by (simp add: answers_step look_then_def numeral_eq_Suc)
      show ?thesis
      proof (cases c)
        case e: (Inl e)
        with unc Inr None prep show ?thesis
          unfolding one by (auto simp: numeral_eq_Suc uncached_def look_stored_def assms(2,4,5,6) answers_step admit_def
            answers_0 files_of_set_parts)
      next
        case i: (Inr i)
        let ?s1 = "set_intents f s"
        have rest: "claim_and_run x now uid (cn_owner cn p) (cn_token cn p) ?k call ctx ec ?s1 = (z, s')"
          using unc Inr None prep i
          by (auto simp: uncached_def look_stored_def assms(5,6) admit_def claim_and_run_def refusal_def files_of_set_parts
            set_intents_def set_files_def Let_def split: prod.splits sum.splits option.splits if_splits)
        have then_claims: "answers cn p y 5 b z (ve_files (xs_env s'))"
          if "an_rival b p = Claiming" "an_now b = now" "an_files b = (ve_files (xs_env s))\<lparr>bw_intents := f\<rparr>" for b
          by (rule finish [OF that(1,2) _ rest]) (simp add: that(3) set_intents_def set_files_def)
        show ?thesis
        proof (cases "terminal_state (ti_state i)")
          case False
          let ?c = "becomes p Claiming (with_ledger f ?b)"
          have "answers cn p y 6 ?c z (ve_files (xs_env s'))"
            by (rule answers_more [OF then_claims]) (simp_all add: with_ledger_def)
          then show ?thesis
            unfolding one using prep i False by (simp add: numeral_eq_Suc answers_step assms(2,4))
        next
          case True
          let ?c = "becomes p Claiming (becomes p Rechecking (with_ledger f ?b))"
          have "answers cn p y 5 ?c z (ve_files (xs_env s'))"
            by (rule then_claims) (simp_all add: with_ledger_def)
          then show ?thesis
            unfolding one using prep i True Inr None
            by (simp add: numeral_eq_Suc answers_step assms(2,4) look_then_def)
        qed
      qed
    qed
  qed
  with assms(11) show ?thesis by (simp add: answers_def)
qed


section \<open>No execution waits for another\<close>

fun of_rival :: "nat \<Rightarrow> contest_move \<Rightarrow> bool" where
  "of_rival p (Advance q) = (q = p)"
| "of_rival p (Come_Back q y) = (q = p)"
| "of_rival p (Crash q) = (q = p)"
| "of_rival p _ = False"

text \<open>A rival that makes its moves between bursts of moves of everybody else.\<close>

fun interrupted :: "contest \<Rightarrow> nat \<Rightarrow> tool_result result \<Rightarrow> contest_move list list \<Rightarrow> arena \<Rightarrow> arena" where
  "interrupted cn p y [] s = s"
| "interrupted cn p y (ms # mss) s =
     interrupted cn p y mss (solo cn p y 1 (run (contest_step cn) s ms))"

fun moves_left :: "rival \<Rightarrow> nat" where
  "moves_left Looking = 8"
| "moves_left Preparing = 7"
| "moves_left Rechecking = 6"
| "moves_left Claiming = 5"
| "moves_left Refused = 2"
| "moves_left Late_Look = 1"
| "moves_left Launching = 4"
| "moves_left In_Tool = 3"
| "moves_left (Recording r) = 2"
| "moves_left (Finishing r) = 1"
| "moves_left (Giving_Up y) = 1"
| "moves_left _ = 0"

lemma others_leave_alone:
  "\<forall>m \<in> set ms. \<not> of_rival p m \<Longrightarrow> an_rival (run (contest_step cn) s ms) p = an_rival s p"
proof (induction ms arbitrary: s)
  case (Cons m ms)
  then have "an_rival (contest_step cn s m) p = an_rival s p"
    by (cases m) (simp_all add: advance_other)
  with Cons show ?case by simp
qed simp

lemma own_turn_progress:
  assumes "an_rival s p \<noteq> Crashed"
  shows "an_rival (solo cn p y 1 s) p \<noteq> Crashed
    \<and> moves_left (an_rival (solo cn p y 1 s) p) \<le> moves_left (an_rival s p) - 1"
  using assms
  by (cases "an_rival s p")
    (auto simp: look_then_def come_back_def numeral_eq_Suc split: prod.split sum.split option.split)


section \<open>Samples\<close>

definition sample_contest :: contest where
  "sample_contest =
     \<lparr>cn_key = ''k1'', cn_ttl = 60, cn_call = (\<lambda>_. sample_call), cn_execution = (\<lambda>_. None),
      cn_owner = (\<lambda>p. replicate (Suc p) CHR ''o''), cn_token = (\<lambda>_. ''t'')\<rparr>"

definition empty_files :: bworld where
  "empty_files = \<lparr>bw_intents = Missing, bw_results = Missing\<rparr>"

lemma sample_contest_ok: "contest_ok sample_contest" and empty_files_ok: "bworld_ok empty_files"
  by (simp_all add: contest_ok_def sample_contest_def sample_call_def inj_def bworld_ok_def empty_files_def ledger_ok_def
    results_ok_def read_intents_def read_results_def replicate_eq_replicate)

lemma empty_files_at [simp]:
  "result_at (bw_results empty_files) k = None" "intent_at (bw_intents empty_files) k = None"
  by (simp_all add: empty_files_def result_at_def intent_at_def read_intents_def read_results_def)

lemma plays_run:
  assumes "plays ok cn s0 s" and "\<forall>m \<in> set ms. \<forall>s. ok s m"
  shows "plays ok cn s0 (run (contest_step cn) s ms)"
  using assms by (induction ms arbitrary: s) (simp_all add: plays.moves)

text \<open>The first of two rivals is in the tool, and the second one has been refused.\<close>

definition sample_middle :: arena where
  "sample_middle = run (contest_step sample_contest) (kick_off 0 empty_files)
     (four_moves 0 @ [Advance 1, Advance 1, Pass 5, Advance 1, Advance 1])"

lemma sample_middle_facts:
  "an_rival sample_middle 0 = In_Tool" "an_now sample_middle < an_until sample_middle 0"
  "an_rival sample_middle 1 = Answered (Inr (refusal sample_call))"
  by code_simp+

theorem single_flight_witness:
  "(\<exists>i. intent_at (ledger_of sample_middle) ''k1'' = Some i \<and> held_by ''o'' ''t'' i)
    \<and> an_rival sample_middle 1 = Answered (Inr (refusal sample_call))"
proof -
  have "plays (fair sample_contest) sample_contest (kick_off 0 empty_files) sample_middle"
    unfolding sample_middle_def by (rule plays_run [OF plays.begins]) (simp add: four_moves_def fair_def)
  moreover have "holding (an_rival sample_middle 0)" by (simp add: sample_middle_facts(1))
  ultimately have "\<exists>i. intent_at (ledger_of sample_middle) (cn_key sample_contest) = Some i
      \<and> held_by (cn_owner sample_contest 0) (cn_token sample_contest 0) i"
    using single_flight [OF sample_contest_ok empty_files_ok _ _ sample_middle_facts(2) _ sample_middle_facts(2)]
    by blast
  then show ?thesis using sample_middle_facts(3) by (auto simp: sample_contest_def)
qed

text \<open>The first of two rivals runs the tool to its end, while the second executes the call.\<close>

definition sample_end :: arena where
  "sample_end = run (contest_step sample_contest) (kick_off 0 empty_files)
     (four_moves 0 @ [Advance 1, Come_Back 0 (Inr (tool_success sample_call (VInt 7))), Advance 0, Advance 0,
        Advance 1, Advance 1])"

lemma sample_end_facts:
  "an_rival sample_end 0 = Answered (Inr (tool_success sample_call (VInt 7)))"
  "an_rival sample_end 1 = Answered (Inr (tool_success sample_call (VInt 7)))"
  "an_began sample_end = [0]" "an_lost sample_end = []"
  by code_simp+

lemma sample_end_play:
  "plays (timely sample_contest) sample_contest (kick_off 0 empty_files) sample_end"
  unfolding sample_end_def
  by (rule plays_run [OF plays.begins]) (simp add: four_moves_def timely_def fair_def)

theorem one_run_and_one_per_loss_witness:
  "length (an_began sample_end) \<le> 1 + length (an_lost sample_end) \<and> an_began sample_end = [0] \<and> an_lost sample_end = []"
  using one_run_and_one_per_loss [OF sample_contest_ok empty_files_ok sample_end_play] sample_end_facts(3,4) by simp

lemma sample_definite: "definite sample_contest p (tool_success sample_call (VInt 7))"
  by (simp add: definite_def tool_success_def refusal_def tool_failure_def)

theorem definite_answers_agree_witness:
  "\<exists>st. result_at (registry_of sample_end) ''k1'' = Some st \<and> sr_ok st \<and> sr_error st = None"
proof -
  have k: "cn_key sample_contest = ''k1''" by (simp add: sample_contest_def)
  from definite_answers_agree [OF sample_contest_ok empty_files_ok sample_end_play sample_end_facts(1)
      sample_definite sample_end_facts(2) sample_definite]
  show ?thesis by (simp add: k tool_success_def)
qed

theorem slow_tool_runs_twice_witness:
  "\<exists>ms s. set ms \<subseteq> {Advance 0, Advance 1, Pass 60000000}
    \<and> s = run (contest_step sample_contest) (kick_off 0 empty_files) ms
    \<and> an_rival s 0 = In_Tool \<and> an_rival s 1 = In_Tool \<and> an_began s = [0, 1] \<and> an_lost s = []"
proof -
  have d: "nat (seconds (cn_ttl sample_contest)) = 60000000" by (simp add: sample_contest_def seconds_def)
  from slow_tool_runs_twice [OF sample_contest_ok empty_files_ok zero_neq_one, of 0]
  show ?thesis unfolding d by simp
qed

definition sample_timeout :: tool_result where
  "sample_timeout = tool_failure sample_call (Exc TimeoutError []) False True"

theorem ambiguous_call_run_again_witness:
  "\<exists>ms s. set ms \<subseteq> {Advance 0, Come_Back 0 (Inr sample_timeout), Advance 1}
    \<and> s = run (contest_step sample_contest) (kick_off 0 empty_files) ms
    \<and> an_rival s 0 = Answered (Inr sample_timeout) \<and> an_rival s 1 = In_Tool \<and> an_began s = [0, 1]"
  by (rule ambiguous_call_run_again [OF sample_contest_ok empty_files_ok zero_neq_one])
    (simp_all add: sample_timeout_def tool_failure_def)

theorem solo_rival_is_execute_witness:
  "\<exists>z s'. execute (pay_executor [''spend'']) (\<lambda>_. 0) ''u'' ''o'' ''t'' sample_call pay_ctx None (pay_state [] []) = (z, s')
    \<and> an_rival (solo sample_contest 0 (Inr (tool_success sample_call (VInt 7))) 8
         (kick_off 0 (ve_files (xs_env (pay_state [] []))))) 0 = Answered z"
proof -
  let ?x = "pay_executor [''spend'']" and ?y = "Inr (tool_success sample_call (VInt 7)) :: tool_result result"
  obtain z s' where e: "execute ?x (\<lambda>_. 0) ''u'' ''o'' ''t'' sample_call pay_ctx None (pay_state [] []) = (z, s')"
    by fastforce
  have strip: "clean [''spend''] = [''spend'']" by code_simp
  have apart: "runs_apart ?x 0 ''u'' sample_call pay_ctx None (pay_state [] []) ?y"
    unfolding runs_apart_def
  proof
    fix f
    show "\<exists>s'. execute_once ?x (\<lambda>_. 0) ''u'' sample_call pay_ctx None (set_files f (pay_state [] [])) = (?y, s')
      \<and> ve_files (xs_env s') = f"
      using pay_run [OF strip, of "\<lambda>_. 0" "''u''" None "set_files f (pay_state [] [])"] by auto
  qed
  have c: "cn_call sample_contest 0 = sample_call" "cn_ttl sample_contest = xe_ttl ?x"
    "cn_execution sample_contest 0 = map_option ctx_execution_id None"
    "cn_owner sample_contest 0 = ''o''" "cn_token sample_contest 0 = ''t''" "cn_key sample_contest = ''k1''"
    by (simp_all add: sample_contest_def)
  have "an_rival (solo sample_contest 0 ?y 8 (kick_off 0 (ve_files (xs_env (pay_state [] []))))) 0 = Answered z"
    by (rule conjunct1 [OF solo_rival_is_execute [OF sample_contest_ok c(1-3) _ _ _ _ apart _ refl]])
      (simp_all add: c e)
  with e show ?thesis by blast
qed


end
