(* ===== verification/Concurrent_Stores.thy ===== *)
theory Concurrent_Stores
  imports File_Locks_Spec Store_Spec Intent_Store Idempotency Operator_Queue
begin

text \<open>
  The stores in the hands of concurrent processes: for each of them the calls that processes make on its
  file (\<^verbatim>\<open>with lock: read, change, write\<close>), interleaved as in \<open>File_Locks\<close>, and what the
  operations promise to their callers then.
\<close>

section \<open>The execution store\<close>

text \<open>A store without an audit log of its own, and the calls that write its file.\<close>

definition plain_store :: "state_machine \<Rightarrow> store_file \<Rightarrow> exec_store" where
  "plain_store m f = \<lparr>st_file = f, st_machine = m, st_audit = None\<rparr>"

fun store_op_call :: "host \<Rightarrow> time \<Rightarrow> store_op \<Rightarrow> exec_store \<Rightarrow> exec_state result \<times> exec_store" where
  "store_op_call h now (Do_Save s) st = save h now s st"
| "store_op_call h now (Do_CAS s n est tok val) st = compare_and_set h now s n est tok val st"
| "store_op_call h now (Do_Transition x t ups) st = transition h now x t ups st"
| "store_op_call h now (Do_Fenced x t n est tok val ups) st = transition_fenced h now x t n est tok val ups st"

definition store_call :: "host \<Rightarrow> state_machine \<Rightarrow> store_file \<Rightarrow> time \<times> store_op \<Rightarrow> exec_state result \<times> store_file" where
  "store_call h m f e = map_prod id st_file (store_op_call h (fst e) (snd e) (plain_store m f))"

lemma store_op_call_step: "snd (store_op_call h now e st) = store_step h st (now, e)"
  by (cases e) simp_all

lemma plain_save:
  "snd (save_unlocked h now s n check est tok val (plain_store m f)) =
     plain_store m (st_file (snd (save_unlocked h now s n check est tok val (plain_store m f))))"
  by (auto simp: save_unlocked_def plain_store_def Let_def split: sum.split)

lemma plain_step: "store_step h (plain_store m f) e = plain_store m (snd (store_call h m f e))"
proof -
  obtain now e' where e: "e = (now, e')" by (cases e)
  have "store_step h (plain_store m f) (now, e') = plain_store m (st_file (store_step h (plain_store m f) (now, e')))"
  proof (cases rule: store_step_cases [of h "plain_store m f" now e'])
    case Refused
    then show ?thesis by (simp add: plain_store_def)
  next
    case (Written s n check est tok val)
    then show ?thesis using plain_save by metis
  qed
  then show ?thesis by (simp add: e store_call_def store_op_call_step)
qed

definition plain_ok :: "store_file \<Rightarrow> bool" where
  "plain_ok f \<longleftrightarrow> store_ok f"

lemma plain_inv: "store_inv (plain_store m f) \<longleftrightarrow> plain_ok f"
  by (simp add: store_inv_def plain_store_def plain_ok_def)

interpretation store_files: shared_file "store_call h m" plain_ok for h m
  by unfold_locales (metis plain_inv plain_step store.step_inv)

lemma plain_run:
  "explains (store_call h m) f log f' \<Longrightarrow>
     plain_store m f' = run (store_step h) (plain_store m f) (map (fst \<circ> snd) log)"
  by (induction log arbitrary: f) (auto simp: plain_step)

text \<open>
  C4. Concurrent updates are not lost. Processes that share an execution store may interleave at every
  file access and die anywhere: of two compare-and-sets of one execution that expect the same version,
  if the one written first succeeded (moving the version up by one), the other is refused, whatever
  other operations came between them; and the file stays well-formed.
\<close>

theorem concurrent_updates_not_lost:
  assumes "locks_ok t" and "lt_holder t path = None" and "plain_ok f"
    and "reachable (store_call h m) path (started t f) s"
    and "i < j" and "j < length (ps_log s)"
    and "ps_log s ! i = (p, (n1, Do_CAS a v est1 tok1 val1), Inr a')"
    and "ps_log s ! j = (q, (n2, Do_CAS b v est2 tok2 val2), r)"
    and "es_execution_id b = es_execution_id a"
  shows "(\<exists>e. r = Inl e) \<and> es_version a' = v + 1 \<and> plain_ok (ps_file s)"
proof -
  obtain f1 f2 l f3 where c: "store_call h m f1 (n1, Do_CAS a v est1 tok1 val1) = (Inr a', f2)"
      "explains (store_call h m) f2 l f3" "fst (store_call h m f3 (n2, Do_CAS b v est2 tok2 val2)) = r"
    and ok: "plain_ok f1"
    by (rule store_files.two_calls [OF assms(4,1,2,3,5-8)]) blast
  let ?s1 = "plain_store m f1"
  obtain st2 where first: "compare_and_set h n1 a v est1 tok1 val1 ?s1 = (Inr a', st2)"
    using c(1) by (cases "compare_and_set h n1 a v est1 tok1 val1 ?s1") (simp add: store_call_def)
  have st2: "st2 = plain_store m f2"
    using plain_step [of h m f1 "(n1, Do_CAS a v est1 tok1 val1)"] c(1) first by simp
  have cas: "store_cas h ?s1 (es_execution_id a) v (n1, a, est1, tok1, val1) = Some st2"
    using first by (simp add: store_cas_def)
  have "store_cas h (plain_store m f3) (es_execution_id a) v (n2, b, est2, tok2, val2) = None"
    using store.no_lost_update [OF _ cas, of "map (fst \<circ> snd) l"] plain_run [OF c(2)] ok
    by (simp add: plain_inv st2)
  then have "\<exists>e. r = Inl e"
    using c(3) assms(9) by (auto simp: store_cas_def store_call_def split: prod.splits sum.splits)
  moreover have "es_version a' = v + 1"
  proof (rule store_cas_Some [OF _ cas])
    show "store_inv ?s1" using ok by (simp add: plain_inv)
  next
    fix now s est tok val s'
    assume "(n1, a, est1, tok1, val1) = (now, s, est, tok, val)"
      "compare_and_set h now s v est tok val ?s1 = (Inr s', st2)" "es_version s' = v + 1"
    with first show ?thesis by simp
  qed
  ultimately show ?thesis using store_files.reachable_inv [OF assms(4,1,2,3)] by simp
qed

section \<open>The registry, the ledger and the operator queue\<close>

definition put_call :: "result_file \<Rightarrow> stored_result \<Rightarrow> stored_result result \<times> result_file" where
  "put_call f r = put_if_absent r f"

interpretation result_files: shared_file put_call results_ok
  by unfold_locales (simp add: put_call_def put_ok)

definition ledger_call :: "int \<Rightarrow> intent_file \<Rightarrow> time \<times> intent_op \<Rightarrow> unit \<times> intent_file" where
  "ledger_call ttl f e = ((), intent_step ttl f e)"

interpretation ledger_files: shared_file "ledger_call ttl" ledger_ok for ttl
  by unfold_locales (simp add: ledger_call_def ledger.step_inv)

definition queue_call :: "queue_file \<Rightarrow> queue_op \<Rightarrow> unit \<times> queue_file" where
  "queue_call f e = ((), queue_step f e)"

interpretation queue_files: shared_file queue_call queue_ok
  by unfold_locales (simp add: queue_call_def queue.step_inv)

text \<open>
  What concurrent processes are told of one key is one outcome: two puts that return give the same
  status and error, those of the record that stays.
\<close>

lemma put_outcome:
  assumes "results_ok f" and "put_if_absent r f = (Inr a, f')"
  shows "\<exists>st. result_at f' (sr_key r) = Some st \<and> sr_ok st = sr_ok a \<and> sr_error st = sr_error a"
proof (cases "result_at f (sr_key r)")
  case None
  then show ?thesis using put_new [OF assms(1) None] assms(2) by (metis asdict_result_fields(2,5) Inr_inject prod.inject)
next
  case (Some st)
  then show ?thesis using put_old [OF assms(1) Some] assms(2) by (auto split: if_splits)
qed

lemma puts_keep:
  "explains put_call f l f' \<Longrightarrow> results_ok f \<Longrightarrow> result_at f k = Some st \<Longrightarrow> result_at f' k = Some st"
proof (induction l arbitrary: f)
  case (Cons e l)
  let ?f = "snd (put_call f (fst (snd e)))"
  have "explains put_call ?f l f'" using Cons.prems(1) by (cases e) simp
  then show ?case by (rule Cons.IH) (use Cons.prems(2,3) put_ok put_keeps in \<open>simp_all add: put_call_def\<close>)
qed simp

lemma concurrent_puts_agree:
  assumes "locks_ok t" and "lt_holder t path = None" and "results_ok f"
    and "reachable put_call path (started t f) s" and "i < j" and "j < length (ps_log s)"
    and "ps_log s ! i = (p, r1, Inr a)" and "ps_log s ! j = (q, r2, Inr b)" and "sr_key r1 = sr_key r2"
  shows "sr_ok a = sr_ok b \<and> sr_error a = sr_error b"
proof -
  obtain f1 f2 l f3 where c: "put_call f1 r1 = (Inr a, f2)" "explains put_call f2 l f3" "fst (put_call f3 r2) = Inr b"
    and ok: "results_ok f1" "results_ok f2" "results_ok f3"
    by (rule result_files.two_calls [OF assms(4,1,2,3,5-8)]) blast
  obtain st where st: "result_at f2 (sr_key r1) = Some st" "sr_ok st = sr_ok a" "sr_error st = sr_error a"
    using put_outcome [OF ok(1), of r1 a f2] c(1) by (auto simp: put_call_def)
  have "result_at f3 (sr_key r2) = Some st" using puts_keep [OF c(2) ok(2) st(1)] assms(9) by simp
  then have "b = st" using put_old [OF ok(3)] c(3) by (auto simp: put_call_def split: if_splits)
  with st show ?thesis by simp
qed

section \<open>Samples\<close>

definition sample_file :: store_file where
  "sample_file = Object [(''e1'', VDict (asdict_state run1))]"

definition finish1 :: "string \<Rightarrow> store_op" where
  "finish1 t = Do_CAS (run1\<lparr>es_status := t\<rparr>) 1 (Some ''running'') None None"

text \<open>Two processes finish the same execution; both have read version 1, and one has a crash later on.\<close>

definition sample_race :: "(time \<times> store_op) proc_move list" where
  "sample_race = [Call 0 (9, finish1 ''completed''), Call 1 (9, finish1 ''failed''), Enter 0, Load 0, Store 0, Die 0,
     Enter 1, Load 1, Store 1]"

lemma sample_file_ok: "plain_ok sample_file"
  using sample_store_inv by (simp add: plain_ok_def sample_file_def store_inv_def sample_store_def)

lemma first_call:
  obtains f where "store_call sample_host DEFAULT_TRANSITIONS sample_file (9, Do_CAS (run1\<lparr>es_status := ''completed''\<rparr>) 1
    (Some ''running'') None None) = (Inr done1, f)"
proof -
  let ?st = "plain_store DEFAULT_TRANSITIONS sample_file"
  have "st_machine ?st = DEFAULT_TRANSITIONS" "view (st_file ?st) = [''e1'' \<mapsto> run1]"
    using sample_view by (simp_all add: plain_store_def sample_file_def sample_store_def)
  then show thesis
    using save_refines [of ?st sample_host 9 "run1\<lparr>es_status := ''completed''\<rparr>" "Some 1" True "Some ''running''" None None]
      sample_file_ok sample_spec that
    by (auto simp: store_call_def compare_and_set_def plain_inv)
qed

theorem concurrent_updates_not_lost_witness:
  "\<exists>s :: (time \<times> store_op, store_file, exec_state result) processes. \<exists>e. length (ps_log s) = 2
     \<and> ps_log s ! 0 = (0, (9, finish1 ''completed''), Inr done1) \<and> ps_log s ! 1 = (1, (9, finish1 ''failed''), Inl e)"
proof -
  let ?exec = "store_call sample_host DEFAULT_TRANSITIONS"
  obtain f where f: "?exec sample_file (9, finish1 ''completed'') = (Inr done1, f)"
    unfolding finish1_def by (rule first_call)
  obtain r f' where r: "?exec f (9, finish1 ''failed'') = (r, f')" by fastforce
  have "\<exists>s. proc_steps ?exec ''l'' sample_race (started sample_locks sample_file) = Some s
      \<and> ps_log s = [(0, (9, finish1 ''completed''), Inr done1), (1, (9, finish1 ''failed''), r)]"
    by (simp add: sample_race_def started_def sample_locks_def lock_enter_def open_handle_def touch_def flock_ex_def
        go_to_def let_go_def lock_exit_def flock_un_def f r)
  then obtain s where s: "reachable ?exec ''l'' (started sample_locks sample_file) s"
      "ps_log s = [(0, (9, finish1 ''completed''), Inr done1), (1, (9, finish1 ''failed''), r)]"
    using steps_reachable [OF reachable.start] by blast
  have l: "ps_log s ! 0 = (0, (9, finish1 ''completed''), Inr done1)" "ps_log s ! 1 = (1, (9, finish1 ''failed''), r)"
    "(0::nat) < 1" "1 < length (ps_log s)" using s(2) by simp_all
  have "\<exists>e. r = Inl e"
    by (rule conjunct1 [OF concurrent_updates_not_lost [OF sample_locks_ok sample_file_ok s(1) l(3,4)
          l(1,2) [unfolded finish1_def]]]) simp
  with l s(2) show ?thesis by (intro exI [of _ s]) auto
qed

end
