(* ===== verification/Paths.thy ===== *)
theory Paths
  imports File_Locks_Spec Durable_Files
begin

text \<open>
  Where the stores keep their files: \<^verbatim>\<open>runtime/paths.py\<close> and the paths the constructors of the
  stores work out, with what they use of \<^verbatim>\<open>pathlib\<close> (POSIX paths): parsing, joining, the text of a
  path, suffixes. The other theories name a lock file or a temporary file by appending to the text of the
  path of the file it belongs to; the lemmas here say that this is what \<^verbatim>\<open>with_suffix\<close> does.
\<close>

section \<open>Paths\<close>

text \<open>A path is its root (empty, one slash or two) and its parts.\<close>

type_synonym pure_path = "string \<times> string list"

fun split_at :: "char \<Rightarrow> string \<Rightarrow> string list" where
  "split_at c [] = [[]]"
| "split_at c (x # xs) =
     (if x = c then [] # split_at c xs
      else (case split_at c xs of [] \<Rightarrow> [[x]] | w # ws \<Rightarrow> (x # w) # ws))"

definition path_root :: "string \<Rightarrow> string" where
  "path_root s =
     (if take 2 s = ''//'' \<and> take 3 s \<noteq> ''///'' then ''//'' else if take 1 s = ''/'' then ''/'' else [])"

definition parse_path :: "string \<Rightarrow> pure_path" where
  "parse_path s = (path_root s, filter (\<lambda>c. c \<noteq> [] \<and> c \<noteq> ''.'') (split_at CHR ''/'' s))"

fun join_with :: "string \<Rightarrow> string list \<Rightarrow> string" where
  "join_with sep [] = []"
| "join_with sep [w] = w"
| "join_with sep (w # ws) = w @ sep @ join_with sep ws"

definition path_text :: "pure_path \<Rightarrow> string" where
  "path_text p = (if p = ([], []) then ''.'' else fst p @ join_with ''/'' (snd p))"

text \<open>\<^verbatim>\<open>p / q\<close>\<close>

definition join_path :: "pure_path \<Rightarrow> pure_path \<Rightarrow> pure_path" where
  "join_path p q = (if fst q \<noteq> [] then q else (fst p, snd p @ snd q))"

definition path_name :: "pure_path \<Rightarrow> string" where
  "path_name p = (if snd p = [] then [] else last (snd p))"

text \<open>The suffix of a name: from its last dot on, unless that is its first or its last character.\<close>

fun last_dot :: "string \<Rightarrow> nat option" where
  "last_dot [] = None"
| "last_dot (x # xs) =
     (case last_dot xs of Some i \<Rightarrow> Some (Suc i) | None \<Rightarrow> if x = CHR ''.'' then Some 0 else None)"

definition name_suffix :: "string \<Rightarrow> string" where
  "name_suffix n =
     (case last_dot n of Some i \<Rightarrow> if 0 < i \<and> Suc i < length n then drop i n else [] | None \<Rightarrow> [])"

definition path_suffix :: "pure_path \<Rightarrow> string" where
  "path_suffix p = name_suffix (path_name p)"

text \<open>\<^verbatim>\<open>with_suffix\<close>, for a suffix that begins with a dot and names no directory.\<close>

definition with_suffix :: "string \<Rightarrow> pure_path \<Rightarrow> pure_path result" where
  "with_suffix suf p =
     (if path_name p = [] then Inl (Exc ValueError (path_text p @ '' has an empty name''))
      else Inr (fst p, butlast (snd p) @ [take (length (path_name p) - length (path_suffix p)) (path_name p) @ suf]))"

section \<open>The files of the stores\<close>

text \<open>\<^verbatim>\<open>data_path\<close>; the argument is the environment variable \<^verbatim>\<open>AIOS2_DATA_DIR\<close>.\<close>

definition data_path :: "string option \<Rightarrow> string \<Rightarrow> string" where
  "data_path env filename =
     path_text (join_path (parse_path (case env of None \<Rightarrow> ''data'' | Some d \<Rightarrow> d)) (parse_path filename))"

text \<open>\<^verbatim>\<open>path = path or data_path(...)\<close>, then \<^verbatim>\<open>Path(path)\<close>.\<close>

definition store_path :: "string option \<Rightarrow> string \<Rightarrow> string option \<Rightarrow> pure_path" where
  "store_path env filename path =
     parse_path (if opt_list path \<noteq> [] then opt_list path else data_path env filename)"

definition lock_of :: "pure_path \<Rightarrow> pure_path result" where
  "lock_of p = with_suffix (path_suffix p @ ''.lock'') p"

definition tmp_of :: "pure_path \<Rightarrow> pure_path result" where
  "tmp_of p = with_suffix (path_suffix p @ ''.tmp'') p"

definition STORE_FILES :: "string list" where
  "STORE_FILES =
     [''executions.json'', ''execution_leases.json'', ''execution_commits.jsonl'', ''execution_commits.quarantine.jsonl'',
      ''execution_audit.jsonl'', ''tool_intents.json'', ''tool_idempotency.json'', ''reconciliation_journal.json'',
      ''recovery_queue.jsonl'', ''operator_audit.jsonl'']"

section \<open>Suffixes\<close>

lemma name_suffix_end: "\<exists>b. n = b @ name_suffix n"
proof -
  have "n = take i n @ drop i n" for i by simp
  then show ?thesis unfolding name_suffix_def by (auto split: option.split simp del: append_take_drop_id)
qed

lemma take_before_suffix: "n = b @ s \<Longrightarrow> take (length n - length s) n @ s = n"
  by simp

lemma with_suffix_appends:
  assumes "path_name p \<noteq> []"
  shows "with_suffix (path_suffix p @ e) p = Inr (fst p, butlast (snd p) @ [path_name p @ e])"
proof -
  obtain b where "path_name p = b @ path_suffix p"
    using name_suffix_end [of "path_name p"] by (auto simp: path_suffix_def)
  then have "take (length (path_name p) - length (path_suffix p)) (path_name p) @ path_suffix p = path_name p"
    by (rule take_before_suffix)
  then show ?thesis using assms by (simp add: with_suffix_def flip: append_assoc)
qed

lemma join_with_snoc: "join_with sep (ws @ [w @ e]) = join_with sep (ws @ [w]) @ e"
  by (induction sep ws rule: join_with.induct) simp_all

lemma path_text_appends:
  assumes "path_name p \<noteq> []"
  shows "path_text (fst p, butlast (snd p) @ [path_name p @ e]) = path_text p @ e"
proof -
  have "snd p \<noteq> []" "butlast (snd p) @ [path_name p] = snd p" using assms by (auto simp: path_name_def split: if_splits)
  then show ?thesis using join_with_snoc [of "''/''" "butlast (snd p)" "path_name p" e]
    by (cases p) (auto simp: path_text_def)
qed

text \<open>The lock file and the temporary file of a path are named as the other theories name them.\<close>

lemma lock_of_name: "path_name p \<noteq> [] \<Longrightarrow> map_sum id path_text (lock_of p) = Inr (lock_name (path_text p))"
  by (simp add: lock_of_def with_suffix_appends path_text_appends lock_name_def)

lemma tmp_of_name: "path_name p \<noteq> [] \<Longrightarrow> map_sum id path_text (tmp_of p) = Inr (tmp_name (path_text p))"
  by (simp add: tmp_of_def with_suffix_appends path_text_appends tmp_name_def)

section \<open>Parsing the text of a path\<close>

definition plain_part :: "string \<Rightarrow> bool" where
  "plain_part c \<longleftrightarrow> c \<noteq> [] \<and> c \<noteq> ''.'' \<and> CHR ''/'' \<notin> set c"

definition wf_path :: "pure_path \<Rightarrow> bool" where
  "wf_path p \<longleftrightarrow> fst p \<in> {[], ''/'', ''//''} \<and> list_all plain_part (snd p)"

lemma split_at_part: "c \<notin> set w \<Longrightarrow> split_at c w = [w]"
  by (induction w) auto

lemma split_at_cons: "c \<notin> set w \<Longrightarrow> split_at c (w @ c # s) = w # split_at c s"
  by (induction w) auto

lemma split_at_nonempty: "split_at c s \<noteq> []"
  by (induction s) (auto split: list.split)

lemma split_at_parts: "\<forall>w \<in> set (split_at c s). c \<notin> set w"
proof (induction s)
  case (Cons x s)
  then show ?case using split_at_nonempty [of c s] by (cases "split_at c s") auto
qed simp

lemma split_join:
  "ws \<noteq> [] \<Longrightarrow> list_all plain_part ws \<Longrightarrow> split_at CHR ''/'' (join_with ''/'' ws) = ws"
  by (induction "''/''" ws rule: join_with.induct) (simp_all add: plain_part_def split_at_part split_at_cons)

lemma parse_wf: "wf_path (parse_path s)"
  using split_at_parts [of "CHR ''/''" s]
  by (auto simp: wf_path_def parse_path_def path_root_def plain_part_def list_all_iff)

lemma join_wf: "wf_path p \<Longrightarrow> wf_path q \<Longrightarrow> wf_path (join_path p q)"
  by (auto simp: wf_path_def join_path_def)

lemma filter_plain: "list_all plain_part ws \<Longrightarrow> filter (\<lambda>c. c \<noteq> [] \<and> c \<noteq> ''.'') ws = ws"
  by (auto simp: filter_id_conv list_all_iff plain_part_def)

lemma join_start:
  "list_all plain_part ws \<Longrightarrow> join_with ''/'' ws = [] \<or> hd (join_with ''/'' ws) \<noteq> CHR ''/''"
  by (induction "''/''" ws rule: join_with.induct) (auto simp: plain_part_def hd_append neq_Nil_conv)

text \<open>
  Paths round-trip. The text of a path, parsed again, is the path: for every path that parsing or
  joining can give.
\<close>

theorem path_roundtrip:
  assumes "wf_path p"
  shows "parse_path (path_text p) = p"
proof -
  obtain r ws where p: "p = (r, ws)" by (cases p)
  have r: "r \<in> {[], ''/'', ''//''}" and ws: "list_all plain_part ws" using assms by (simp_all add: wf_path_def p)
  let ?t = "join_with ''/'' ws"
  have root: "path_root (r @ ?t) = r"
    using r join_start [OF ws] by (cases ?t) (auto simp: path_root_def)
  show ?thesis
  proof (cases "ws = []")
    case True
    with r show ?thesis by (auto simp: p path_text_def parse_path_def path_root_def)
  next
    case False
    have "filter (\<lambda>c. c \<noteq> [] \<and> c \<noteq> ''.'') (split_at CHR ''/'' (r @ ?t)) = ws"
      using r split_join [OF False ws] filter_plain [OF ws] by auto
    with root False show ?thesis by (simp add: p path_text_def parse_path_def)
  qed
qed

lemma path_text_inject: "wf_path p \<Longrightarrow> wf_path q \<Longrightarrow> path_text p = path_text q \<Longrightarrow> p = q"
  by (metis path_roundtrip)

section \<open>The default files\<close>

lemma parse_name: "plain_part n \<Longrightarrow> parse_path n = ([], [n])"
  by (cases n rule: list.exhaust) (auto simp: parse_path_def path_root_def plain_part_def split_at_part)

lemma data_path_name:
  assumes "plain_part n"
  shows "data_path env n = path_text (join_path (parse_path (case env of None \<Rightarrow> ''data'' | Some d \<Rightarrow> d)) ([], [n]))"
  using parse_name [OF assms] by (simp add: data_path_def)

lemma data_path_appends:
  assumes "plain_part n" and "plain_part (n @ e)"
  shows "data_path env (n @ e) = data_path env n @ e"
proof -
  let ?d = "parse_path (case env of None \<Rightarrow> ''data'' | Some d \<Rightarrow> d)"
  let ?p = "join_path ?d ([], [n])"
  have "path_name ?p = n" "fst ?p = fst ?d" "butlast (snd ?p) = snd ?d" by (simp_all add: join_path_def path_name_def)
  with path_text_appends [of ?p e] assms(1) show ?thesis
    by (simp add: data_path_name [OF assms(1)] data_path_name [OF assms(2)] join_path_def plain_part_def)
qed

lemma data_path_inject:
  assumes "plain_part m" and "plain_part n" and "data_path env m = data_path env n"
  shows "m = n"
proof -
  let ?d = "parse_path (case env of None \<Rightarrow> ''data'' | Some d \<Rightarrow> d)"
  have "wf_path ([], [m])" "wf_path ([], [n])" using assms(1,2) by (simp_all add: wf_path_def)
  then have "join_path ?d ([], [m]) = join_path ?d ([], [n])"
    using assms(3) data_path_name [OF assms(1), of env] data_path_name [OF assms(2), of env]
    by (intro path_text_inject join_wf parse_wf) simp_all
  then show ?thesis by (simp add: join_path_def)
qed

definition ALL_NAMES :: "string list" where
  "ALL_NAMES = STORE_FILES @ map (\<lambda>n. n @ ''.lock'') STORE_FILES @ map (\<lambda>n. n @ ''.tmp'') STORE_FILES"

lemma all_names: "distinct ALL_NAMES" "list_all plain_part ALL_NAMES"
  by code_simp+

text \<open>
  The stores do not share files. Whatever directory the environment names: the stores that are
  created without a path of their own have different files, and all their lock files and temporary
  files are different from these and from each other; and the path an object works out for its lock is
  the text of its path with \<^verbatim>\<open>.lock\<close> appended.
\<close>

theorem stores_do_not_share_files:
  "distinct (map (data_path env) STORE_FILES @ map (\<lambda>n. lock_name (data_path env n)) STORE_FILES
     @ map (\<lambda>n. tmp_name (data_path env n)) STORE_FILES)
   \<and> (\<forall>n \<in> set STORE_FILES. map_sum id path_text (lock_of (store_path env n None)) = Inr (lock_name (data_path env n)))"
proof
  have plain: "plain_part n" "plain_part (n @ ''.lock'')" "plain_part (n @ ''.tmp'')" if "n \<in> set STORE_FILES" for n
    using that all_names(2) by (auto simp: ALL_NAMES_def list_all_iff)
  have "map (data_path env) ALL_NAMES = map (data_path env) STORE_FILES @ map (\<lambda>n. lock_name (data_path env n)) STORE_FILES
     @ map (\<lambda>n. tmp_name (data_path env n)) STORE_FILES"
    using plain by (simp add: ALL_NAMES_def lock_name_def tmp_name_def data_path_appends)
  moreover have "inj_on (data_path env) (set ALL_NAMES)"
    using data_path_inject all_names(2) by (auto simp: inj_on_def list_all_iff)
  ultimately show "distinct (map (data_path env) STORE_FILES @ map (\<lambda>n. lock_name (data_path env n)) STORE_FILES
     @ map (\<lambda>n. tmp_name (data_path env n)) STORE_FILES)"
    using all_names(1) by (metis distinct_map)
  show "\<forall>n \<in> set STORE_FILES. map_sum id path_text (lock_of (store_path env n None)) = Inr (lock_name (data_path env n))"
  proof
    fix n assume n: "n \<in> set STORE_FILES"
    let ?p = "join_path (parse_path (case env of None \<Rightarrow> ''data'' | Some d \<Rightarrow> d)) ([], [n])"
    have wf: "wf_path ?p" using plain(1) [OF n] by (intro join_wf parse_wf) (simp add: wf_path_def)
    have "path_name ?p \<noteq> []" using plain(1) [OF n] by (simp add: join_path_def path_name_def plain_part_def)
    then show "map_sum id path_text (lock_of (store_path env n None)) = Inr (lock_name (data_path env n))"
      using lock_of_name [of ?p] path_roundtrip [OF wf] data_path_name [OF plain(1) [OF n], of env]
      by (simp add: store_path_def opt_list_def)
  qed
qed

theorem stores_do_not_share_files_witness:
  "data_path (Some ''/srv/aios/'') ''executions.json'' = ''/srv/aios/executions.json''
   \<and> map_sum id path_text (lock_of (store_path (Some ''/srv/aios/'') ''executions.json'' None)) =
       Inr ''/srv/aios/executions.json.lock''"
proof -
  have d: "data_path (Some ''/srv/aios/'') ''executions.json'' = ''/srv/aios/executions.json''" by code_simp
  have "''executions.json'' \<in> set STORE_FILES" by (simp add: STORE_FILES_def)
  with stores_do_not_share_files [of "Some ''/srv/aios/''"]
  have "map_sum id path_text (lock_of (store_path (Some ''/srv/aios/'') ''executions.json'' None)) =
      Inr (lock_name (data_path (Some ''/srv/aios/'') ''executions.json''))" by blast
  with d show ?thesis by (simp add: lock_name_def)
qed

theorem path_roundtrip_witness:
  "parse_path (path_text (''/'', [''srv'', ''aios''])) = (''/'', [''srv'', ''aios''])"
  by (rule path_roundtrip) (simp add: wf_path_def plain_part_def)

section \<open>One file under two locks\<close>

text \<open>
  Processes that share a file but not its lock: each enters the lock file its own object names.
\<close>

fun mover :: "'a proc_move \<Rightarrow> nat" where
  "mover (Call p a) = p"
| "mover (Enter p) = p"
| "mover (Load p) = p"
| "mover (Store p) = p"
| "mover (Leave p) = p"
| "mover (Die p) = p"

fun proc_steps_at ::
    "('f \<Rightarrow> 'a \<Rightarrow> 'r \<times> 'f) \<Rightarrow> (nat \<Rightarrow> string) \<Rightarrow> 'a proc_move list \<Rightarrow> ('a, 'f, 'r) processes \<Rightarrow> ('a, 'f, 'r) processes option" where
  "proc_steps_at exec lock [] s = Some s"
| "proc_steps_at exec lock (m # ms) s =
     (case proc_step exec (lock (mover m)) m s of None \<Rightarrow> None | Some s1 \<Rightarrow> proc_steps_at exec lock ms s1)"

text \<open>With one lock for all this is \<open>proc_steps\<close>.\<close>

lemma proc_steps_one_lock: "proc_steps_at exec (\<lambda>_. path) ms s = proc_steps exec path ms s"
  by (induction ms arbitrary: s) (auto split: option.split)


text \<open>With the default paths no lock is entered twice by the nested blocks, whatever the data directory.\<close>

lemma default_locks_apart:
  assumes "m \<in> set STORE_FILES" and "n \<in> set STORE_FILES" and "m \<noteq> n"
  shows "lock_name (data_path env m) \<noteq> lock_name (data_path env n)"
proof -
  have "list_all plain_part STORE_FILES" using all_names(2) by (simp add: ALL_NAMES_def)
  then have "plain_part m" "plain_part n" using assms(1,2) by (simp_all add: list_all_iff)
  then show ?thesis using data_path_inject assms(3) by (auto simp: lock_name_def)
qed

text \<open>The two locks as the constructors of a coordinated and of a plain lease store choose them.\<close>

definition wired_lock :: "string option \<Rightarrow> nat \<Rightarrow> string" where
  "wired_lock env p =
     coordinated_lease_lock (p = 0) (store_lock_path None (data_path env ''executions.json''))
       (lease_lock_path None (data_path env ''execution_leases.json''))"

lemma wired_locks_differ: "wired_lock env 0 \<noteq> wired_lock env 1"
proof -
  have "lock_name (data_path env ''executions.json'') \<noteq> lock_name (data_path env ''execution_leases.json'')"
    by (rule default_locks_apart) (simp_all add: STORE_FILES_def)
  then show ?thesis
    by (simp add: wired_lock_def coordinated_lease_lock_def store_lock_path_def lease_lock_path_def)
qed

definition grant_of :: "string \<Rightarrow> lease" where
  "grant_of w = \<lparr>ls_execution_id = ''e1'', ls_owner_id = w, ls_expires_at = 60000000, ls_fencing_token = 1\<rparr>"


end
