(* ===== verification/Json_Text.thy ===== *)
theory Json_Text
  imports Journal Sandbox
begin

text \<open>
  The text of JSON-lines files, as far as the runtime's flat records need it: what
  \<^verbatim>\<open>json.dumps(record, ensure_ascii=False)\<close> writes for an object of strings, integers and nulls,
  what \<^verbatim>\<open>json.loads\<close> reads, and how \<^verbatim>\<open>str.splitlines\<close> divides a text. Characters are
  those up to 255; floating-point numbers, nested values, booleans and \<open>\u\<close>-escapes beyond 255, which
  these records never hold, are not read.
\<close>

datatype jval = JNull | JInt int | JStr string

type_synonym jobject = "(string \<times> jval) list"

section \<open>Writing\<close>

abbreviation quote_char :: char where "quote_char \<equiv> CHR 0x22"
abbreviation backslash :: char where "backslash \<equiv> CHR 0x5C"

definition code_of :: "char \<Rightarrow> nat" where
  "code_of c = of_char c"

definition hex_digit :: "nat \<Rightarrow> char" where
  "hex_digit n = (if n < 10 then char_of (48 + n) else char_of (87 + n))"

text \<open>\<^verbatim>\<open>ensure_ascii=False\<close>: only quotes, backslashes and control characters below 32 are escaped.\<close>

definition json_char :: "char \<Rightarrow> string" where
  "json_char c =
     (if c = quote_char then [backslash, quote_char]
      else if c = backslash then [backslash, backslash]
      else if code_of c = 10 then [backslash, CHR ''n'']
      else if code_of c = 13 then [backslash, CHR ''r'']
      else if code_of c = 9 then [backslash, CHR ''t'']
      else if code_of c = 12 then [backslash, CHR ''f'']
      else if code_of c = 8 then [backslash, CHR ''b'']
      else if code_of c < 32 then
        [backslash, CHR ''u'', CHR ''0'', CHR ''0'', hex_digit (code_of c div 16), hex_digit (code_of c mod 16)]
      else [c])"

definition json_string :: "string \<Rightarrow> string" where
  "json_string s = quote_char # concat (map json_char s) @ [quote_char]"

fun json_value :: "jval \<Rightarrow> string" where
  "json_value JNull = ''null''"
| "json_value (JInt i) = str_int i"
| "json_value (JStr s) = json_string s"

fun json_members :: "jobject \<Rightarrow> string" where
  "json_members [] = []"
| "json_members [(k, v)] = json_string k @ '': '' @ json_value v"
| "json_members ((k, v) # kvs) = json_string k @ '': '' @ json_value v @ '', '' @ json_members kvs"

definition json_object :: "jobject \<Rightarrow> string" where
  "json_object kvs = CHR ''{'' # json_members kvs @ ''}''"

section \<open>Reading\<close>

definition hex_value :: "char \<Rightarrow> nat option" where
  "hex_value c =
     (let n = code_of c in
      if 48 \<le> n \<and> n \<le> 57 then Some (n - 48) else if 97 \<le> n \<and> n \<le> 102 then Some (n - 87)
      else if 65 \<le> n \<and> n \<le> 70 then Some (n - 55) else None)"

definition hex_pair :: "char \<Rightarrow> char \<Rightarrow> char option" where
  "hex_pair a b =
     (case (hex_value a, hex_value b) of (Some i, Some j) \<Rightarrow> Some (char_of (16 * i + j)) | _ \<Rightarrow> None)"

definition unescape :: "char \<Rightarrow> char option" where
  "unescape e =
     (if e = quote_char \<or> e = backslash \<or> e = CHR ''/'' then Some e
      else if e = CHR ''n'' then Some (char_of (10 :: nat)) else if e = CHR ''r'' then Some (char_of (13 :: nat))
      else if e = CHR ''t'' then Some (char_of (9 :: nat)) else if e = CHR ''f'' then Some (char_of (12 :: nat))
      else if e = CHR ''b'' then Some (char_of (8 :: nat)) else None)"

text \<open>The rest of a string after its opening quote: its contents, and the text behind it.\<close>

fun read_chars :: "string \<Rightarrow> (string \<times> string) option" where
  "read_chars [] = None"
| "read_chars (c # s) =
     (if c = quote_char then Some ([], s)
      else if c = backslash then
        (case s of
           [] \<Rightarrow> None
         | e # s1 \<Rightarrow>
             (if e = CHR ''u'' then
                (case s1 of
                   z # y # a # b # s2 \<Rightarrow>
                     (if z = CHR ''0'' \<and> y = CHR ''0'' then
                        (case hex_pair a b of
                           None \<Rightarrow> None | Some x \<Rightarrow> map_option (\<lambda>(cs, t). (x # cs, t)) (read_chars s2))
                      else None)
                 | _ \<Rightarrow> None)
              else (case unescape e of
                      None \<Rightarrow> None | Some x \<Rightarrow> map_option (\<lambda>(cs, t). (x # cs, t)) (read_chars s1))))
      else if code_of c < 32 then None
      else map_option (\<lambda>(cs, t). (c # cs, t)) (read_chars s))"

definition skip_space :: "string \<Rightarrow> string" where
  "skip_space s = dropWhile (\<lambda>c. code_of c \<in> {32, 9, 10, 13}) s"

definition read_digits :: "string \<Rightarrow> (int \<times> string) option" where
  "read_digits s = map_option (\<lambda>n. (n, dropWhile is_digit s)) (parse_nat (takeWhile is_digit s))"

definition read_value :: "string \<Rightarrow> (jval \<times> string) option" where
  "read_value s =
     (case s of
        [] \<Rightarrow> None
      | c # t \<Rightarrow>
          (if c = quote_char then map_option (map_prod JStr id) (read_chars t)
           else if c = CHR ''n'' then (if take 3 t = ''ull'' then Some (JNull, drop 3 t) else None)
           else if c = CHR ''-'' then map_option (map_prod (\<lambda>n. JInt (- n)) id) (read_digits t)
           else map_option (map_prod JInt id) (read_digits s)))"

text \<open>
  The members of an object and what follows its closing brace. Every round uses at least one character,
  so as many rounds as the text has characters are enough.
\<close>

fun read_members :: "nat \<Rightarrow> string \<Rightarrow> (jobject \<times> string) option" where
  "read_members 0 s = None"
| "read_members (Suc n) s =
     (case s of
        [] \<Rightarrow> None
      | c # s1 \<Rightarrow>
          if c \<noteq> quote_char then None
          else case read_chars s1 of
            None \<Rightarrow> None
          | Some (k, s2) \<Rightarrow>
              (case skip_space s2 of
                 [] \<Rightarrow> None
               | d # s3 \<Rightarrow>
                   if d \<noteq> CHR '':'' then None
                   else case read_value (skip_space s3) of
                     None \<Rightarrow> None
                   | Some (v, s4) \<Rightarrow>
                       (case skip_space s4 of
                          [] \<Rightarrow> None
                        | e # s5 \<Rightarrow>
                            if e = CHR ''}'' then Some ([(k, v)], s5)
                            else if e = CHR '','' then
                              map_option (\<lambda>(kvs, t). ((k, v) # kvs, t)) (read_members n (skip_space s5))
                            else None)))"

definition read_object :: "nat \<Rightarrow> string \<Rightarrow> (jobject \<times> string) option" where
  "read_object n s =
     (case s of
        [] \<Rightarrow> None
      | c # s1 \<Rightarrow>
          if c \<noteq> CHR ''{'' then None
          else case skip_space s1 of
            [] \<Rightarrow> None
          | d # s2 \<Rightarrow> if d = CHR ''}'' then Some ([], s2) else read_members n (d # s2))"

text \<open>\<^verbatim>\<open>json.loads\<close>: one object, with white space around it and nothing else.\<close>

definition json_loads :: "string \<Rightarrow> jobject option" where
  "json_loads s =
     (case read_object (length s) (skip_space s) of
        Some (kvs, t) \<Rightarrow> if skip_space t = [] then Some kvs else None
      | None \<Rightarrow> None)"

section \<open>Lines\<close>

text \<open>
  \<^verbatim>\<open>str.splitlines\<close>: the line ends among the characters up to 255 are LF, CR (one end together with
  a following LF), VT, FF, FS, GS, RS and NEL, number 133; the last line needs none.
\<close>

definition line_end :: "char \<Rightarrow> bool" where
  "line_end c \<longleftrightarrow> code_of c \<in> {10, 11, 12, 13, 28, 29, 30, 133}"

fun splitlines :: "string \<Rightarrow> string list" where
  "splitlines [] = []"
| "splitlines (c # s) =
     (if line_end c then
        [] # (if code_of c = 13 \<and> s \<noteq> [] \<and> code_of (hd s) = 10 then splitlines (tl s) else splitlines s)
      else (case splitlines s of [] \<Rightarrow> [[c]] | w # ws \<Rightarrow> (c # w) # ws))"

definition parse_line :: "string \<Rightarrow> jobject line" where
  "parse_line s =
     (if strip s = [] then Blank s else case json_loads s of None \<Rightarrow> Bad s | Some kvs \<Rightarrow> Good kvs)"

definition text_lines :: "string \<Rightarrow> jobject line list" where
  "text_lines s = map parse_line (splitlines s)"


section \<open>Reading what was written\<close>

lemma code_less: "code_of c < 256"
  by (simp add: code_of_def)

lemma char_code [simp]: "char_of (code_of c) = c"
  by (simp add: code_of_def)

lemma code_char [simp]: "n < 256 \<Longrightarrow> code_of (char_of n) = n"
  by (simp add: code_of_def)

lemma hex_value_digit: "n < 16 \<Longrightarrow> hex_value (hex_digit n) = Some n"
  by (auto simp: hex_value_def hex_digit_def Let_def)

lemma hex_pair_code:
  assumes "code_of c < 32"
  shows "hex_pair (hex_digit (code_of c div 16)) (hex_digit (code_of c mod 16)) = Some c"
proof -
  have "hex_value (hex_digit (code_of c div 16)) = Some (code_of c div 16)"
    "hex_value (hex_digit (code_of c mod 16)) = Some (code_of c mod 16)"
    using assms by (simp_all add: hex_value_digit)
  moreover have "16 * (code_of c div 16) + code_of c mod 16 = code_of c" by simp
  ultimately show ?thesis by (simp add: hex_pair_def)
qed

lemma read_char: "read_chars (json_char c @ u) = map_option (\<lambda>(cs, t). (c # cs, t)) (read_chars u)"
proof -
  have code: "char_of n = c" if "code_of c = n" for n using char_code [of c] that by simp
  show ?thesis
    by (auto simp: json_char_def unescape_def hex_pair_code code)
qed

lemma read_string: "read_chars (concat (map json_char s) @ quote_char # t) = Some (s, t)"
  by (induction s) (simp_all add: read_char)

lemma parse_nat_append:
  "parse_nat a = Some m \<Longrightarrow> is_digit d \<Longrightarrow> parse_nat (a @ [d]) = Some (10 * m + int (code_of d) - 48)"
  by (auto simp: parse_nat_def code_of_def split: if_splits)

lemma digit_char: "n < 10 \<Longrightarrow> is_digit (char_of (48 + n)) \<and> code_of (char_of (48 + n)) = 48 + n"
  by (simp add: is_digit_def code_of_def)

lemma parse_str_nat: "parse_nat (str_nat n) = Some (int n)"
proof (induction n rule: str_nat.induct)
  case (1 n)
  show ?case
  proof (cases "n < 10")
    case True
    then show ?thesis using digit_char [of n] by (simp add: str_nat.simps parse_nat_def code_of_def)
  next
    case False
    have d: "is_digit (char_of (48 + n mod 10))" "code_of (char_of (48 + n mod 10)) = 48 + n mod 10"
      using digit_char [of "n mod 10"] by simp_all
    have "parse_nat (str_nat (n div 10) @ [char_of (48 + n mod 10)]) =
        Some (10 * int (n div 10) + int (48 + n mod 10) - 48)"
      using parse_nat_append [OF 1 [OF False] d(1)] unfolding d(2) .
    moreover have "10 * int (n div 10) + int (48 + n mod 10) - 48 = int n"
      by (simp add: zdiv_int zmod_int)
    ultimately show ?thesis using False by (simp add: str_nat.simps [of n])
  qed
qed

lemma str_nat_digits: "str_nat n \<noteq> [] \<and> list_all is_digit (str_nat n)"
  using parse_str_nat [of n] by (auto simp: parse_nat_def split: if_splits)

definition no_digit :: "string \<Rightarrow> bool" where
  "no_digit t \<longleftrightarrow> (t = [] \<or> \<not> is_digit (hd t))"

lemma read_nat:
  assumes "no_digit t"
  shows "read_digits (str_nat n @ t) = Some (int n, t)"
proof -
  have "takeWhile is_digit t = []" "dropWhile is_digit t = t"
    using assms by (cases t; simp add: no_digit_def)+
  then show ?thesis
    using str_nat_digits [of n] by (simp add: read_digits_def parse_str_nat takeWhile_append2 dropWhile_append2 list_all_iff)
qed

lemma digit_starts:
  assumes "is_digit c"
  shows "c \<noteq> quote_char" "c \<noteq> CHR ''n''" "c \<noteq> CHR ''-''"
  using assms by (auto simp: is_digit_def)

lemma read_value_text:
  assumes "no_digit t"
  shows "read_value (json_value v @ t) = Some (v, t)"
proof (cases v)
  case JNull
  then show ?thesis by (simp add: read_value_def)
next
  case (JStr s)
  then show ?thesis by (simp add: read_value_def json_string_def read_string)
next
  case (JInt i)
  show ?thesis
  proof (cases "i < 0")
    case True
    then show ?thesis using JInt read_nat [OF assms] by (simp add: read_value_def str_int_def)
  next
    case False
    obtain c u where cu: "str_nat (nat i) = c # u" "is_digit c"
      using str_nat_digits [of "nat i"] by (cases "str_nat (nat i)") auto
    with False show ?thesis
      using JInt read_nat [OF assms, of "nat i"] digit_starts [OF cu(2)] by (simp add: read_value_def str_int_def)
  qed
qed

definition no_space :: "string \<Rightarrow> bool" where
  "no_space t \<longleftrightarrow> (t = [] \<or> code_of (hd t) \<notin> {32, 9, 10, 13})"

lemma skip_none: "no_space t \<Longrightarrow> skip_space t = t"
  by (cases t) (auto simp: no_space_def skip_space_def)

lemma skip_one: "skip_space (CHR '' '' # t) = skip_space t"
  by (simp add: skip_space_def code_of_def)

lemma value_starts: "no_space (json_value v @ t)"
proof (cases v)
  case (JInt i)
  have "no_space (str_nat n @ t)" for n
    using str_nat_digits [of n] by (cases "str_nat n") (auto simp: no_space_def is_digit_def code_of_def)
  with JInt show ?thesis by (simp add: no_space_def str_int_def code_of_def)
qed (simp_all add: no_space_def json_string_def code_of_def)


lemma members_start: "kvs \<noteq> [] \<Longrightarrow> \<exists>s. json_members kvs = quote_char # s"
  by (cases kvs rule: json_members.cases) (auto simp: json_string_def)

lemma read_members_text:
  assumes "kvs \<noteq> []" and "length kvs \<le> n"
  shows "read_members n (json_members kvs @ CHR ''}'' # t) = Some (kvs, t)"
  using assms
proof (induction kvs arbitrary: n rule: json_members.induct)
  case (2 k v)
  have val: "read_value (json_value v @ CHR ''}'' # t) = Some (v, CHR ''}'' # t)"
    by (rule read_value_text) (simp add: no_digit_def is_digit_def)
  obtain m where n: "n = Suc m" using 2 by (cases n) auto
  have "skip_space (CHR '':'' # u) = CHR '':'' # u" "skip_space (CHR ''}'' # u) = CHR ''}'' # u" for u
    by (simp_all add: skip_none no_space_def code_of_def)
  then show ?case
    by (simp add: n json_string_def read_string skip_one skip_none [OF value_starts] val)
next
  case (3 k v kv kvs)
  let ?rest = "json_members (kv # kvs) @ CHR ''}'' # t"
  have val: "read_value (json_value v @ CHR '','' # CHR '' '' # u) = Some (v, CHR '','' # CHR '' '' # u)" for u
    by (rule read_value_text) (simp add: no_digit_def is_digit_def)
  obtain m where n: "n = Suc m" "length (kv # kvs) \<le> m" using 3(3) by (cases n) auto
  have colon: "skip_space (CHR '':'' # u) = CHR '':'' # u" "skip_space (CHR '','' # u) = CHR '','' # u" for u
    by (simp_all add: skip_none no_space_def code_of_def)
  obtain s where "json_members (kv # kvs) = quote_char # s" using members_start by blast
  then have space: "skip_space ?rest = ?rest" by (simp add: skip_none no_space_def code_of_def)
  show ?case
    using 3(1) [OF _ n(2)] space
    by (simp add: n(1) json_string_def read_string skip_one skip_none [OF value_starts] val colon)
qed simp

lemma members_length: "length kvs \<le> length (json_members kvs)"
  by (induction kvs rule: json_members.induct) (simp_all add: json_string_def)

lemma read_object_text:
  assumes "length kvs \<le> n"
  shows "read_object n (json_object kvs @ t) = Some (kvs, t)"
proof (cases "kvs = []")
  case True
  then show ?thesis by (simp add: read_object_def json_object_def skip_none no_space_def code_of_def)
next
  case False
  then obtain s where s: "json_members kvs = quote_char # s" using members_start by blast
  then have "skip_space (json_members kvs @ CHR ''}'' # t) = json_members kvs @ CHR ''}'' # t"
    by (simp add: skip_none no_space_def code_of_def)
  with read_members_text [OF False assms, of t] s show ?thesis
    by (simp add: read_object_def json_object_def)
qed

lemma object_starts: "skip_space (json_object kvs @ t) = json_object kvs @ t"
  by (simp add: json_object_def skip_none no_space_def code_of_def)

text \<open>
  JSON records round-trip. What \<^verbatim>\<open>json.dumps\<close> writes for a flat record, \<^verbatim>\<open>json.loads\<close> reads
  back as the same record, whatever characters its keys and strings hold.
\<close>

theorem json_roundtrip: "json_loads (json_object kvs) = Some kvs"
proof -
  have "length kvs \<le> length (json_object kvs)" using members_length [of kvs] by (simp add: json_object_def)
  then show ?thesis
    using read_object_text [of kvs "length (json_object kvs)" "[]"] object_starts [of kvs "[]"]
    by (simp add: json_loads_def skip_space_def)
qed

section \<open>A record that is cut off is no JSON\<close>

text \<open>What the readers accept they also accept with more text behind it.\<close>

lemma read_chars_more: "read_chars s = Some (cs, t) \<Longrightarrow> read_chars (s @ u) = Some (cs, t @ u)"
proof (induction s arbitrary: cs rule: read_chars.induct)
  case (2 c s)
  show ?case
  proof (cases "c = backslash")
    case True
    show ?thesis
    proof (cases s)
      case Nil
      with 2(4) True show ?thesis by simp
    next
      case (Cons e s1)
      show ?thesis
        using 2 True Cons by (auto split: if_splits list.splits option.splits)
    qed
  next
    case False
    with 2(3,4) show ?thesis by (auto split: if_splits)
  qed
qed simp

lemma skip_more: "skip_space s = d # t \<Longrightarrow> skip_space (s @ u) = d # (t @ u)"
  by (induction s) (auto simp: skip_space_def split: if_splits)

lemma read_digits_more:
  assumes "read_digits s = Some (n, t)" and "t \<noteq> []"
  shows "read_digits (s @ u) = Some (n, t @ u)"
proof -
  have t: "t = dropWhile is_digit s" using assms(1) by (auto simp: read_digits_def)
  then have "\<exists>x \<in> set s. \<not> is_digit x" using assms(2) by (metis dropWhile_eq_Nil_conv)
  then show ?thesis using assms(1) by (auto simp: read_digits_def takeWhile_append1 dropWhile_append1)
qed

lemma read_value_more:
  assumes "read_value s = Some (v, t)" and "t \<noteq> []"
  shows "read_value (s @ u) = Some (v, t @ u)"
proof (cases s)
  case Nil
  with assms show ?thesis by (simp add: read_value_def)
next
  case (Cons c s1)
  have more: "read_digits w = Some (n, t) \<Longrightarrow> read_digits (w @ u) = Some (n, t @ u)" for w n
    using read_digits_more assms(2) by blast
  show ?thesis
    using assms Cons more [of s1] more [of s]
    by (auto simp: read_value_def read_chars_more split: if_splits)
qed

lemma read_members_more:
  "read_members n s = Some (kvs, t) \<Longrightarrow> n \<le> m \<Longrightarrow> read_members m (s @ u) = Some (kvs, t @ u)"
proof (induction n arbitrary: m s kvs)
  case (Suc n)
  obtain m' where m: "m = Suc m'" "n \<le> m'" using Suc.prems(2) by (cases m) auto
  obtain s1 where s: "s = quote_char # s1" using Suc.prems(1) by (auto split: list.splits if_splits)
  then obtain k s2 where k: "read_chars s1 = Some (k, s2)" using Suc.prems(1) by (auto split: option.splits)
  then obtain s3 where c: "skip_space s2 = CHR '':'' # s3"
    using Suc.prems(1) s by (auto split: list.splits if_splits)
  then obtain v s4 where v: "read_value (skip_space s3) = Some (v, s4)"
    using Suc.prems(1) s k by (auto split: option.splits)
  then obtain e s5 where e: "skip_space s4 = e # s5"
    using Suc.prems(1) s k c by (auto split: list.splits)
  have s4: "s4 \<noteq> []" using e by (auto simp: skip_space_def)
  have "skip_space s3 \<noteq> []" using v by (auto simp: read_value_def)
  then have "skip_space (s3 @ u) = skip_space s3 @ u" using skip_more by (cases "skip_space s3") auto
  note more = read_chars_more [OF k, of u] skip_more [OF c, of u] this read_value_more [OF v s4, of u] skip_more [OF e, of u]
  show ?case
  proof (cases "e = CHR ''}''")
    case True
    then show ?thesis using Suc.prems(1) more by (simp add: m s k c v e)
  next
    case False
    then obtain kvs' where r: "read_members n (skip_space s5) = Some (kvs', t)" "kvs = (k, v) # kvs'" "e = CHR '',''"
      using Suc.prems(1) by (auto simp: s k c v e split: if_splits)
    then have "skip_space s5 \<noteq> []" by (cases n) auto
    then have "skip_space (s5 @ u) = skip_space s5 @ u" using skip_more by (cases "skip_space s5") auto
    then show ?thesis using Suc.IH [OF r(1) m(2)] more by (simp add: m(1) s r(2,3))
  qed
qed simp

lemma read_object_more:
  assumes "read_object n s = Some (kvs, t)" and "n \<le> m"
  shows "read_object m (s @ u) = Some (kvs, t @ u)"
proof -
  obtain s1 d s2 where s: "s = CHR ''{'' # s1" "skip_space s1 = d # s2"
    using assms(1) by (auto simp: read_object_def split: list.splits if_splits)
  show ?thesis
    using assms(1) read_members_more [OF _ assms(2), of "d # s2" kvs t u] skip_more [OF s(2), of u]
    by (auto simp: read_object_def s split: if_splits)
qed

lemma prefix_no_json:
  assumes "k < length (json_object kvs)"
  shows "json_loads (take k (json_object kvs)) = None"
proof (rule ccontr)
  let ?x = "json_object kvs"
  assume "json_loads (take k ?x) \<noteq> None"
  then obtain kvs' t where r: "read_object k (skip_space (take k ?x)) = Some (kvs', t)"
    using assms by (auto simp: json_loads_def split: option.splits if_splits)
  have "skip_space (take k ?x) = take k ?x"
    by (cases k) (simp_all add: json_object_def skip_none no_space_def code_of_def)
  then have "read_object (max k (length kvs)) (take k ?x @ drop k ?x) = Some (kvs', t @ drop k ?x)"
    using read_object_more [of k "take k ?x" kvs' t "max k (length kvs)" "drop k ?x"] r by simp
  then have "drop k ?x = []" using read_object_text [of kvs "max k (length kvs)" "[]"] by simp
  with assms show False by simp
qed

end
