(* ===== verification/Audit_Text.thy ===== *)
theory Audit_Text
  imports Json_Text Commit_Spec
begin

text \<open>
  The execution audit log as the text it is (\<^verbatim>\<open>ExecutionAuditLog\<close> of
  \<^verbatim>\<open>runtime/execution_audit.py\<close>): every append reads the whole file, and adds one line to its end
  with a plain write, which a crash can cut anywhere. \<open>Audit_Log\<close> models the log as its lines; the
  lemmas here say when that is right, and what happens when it is not.
\<close>

section \<open>Events as records\<close>

definition jopt :: "string option \<Rightarrow> jval" where
  "jopt x = (case x of None \<Rightarrow> JNull | Some s \<Rightarrow> JStr s)"

text \<open>\<^verbatim>\<open>asdict(event)\<close>\<close>

definition audit_dict :: "host \<Rightarrow> audit_event \<Rightarrow> jobject" where
  "audit_dict h e =
     [(''execution_id'', JStr (ae_execution_id e)), (''from_status'', JStr (ae_from_status e)),
      (''to_status'', JStr (ae_to_status e)), (''attempt'', JInt (ae_attempt e)), (''reason'', jopt (ae_reason e)),
      (''timestamp'', JStr (isoformat h (ae_timestamp e))), (''event_id'', JStr (ae_event_id e)),
      (''correlation_id'', jopt (ae_correlation_id e))]"

definition AUDIT_FIELDS :: "string list" where
  "AUDIT_FIELDS = [''execution_id'', ''from_status'', ''to_status'', ''attempt'', ''reason'', ''timestamp'',
     ''event_id'', ''correlation_id'']"

text \<open>\<^verbatim>\<open>ExecutionAuditEvent(**raw)\<close>: the event stays the record it was read as.\<close>

definition build_event :: "jobject \<Rightarrow> jobject result" where
  "build_event d =
     (if list_all (\<lambda>(k, v). k \<in> set AUDIT_FIELDS) d
         \<and> list_all (\<lambda>k. map_of d k \<noteq> None) [''execution_id'', ''from_status'', ''to_status'']
      then Inr d else Inl (Exc TypeError ''ExecutionAuditEvent() arguments''))"

section \<open>The log\<close>

fun collect_events :: "string option \<Rightarrow> jobject line list \<Rightarrow> jobject list result" where
  "collect_events x [] = Inr []"
| "collect_events x (Blank s # ls) = collect_events x ls"
| "collect_events x (Bad s # ls) = Inl (Exc JSONDecodeError ''invalid JSON line'')"
| "collect_events x (Good d # ls) =
     (if x = None \<or> map_of d ''execution_id'' = Some (JStr (the x)) then
        (case build_event d of
           Inl e \<Rightarrow> Inl e
         | Inr d' \<Rightarrow> (case collect_events x ls of Inl e \<Rightarrow> Inl e | Inr ds \<Rightarrow> Inr (d' # ds)))
      else collect_events x ls)"

definition log_events :: "string option \<Rightarrow> string \<Rightarrow> jobject list result" where
  "log_events x s = collect_events x (text_lines s)"

definition newline :: char where
  "newline = CHR 0x0A"

definition log_line :: "jobject \<Rightarrow> string" where
  "log_line d = json_object d @ [newline]"

text \<open>
  \<open>log_append_upto k\<close> is an append whose process dies when \<open>k\<close> characters of the line are in the file;
  \<open>log_append\<close> goes to its end.
\<close>

definition log_append_upto :: "nat \<Rightarrow> host \<Rightarrow> audit_event \<Rightarrow> string \<Rightarrow> jobject result \<times> string" where
  "log_append_upto k h e0 s =
     (let d = audit_dict h (with_identity h e0) in
      case log_events None s of
        Inl err \<Rightarrow> (Inl err, s)
      | Inr ds \<Rightarrow>
          (case List.find (\<lambda>x. map_of x ''event_id'' = map_of d ''event_id'') ds of
             Some x \<Rightarrow> (Inr x, s)
           | None \<Rightarrow> (Inr d, s @ take k (log_line d))))"

definition log_append :: "host \<Rightarrow> audit_event \<Rightarrow> string \<Rightarrow> jobject result \<times> string" where
  "log_append h e s = log_append_upto (length (log_line (audit_dict h (with_identity h e)))) h e s"

section \<open>Lines of a text\<close>

lemma newline_end [simp]: "line_end newline" "code_of newline = 10"
  by (simp_all add: line_end_def newline_def code_of_def)

definition one_line :: "string \<Rightarrow> bool" where
  "one_line w \<longleftrightarrow> list_all (\<lambda>c. \<not> line_end c) w"

lemma split_last: "one_line w \<Longrightarrow> w \<noteq> [] \<Longrightarrow> splitlines w = [w]"
proof (induction w)
  case (Cons c w)
  then show ?case by (cases "w = []") (simp_all add: one_line_def)
qed simp

lemma split_line: "one_line w \<Longrightarrow> splitlines (w @ newline # s) = w # splitlines s"
  by (induction w) (simp_all add: one_line_def)

lemma split_first: "one_line w \<Longrightarrow> line_end c \<Longrightarrow> \<exists>ws. splitlines (w @ c # s) = w # ws"
  by (induction w) (auto simp: one_line_def)

lemma first_not_blank: "\<not> is_space c \<Longrightarrow> strip (c # t) \<noteq> []"
  by (simp add: strip_def dropWhile_eq_Nil_conv)

lemma object_not_blank: "0 < k \<Longrightarrow> strip (take k (json_object d)) \<noteq> []"
  by (cases k) (simp_all add: json_object_def first_not_blank is_space_def)

lemma parse_written: "parse_line (json_object d) = Good d"
  using object_not_blank [of "length (json_object d)" d] json_roundtrip [of d]
  by (simp add: parse_line_def json_object_def)

lemma parse_cut: "0 < k \<Longrightarrow> k < length (json_object d) \<Longrightarrow> parse_line (take k (json_object d)) = Bad (take k (json_object d))"
  by (simp add: parse_line_def object_not_blank prefix_no_json)

lemma two_no_json: "json_loads (json_object d @ json_object x) = None"
proof -
  have "length d \<le> length (json_object d @ json_object x)" using members_length [of d] by (simp add: json_object_def)
  from read_object_text [OF this, of "json_object x"] show ?thesis
    using object_starts [of d "json_object x"] object_starts [of x "[]"]
    by (simp add: json_loads_def) (simp add: json_object_def)
qed

lemma parse_two: "parse_line (json_object d @ json_object x) = Bad (json_object d @ json_object x)"
proof -
  have "strip (json_object d @ json_object x) \<noteq> []"
    using first_not_blank [of "CHR ''{''" "json_members d @ ''}'' @ json_object x"]
    by (simp add: json_object_def is_space_def)
  then show ?thesis by (simp add: parse_line_def two_no_json)
qed

lemma text_first: "one_line w \<Longrightarrow> text_lines (w @ newline # s) = parse_line w # text_lines s"
  by (simp add: text_lines_def split_line)

text \<open>Only the character 133 in a string makes the text of a record more than one line.\<close>

definition nel :: char where
  "nel = CHR 0x85"

fun nel_free :: "jval \<Rightarrow> bool" where
  "nel_free (JStr s) = (nel \<notin> set s)"
| "nel_free _ = True"

lemma hex_no_end: "n < 16 \<Longrightarrow> \<not> line_end (hex_digit n)"
  by (simp add: line_end_def hex_digit_def)

lemma one_line_simps [simp]:
  "one_line []" "one_line (c # w) \<longleftrightarrow> \<not> line_end c \<and> one_line w" "one_line (a @ b) \<longleftrightarrow> one_line a \<and> one_line b"
  by (simp_all add: one_line_def)

lemma one_line_take: "one_line w \<Longrightarrow> one_line (take k w)"
  by (auto simp: one_line_def list_all_iff dest: in_set_takeD)

lemma ascii_no_end [simp]:
  "\<not> line_end quote_char" "\<not> line_end backslash" "\<not> line_end (CHR '':'')" "\<not> line_end (CHR '','')"
  "\<not> line_end (CHR '' '')" "\<not> line_end (CHR ''{'')" "\<not> line_end (CHR ''}'')" "\<not> line_end (CHR ''-'')"
  "\<not> line_end (CHR ''n'')" "\<not> line_end (CHR ''u'')" "\<not> line_end (CHR ''l'')" "\<not> line_end (CHR ''r'')"
  "\<not> line_end (CHR ''t'')" "\<not> line_end (CHR ''f'')" "\<not> line_end (CHR ''b'')" "\<not> line_end (CHR ''0'')"
  by (simp_all add: line_end_def code_of_def)

lemma char_one_line:
  assumes "c \<noteq> nel"
  shows "one_line (json_char c)"
proof -
  have "code_of nel = 133" by (simp add: nel_def code_of_def)
  then have "char_of (133 :: nat) = nel" using char_code [of nel] by simp
  then have "code_of c \<noteq> 133" using assms char_code [of c] by metis
  then have "\<not> line_end c" if "32 \<le> code_of c" using that by (auto simp: line_end_def)
  moreover have "code_of c < 32 \<Longrightarrow> code_of c div 16 < 16 \<and> code_of c mod 16 < 16" by simp
  ultimately show ?thesis by (simp add: json_char_def hex_no_end)
qed

lemma string_one_line: "nel \<notin> set s \<Longrightarrow> one_line (json_string s)"
proof -
  assume "nel \<notin> set s"
  then have "one_line (concat (map json_char s))" by (induction s) (auto simp: char_one_line)
  then show ?thesis by (simp add: json_string_def)
qed

lemma digits_one_line: "one_line (str_nat n)"
proof -
  have "is_digit c \<Longrightarrow> \<not> line_end c" for c by (auto simp: is_digit_def line_end_def code_of_def)
  then show ?thesis using str_nat_digits [of n] by (auto simp: one_line_def list_all_iff)
qed

lemma value_one_line: "nel_free v \<Longrightarrow> one_line (json_value v)"
  using digits_one_line by (cases v) (simp_all add: string_one_line str_int_def)

lemma members_one_line:
  "list_all (\<lambda>(k, v). nel \<notin> set k \<and> nel_free v) d \<Longrightarrow> one_line (json_members d)"
  by (induction d rule: json_members.induct) (simp_all add: string_one_line value_one_line)

lemma object_one_line:
  "list_all (\<lambda>(k, v). nel \<notin> set k \<and> nel_free v) d \<Longrightarrow> one_line (json_object d)"
  using members_one_line [of d] by (simp add: json_object_def)

text \<open>An event that takes one line: no string of it has the character 133.\<close>

definition plain_event :: "host \<Rightarrow> audit_event \<Rightarrow> bool" where
  "plain_event h e \<longleftrightarrow> list_all (\<lambda>(k, v). nel_free v) (audit_dict h e)"

lemma plain_one_line: "plain_event h e \<Longrightarrow> one_line (json_object (audit_dict h e))"
  by (rule object_one_line) (simp add: plain_event_def audit_dict_def nel_def code_of_def)

lemma string_breaks: "nel \<in> set s \<Longrightarrow> \<not> one_line (json_string s)"
proof (induction s)
  case (Cons c s)
  have "json_char nel = [nel]" "line_end nel" by (simp_all add: json_char_def line_end_def nel_def code_of_def)
  with Cons show ?case by (auto simp: json_string_def)
qed simp

lemma members_break: "\<not> list_all (\<lambda>(k, v). nel_free v) d \<Longrightarrow> \<not> one_line (json_members d)"
proof (induction d rule: json_members.induct)
  case (2 k v)
  then show ?case by (cases v) (simp_all add: string_breaks)
next
  case (3 k v kv kvs)
  then show ?case by (cases v) (auto simp: string_breaks)
qed simp

lemma object_breaks: "\<not> plain_event h e \<Longrightarrow> \<not> one_line (json_object (audit_dict h e))"
  using members_break by (simp add: plain_event_def json_object_def)

lemma break_point: "\<not> one_line w \<Longrightarrow> \<exists>a c b. w = a @ c # b \<and> one_line a \<and> line_end c"
  using split_list_first_prop [of w line_end] by (fastforce simp: one_line_def list_all_iff)

section \<open>The log as lines\<close>

definition written :: "host \<Rightarrow> audit_event list \<Rightarrow> string" where
  "written h es = concat (map (\<lambda>e. log_line (audit_dict h e)) es)"

lemma written_lines:
  "list_all (plain_event h) es \<Longrightarrow> text_lines (written h es @ s) = map (\<lambda>e. Good (audit_dict h e)) es @ text_lines s"
  by (induction es) (simp_all add: written_def log_line_def text_first plain_one_line parse_written)

lemma build_audit: "build_event (audit_dict h e) = Inr (audit_dict h e)"
  by (simp add: build_event_def audit_dict_def AUDIT_FIELDS_def)

lemma collect_written:
  "collect_events None (map (\<lambda>e. Good (audit_dict h e)) es @ ls) =
     (case collect_events None ls of Inl e \<Rightarrow> Inl e | Inr ds \<Rightarrow> Inr (map (audit_dict h) es @ ds))"
  by (induction es) (simp_all add: build_audit split: sum.split)

lemma log_events_written: "list_all (plain_event h) es \<Longrightarrow> log_events None (written h es) = Inr (map (audit_dict h) es)"
  using written_lines [of h es "[]"] collect_written [of h es "[]"]
  by (simp add: log_events_def text_lines_def)

lemma event_id_of: "map_of (audit_dict h e) ''event_id'' = Some (JStr (ae_event_id e))"
  by (simp add: audit_dict_def)

lemma find_dict:
  "List.find (\<lambda>x. map_of x ''event_id'' = map_of (audit_dict h e) ''event_id'') (map (audit_dict h) es) =
     map_option (audit_dict h) (List.find (\<lambda>x. ae_event_id x = ae_event_id e) es)"
  by (induction es) (simp_all add: event_id_of)

text \<open>
  C10. The text of the audit log is its lines. As long as no string of an event has the character 133
  (a line end for \<^verbatim>\<open>splitlines\<close> that \<^verbatim>\<open>json.dumps\<close> does not escape) and every append is
  completed, reading, searching and extending the text does what the log of lines does: same answer,
  and the new text is the text of the new log.
\<close>

theorem log_text_refines_lines:
  assumes "list_all (plain_event h) es" and "audit_append h e (map Good es) = (Inr r, f)"
  shows "\<exists>es'. f = map Good es' \<and> log_append h e (written h es) = (Inr (audit_dict h r), written h es')"
proof -
  let ?e = "with_identity h e"
  note find = find_dict [of h ?e es]
  show ?thesis
  proof (cases "List.find (\<lambda>x. ae_event_id x = ae_event_id ?e) es")
    case None
    then have "r = ?e" "f = map Good (es @ [?e])"
      using assms(2) by (auto simp: audit_append_def audit_events_all Let_def)
    moreover have "log_append h e (written h es) = (Inr (audit_dict h ?e), written h (es @ [?e]))"
      using None find log_events_written [OF assms(1)]
      by (simp add: log_append_def log_append_upto_def Let_def written_def)
    ultimately show ?thesis by blast
  next
    case (Some x)
    then have "r = x" "f = map Good es"
      using assms(2) by (auto simp: audit_append_def audit_events_all Let_def)
    moreover have "log_append h e (written h es) = (Inr (audit_dict h x), written h es)"
      using Some find log_events_written [OF assms(1)]
      by (simp add: log_append_def log_append_upto_def Let_def)
    ultimately show ?thesis by blast
  qed
qed

section \<open>Lines that are no records\<close>

definition unreadable :: "string \<Rightarrow> bool" where
  "unreadable s \<longleftrightarrow> (\<forall>h e. log_append h e s = (Inl (Exc JSONDecodeError ''invalid JSON line''), s))
     \<and> log_events None s = Inl (Exc JSONDecodeError ''invalid JSON line'')"

lemma bad_line_unreadable:
  assumes "list_all (plain_event h) es" and "text_lines s = Bad w # ls"
  shows "unreadable (written h es @ s)"
proof -
  have "log_events None (written h es @ s) = Inl (Exc JSONDecodeError ''invalid JSON line'')"
    using collect_written [of h es "Bad w # ls"] written_lines [OF assms(1), of s] by (simp add: log_events_def assms(2))
  then show ?thesis by (simp add: unreadable_def log_append_def log_append_upto_def Let_def)
qed

text \<open>
  C11. A torn line ends the audit log. If a process dies while it appends an event, with some but not all
  characters of its record in the file, then from then on every read and every append raises and leaves
  the file as it is. If only the newline is missing, one more append succeeds, and the log is unreadable
  after it.
\<close>

theorem torn_append_ends_log:
  assumes "list_all (plain_event h) es" and "plain_event h (with_identity h e)" and "plain_event h (with_identity h x)"
    and "\<forall>y \<in> set es. ae_event_id y \<noteq> ae_event_id (with_identity h e)"
    and "\<forall>y \<in> set (with_identity h e # es). ae_event_id y \<noteq> ae_event_id (with_identity h x)"
    and "0 < k" and "s = snd (log_append_upto k h e (written h es))"
    and "n = length (json_object (audit_dict h (with_identity h e)))"
  shows "(k < n \<longrightarrow> unreadable s)
    \<and> (k = n \<longrightarrow> fst (log_append h x s) = Inr (audit_dict h (with_identity h x)) \<and> unreadable (snd (log_append h x s)))"
proof -
  let ?d = "audit_dict h (with_identity h e)" and ?x = "audit_dict h (with_identity h x)"
  have absent: "List.find (\<lambda>y. ae_event_id y = ae_event_id (with_identity h e)) es = None"
    using assms(4) by (auto simp: find_None_iff)
  have s: "s = written h es @ take k (log_line ?d)"
    using absent find_dict [of h "with_identity h e" es] log_events_written [OF assms(1)]
    by (simp add: assms(7) log_append_upto_def Let_def)
  have line: "one_line (json_object ?d)" "one_line (json_object ?x)"
    using assms(2,3) plain_one_line by blast+
  have "unreadable s" if "k < n"
  proof -
    have cut: "take k (log_line ?d) = take k (json_object ?d)" using that assms(8) by (simp add: log_line_def)
    have "one_line (take k (json_object ?d))" "take k (json_object ?d) \<noteq> []"
      using one_line_take [OF line(1)] assms(6) by (simp_all add: json_object_def)
    then have "text_lines (take k (json_object ?d)) = [parse_line (take k (json_object ?d))]"
      by (simp add: text_lines_def split_last)
    then show ?thesis
      using bad_line_unreadable [OF assms(1)] parse_cut [OF assms(6), of ?d] that assms(8) by (simp add: s cut)
  qed
  moreover have "fst (log_append h x s) = Inr ?x \<and> unreadable (snd (log_append h x s))" if "k = n"
  proof -
    have cut: "take k (log_line ?d) = json_object ?d" using that assms(8) by (simp add: log_line_def)
    have ne: "json_object ?d \<noteq> []" by (simp add: json_object_def)
    have "text_lines (json_object ?d) = [Good ?d]"
      using line(1) ne parse_written by (simp add: text_lines_def split_last)
    then have read: "log_events None s = Inr (map (audit_dict h) (es @ [with_identity h e]))"
      using collect_written [of h es "[Good ?d]"] written_lines [OF assms(1), of "json_object ?d"]
      by (simp add: log_events_def s cut build_audit)
    have "List.find (\<lambda>y. ae_event_id y = ae_event_id (with_identity h x)) (es @ [with_identity h e]) = None"
      using assms(5) by (auto simp: find_None_iff)
    then have app: "log_append h x s = (Inr ?x, s @ log_line ?x)"
      using read find_dict [of h "with_identity h x" "es @ [with_identity h e]"]
      by (simp add: log_append_def log_append_upto_def Let_def)
    let ?w = "json_object ?d @ json_object ?x"
    have "parse_line ?w = Bad ?w" by (rule parse_two)
    moreover have "text_lines (?w @ newline # []) = parse_line ?w # text_lines []"
      by (rule text_first) (use line in simp)
    ultimately have "unreadable (written h es @ ?w @ [newline])"
      by (intro bad_line_unreadable [OF assms(1)]) simp
    moreover have "s @ log_line ?x = written h es @ ?w @ [newline]" unfolding s cut by (simp add: log_line_def)
    ultimately show ?thesis unfolding app by simp
  qed
  ultimately show ?thesis by blast
qed

text \<open>
  A line separator in an event ends the audit log. An event with the character 133 (NEL) in a string,
  such as an error text that came from a tool, is appended with success; from then on every read and
  every append raises.
\<close>

theorem separator_ends_log:
  assumes "list_all (plain_event h) es" and "\<not> plain_event h (with_identity h e)"
    and "\<forall>y \<in> set es. ae_event_id y \<noteq> ae_event_id (with_identity h e)"
    and "(r, s) = log_append h e (written h es)"
  shows "r = Inr (audit_dict h (with_identity h e)) \<and> unreadable s"
proof -
  let ?d = "audit_dict h (with_identity h e)" and ?o = "json_object (audit_dict h (with_identity h e))"
  have absent: "List.find (\<lambda>y. ae_event_id y = ae_event_id (with_identity h e)) es = None"
    using assms(3) by (auto simp: find_None_iff)
  have app: "r = Inr ?d" "s = written h es @ log_line ?d"
    using assms(4) absent find_dict [of h "with_identity h e" es] log_events_written [OF assms(1)]
    by (simp_all add: log_append_def log_append_upto_def Let_def)
  have "\<not> one_line ?o" using assms(2) object_breaks by blast
  then obtain w c v where o: "?o = w @ c # v" "one_line w" "line_end c"
    using break_point by blast
  have "w \<noteq> []" using o(1,3) by (cases w) (auto simp: json_object_def)
  then have k: "0 < length w" "length w < length ?o" "take (length w) ?o = w" using o(1) by simp_all
  obtain ws where "splitlines (w @ c # v @ [newline]) = w # ws" using split_first [OF o(2,3)] by blast
  then have "text_lines (log_line ?d) = Bad w # map parse_line ws"
    using parse_cut [OF k(1,2)] k(3) by (simp add: text_lines_def log_line_def o(1))
  then show ?thesis using app bad_line_unreadable [OF assms(1)] by simp
qed

section \<open>What an unreadable log does to commits\<close>

lemma plain_save_refused:
  "st_audit st = None \<Longrightarrow> save_unlocked h now s n check est tok val st = (Inl e, st') \<Longrightarrow> st' = st"
  by (auto simp: save_unlocked_def Let_def split: sum.splits)

lemma coord_cas_refused:
  assumes "st_audit (co_store w) = None" and "coord_cas h cfg now s est to ck reason w = (Inl e, w')"
  shows "w' = w"
proof -
  obtain st' where c: "compare_and_set h now (next_state s to ck reason) (es_version s) (Some est) (cc_token cfg)
      (Some (fencing_validator cfg now (co_leases w))) (co_store w) = (Inl e, st')" "w' = w\<lparr>co_store := st'\<rparr>"
    using assms(2) by (auto simp: coord_cas_def Let_def split: prod.splits)
  then have "st' = co_store w"
    using plain_save_refused [OF assms(1)] by (auto simp: compare_and_set_def split: if_splits)
  with c(2) show ?thesis by simp
qed

lemma coord_cas_audit: "co_audit (snd (coord_cas h cfg now s est to ck reason w)) = co_audit w"
  by (simp add: coord_cas_def Let_def split: prod.split)

lemma unreadable_audit: "read_lines f = Inl err \<Longrightarrow> audit_append h e f = (Inl err, f)"
  by (simp add: audit_append_def audit_events_all Let_def)

text \<open>
  C13. An unreadable audit log stops every commit half-way. With a bad line in the audit log, a commit
  that changes an execution's state raises: the state is written, the audit and the mark in the journal
  are missing, and so does every attempt to finish it later, by whatever process.
\<close>

theorem unreadable_audit_stops_commits:
  assumes "read_lines (co_audit w) = Inl err" and "st_audit (co_store w) = None"
    and "(y, w') = commit h cfg clk s to_status checkpoint reason w"
    and "st_file (co_store w') \<noteq> st_file (co_store w)"
  shows "y = Inl err \<and> co_audit w' = co_audit w
    \<and> (\<exists>c j. append_journal h c (co_journal w) = (j, co_journal w'))
    \<and> (\<forall>h now c. finish_commit h now c w' = (Inl err, w'))"
proof -
  let ?i = "commit_id_of s to_status"
  obtain r q where p: "pending_commits h (clk 0) True (co_journal w) (co_quarantine w) = (r, q)" by fastforce
  then obtain cs where r: "r = Inr cs" using assms(3,4) by (cases r) (simp_all add: commit_def)
  let ?w0 = "w\<lparr>co_quarantine := q\<rparr>"
  have none: "map_of (rev (map (\<lambda>c. (cm_commit_id c, c)) cs)) ?i = None"
    using assms(3,4) by (cases "map_of (rev (map (\<lambda>c. (cm_commit_id c, c)) cs)) ?i") (simp_all add: commit_def p r Let_def)
  obtain c j where j: "append_journal h (new_commit (clk 1) s to_status checkpoint reason) (co_journal w) = (c, j)" by fastforce
  let ?w1 = "?w0\<lparr>co_journal := j\<rparr>"
  obtain cur where cur: "get_unlocked (clk 2) (es_execution_id s) (st_file (co_store w)) = Inr (Some cur)"
    using assms(3,4) by (cases "get_unlocked (clk 2) (es_execution_id s) (st_file (co_store w))")
      (auto simp: commit_def p r none j Let_def simp del: One_nat_def split: option.splits)
  have valid: "lease_valid cfg (clk 2) (co_leases w) (es_execution_id cur) = Inr True"
    using assms(3,4) by (cases "lease_valid cfg (clk 2) (co_leases w) (es_execution_id cur)")
      (auto simp: commit_def p r none j cur Let_def simp del: One_nat_def split: bool.splits)
  obtain z w2 where cas: "coord_cas h cfg (clk 2) cur (es_status cur) to_status checkpoint reason ?w1 = (z, w2)" by fastforce
  have rest: "(y, w') = (case z of Inl e \<Rightarrow> if tolerated e then (Inr c, w2) else (Inl e, w2)
      | Inr _ \<Rightarrow> (case coord_audit h (commit_event cur to_status reason ?i (clk 2)) w2 of
          (Inl e, w3) \<Rightarrow> (Inl e, w3)
        | (Inr _, w3) \<Rightarrow> (case coord_mark h (clk 2) ?i ''applied'' w3 of (Inl e, w4) \<Rightarrow> (Inl e, w4) | (Inr _, w4) \<Rightarrow> (Inr c, w4))))"
    using assms(3) by (simp add: commit_def p r none j cur valid cas Let_def del: One_nat_def)
  have audit: "co_audit w2 = co_audit w" using coord_cas_audit [of h cfg "clk 2" cur "es_status cur" to_status checkpoint reason ?w1] cas by simp
  show ?thesis
  proof (cases z)
    case (Inl e)
    with cas have "w2 = ?w1" using coord_cas_refused [of ?w1] assms(2) by simp
    with Inl rest assms(4) show ?thesis by (simp split: if_splits)
  next
    case (Inr s')
    have stop: "coord_audit h' e w2 = (Inl err, w2)" for h' e
      using unreadable_audit [OF assms(1)] by (simp add: coord_audit_def audit flip: audit)
    have "co_journal w2 = j" using cas by (auto simp: coord_cas_def Let_def split: prod.splits)
    with Inr rest j show ?thesis by (auto simp: stop audit finish_commit_def)
  qed
qed

section \<open>Samples\<close>

lemma sample_plain: "plain_event sample_host (sample_event ''a'' ''running'')"
    "plain_event sample_host (sample_event ''b'' ''completed'')" "plain_event sample_host (sample_event ''c'' ''failed'')"
  by code_simp+

lemma sample_identity [simp]: "i \<noteq> [] \<Longrightarrow> with_identity h (sample_event i t) = sample_event i t"
  by (simp add: sample_event_def)

lemma sample_id [simp]: "ae_event_id (sample_event i t) = i"
  by (simp add: sample_event_def)

theorem log_text_refines_lines_witness:
  "\<exists>es'. map Good [sample_event ''a'' ''running'', sample_event ''b'' ''completed''] = map Good es'
    \<and> log_append sample_host (sample_event ''b'' ''completed'') (written sample_host [sample_event ''a'' ''running'']) =
       (Inr (audit_dict sample_host (sample_event ''b'' ''completed'')), written sample_host es')"
  by (rule log_text_refines_lines) (simp_all add: sample_plain audit_append_def audit_events_all Let_def)

theorem torn_append_ends_log_witness:
  "unreadable (snd (log_append_upto 20 sample_host (sample_event ''b'' ''completed'')
     (written sample_host [sample_event ''a'' ''running''])))"
proof -
  have "20 < length (json_object (audit_dict sample_host (sample_event ''b'' ''completed'')))" by code_simp
  with torn_append_ends_log [of sample_host "[sample_event ''a'' ''running'']" "sample_event ''b'' ''completed''"
      "sample_event ''c'' ''failed''" 20, OF _ _ _ _ _ _ refl refl]
  show ?thesis by (simp add: sample_plain)
qed

theorem separator_ends_log_witness:
  "unreadable (snd (log_append sample_host (sample_event ''b'' ''failed''\<lparr>ae_reason := Some [nel]\<rparr>)
     (written sample_host [sample_event ''a'' ''running''])))"
proof -
  let ?e = "sample_event ''b'' ''failed''\<lparr>ae_reason := Some [nel]\<rparr>"
  have e: "with_identity sample_host ?e = ?e" "ae_event_id ?e = ''b''" by (simp_all add: sample_event_def)
  have "\<not> plain_event sample_host ?e" by code_simp
  then show ?thesis
    using separator_ends_log [of sample_host "[sample_event ''a'' ''running'']" ?e, OF _ _ _ prod.collapse]
    by (simp add: sample_plain(1) e)
qed

definition broken_audit :: coord where
  "broken_audit = sample_coord\<lparr>co_store := sample_store\<lparr>st_audit := None\<rparr>, co_audit := [Bad ''{'']\<rparr>"

theorem unreadable_audit_stops_commits_witness:
  "\<exists>e w'. commit sample_host Commit_Spec.sample_cfg sample_clk run1 ''completed'' (VStr ''ok'') None broken_audit = (Inl e, w')
    \<and> st_file (co_store w') \<noteq> st_file (co_store broken_audit) \<and> co_audit w' = [Bad ''{'']"
proof -
  obtain y w' where c: "(y, w') = commit sample_host Commit_Spec.sample_cfg sample_clk run1 ''completed'' (VStr ''ok'') None broken_audit"
    by (metis surj_pair)
  have "st_file (co_store (snd (commit sample_host Commit_Spec.sample_cfg sample_clk run1 ''completed'' (VStr ''ok'') None broken_audit)))
      \<noteq> st_file (co_store broken_audit)" by code_simp
  then have changed: "st_file (co_store w') \<noteq> st_file (co_store broken_audit)" by (simp flip: c)
  have "read_lines (co_audit broken_audit) = Inl (Exc JSONDecodeError ''invalid JSON line'')"
    "st_audit (co_store broken_audit) = None" "co_audit broken_audit = [Bad ''{'']"
    by (simp_all add: broken_audit_def)
  with unreadable_audit_stops_commits [OF _ _ c changed] changed c [symmetric] show ?thesis by auto
qed

end
