(* ===== verification/Api.thy ===== *)
theory Api
  imports Control_Plane Status
begin

text \<open>
  \<^verbatim>\<open>api/app.py\<close> and \<^verbatim>\<open>api/main.py\<close> as a whole: the routes of the application, the
  handler behind each, and what a sequence of HTTP calls does to the operators' queue and their
  trail. Which route a call takes is decided by the web framework: a call of a registered method and
  path goes to its handler, and every other call is answered by the framework alone (\<open>fw\<close>). The
  framework also checks the body and the query against the declared models, before the handler sees them.
\<close>

section \<open>The application\<close>

datatype endpoint =
  Health | Ready | Diagnostics | System_Status | Queue | Quarantine | Manual_Review | Resolve | Retry

definition recovery_routes :: "((string \<times> string) \<times> endpoint) list" where
  "recovery_routes = map (\<lambda>(m, p, e). ((m, ''/recovery'' @ p), e))
     [(''GET'', ''/queue'', Queue), (''GET'', ''/quarantine'', Quarantine), (''GET'', ''/manual-review'', Manual_Review),
      (''POST'', ''/resolve'', Resolve), (''POST'', ''/retry'', Retry)]"

definition app_routes :: "((string \<times> string) \<times> endpoint) list" where
  "app_routes =
     [((''GET'', ''/health''), Health), ((''GET'', ''/ready''), Ready), ((''GET'', ''/diagnostics''), Diagnostics),
      ((''GET'', ''/system/status''), System_Status)] @ recovery_routes"

text \<open>
  What the factory builds: the authorizer of the recovery router (it gets the UUID that
  \<^verbatim>\<open>authenticate\<close> may draw) and the readiness check. Without a validator and a
  configuration the environment must hold one, or there is no application.
\<close>

record app =
  ap_authorize :: "string \<Rightarrow> authorizer option"
  ap_ready :: "bool result option"

definition create_app ::
    "auth_env \<Rightarrow> (string \<Rightarrow> validator_fun) option \<Rightarrow> bool result option \<Rightarrow> auth_config option \<Rightarrow> app result" where
  "create_app env operator_validator readiness config =
     map_sum id
       (\<lambda>c. \<lparr>ap_authorize = \<lambda>uuid. Some (app_authorize env uuid (map_option (\<lambda>v. v uuid) operator_validator) c),
             ap_ready = readiness\<rparr>)
       (app_config env (map_option (\<lambda>v. v []) operator_validator) config)"

text \<open>\<^verbatim>\<open>api/main.py: app\<close>.\<close>

definition main_app :: "auth_env \<Rightarrow> app result" where
  "main_app env = create_app env (Some (\<lambda>uuid. authenticate env uuid None)) None None"

section \<open>A call\<close>

record http_call =
  hc_method :: string
  hc_path :: string
  hc_action :: "string option"
  hc_body :: "pydict option"
  hc_request :: request
  hc_uuid :: string
  hc_now :: time

datatype answer = Info pydict | Items "queue_item list" | Resolved resolution

text \<open>The declared models: an optional action of the three, and the two bodies.\<close>

definition RECOVERY_ACTIONS :: "string list" where
  "RECOVERY_ACTIONS = [''quarantine'', ''manual_review'', ''retry'']"

definition query_ok :: "string option \<Rightarrow> bool" where
  "query_ok action \<longleftrightarrow> (case action of None \<Rightarrow> True | Some a \<Rightarrow> List.member RECOVERY_ACTIONS a)"

definition body_text :: "string \<Rightarrow> pydict \<Rightarrow> string response" where
  "body_text k d = (case map_of d k of Some (VStr x) \<Rightarrow> Inr x | _ \<Rightarrow> Inl (HTTP 422))"

definition body_reason :: "pydict \<Rightarrow> string option response" where
  "body_reason d =
     (case map_of d ''reason'' of
        None \<Rightarrow> Inr None | Some VNone \<Rightarrow> Inr None | Some (VStr x) \<Rightarrow> Inr (Some x) | _ \<Rightarrow> Inl (HTTP 422))"

definition resolve_body :: "pydict option \<Rightarrow> resolve_request response" where
  "resolve_body body =
     (case body of
        None \<Rightarrow> Inl (HTTP 422)
      | Some d \<Rightarrow>
         (case (body_text ''execution_id'' d, body_text ''action'' d, body_reason d) of
            (Inr x, Inr a, Inr why) \<Rightarrow> resolve_request x a why
          | _ \<Rightarrow> Inl (HTTP 422)))"

definition retry_body :: "pydict option \<Rightarrow> (string \<times> string option) response" where
  "retry_body body =
     (case body of
        None \<Rightarrow> Inl (HTTP 422)
      | Some d \<Rightarrow>
         (case (body_text ''execution_id'' d, body_reason d) of
            (Inr x, Inr why) \<Rightarrow> if x \<noteq> [] then Inr (x, why) else Inl (HTTP 422)
          | _ \<Rightarrow> Inl (HTTP 422)))"

text \<open>\<open>st\<close> is the status report of the process at an instant.\<close>

fun handle ::
    "(time \<Rightarrow> pydict) \<Rightarrow> app \<Rightarrow> http_call \<Rightarrow> service \<Rightarrow> endpoint \<Rightarrow> answer response \<times> service" where
  "handle st a q sv Health = (Inr (Info health), sv)"
| "handle st a q sv Ready =
     (map_sum id (\<lambda>_. Info [(''status'', VStr ''ready''), (''system'', VStr ''AIOS'')]) (http_ready (ap_ready a)), sv)"
| "handle st a q sv Diagnostics = (Inr (Info diagnostics), sv)"
| "handle st a q sv System_Status = (Inr (Info (st (hc_now q))), sv)"
| "handle st a q sv Queue =
     (if query_ok (hc_action q)
      then (map_sum id Items (http_queue (ap_authorize a (hc_uuid q)) (hc_request q) (hc_action q) sv), sv)
      else (Inl (HTTP 422), sv))"
| "handle st a q sv Quarantine = (map_sum id Items (http_quarantine (ap_authorize a (hc_uuid q)) (hc_request q) sv), sv)"
| "handle st a q sv Manual_Review =
     (map_sum id Items (http_manual_review (ap_authorize a (hc_uuid q)) (hc_request q) sv), sv)"
| "handle st a q sv Resolve =
     (case resolve_body (hc_body q) of
        Inl e \<Rightarrow> (Inl e, sv)
      | Inr p \<Rightarrow> map_prod (map_sum id Resolved) id
                  (http_resolve (hc_now q) (ap_authorize a (hc_uuid q)) (hc_request q) p sv))"
| "handle st a q sv Retry =
     (case retry_body (hc_body q) of
        Inl e \<Rightarrow> (Inl e, sv)
      | Inr (x, why) \<Rightarrow> map_prod (map_sum id Resolved) id
                  (http_retry (hc_now q) (ap_authorize a (hc_uuid q)) (hc_request q) x why sv))"

definition serve ::
    "(string \<Rightarrow> string \<Rightarrow> answer response) \<Rightarrow> (time \<Rightarrow> pydict) \<Rightarrow> app \<Rightarrow> http_call \<Rightarrow> service \<Rightarrow> answer response \<times> service" where
  "serve fw st a q sv =
     (case map_of app_routes (hc_method q, hc_path q) of
        None \<Rightarrow> (fw (hc_method q) (hc_path q), sv)
      | Some e \<Rightarrow> handle st a q sv e)"

fun serve_all ::
    "(string \<Rightarrow> string \<Rightarrow> answer response) \<Rightarrow> (time \<Rightarrow> pydict) \<Rightarrow> app \<Rightarrow> http_call list \<Rightarrow> service \<Rightarrow>
     answer response list \<times> service" where
  "serve_all fw st a [] sv = ([], sv)"
| "serve_all fw st a (q # qs) sv =
     (let (r, sv1) = serve fw st a q sv; (rs, sv2) = serve_all fw st a qs sv1 in (r # rs, sv2))"

section \<open>The deployed application\<close>

lemma main_app_eq: "main_app env = Inr \<lparr>ap_authorize = \<lambda>uuid. control_plane env uuid None, ap_ready = None\<rparr>"
  by (simp add: main_app_def create_app_def app_config_def control_plane_def)

text \<open>
  Nothing gives the deployed application a readiness check, so it is ready whatever happens.
\<close>

lemma deployed_app_always_ready:
  assumes "main_app env = Inr a"
  shows "fst (handle st a q sv Ready) = Inr (Info [(''status'', VStr ''ready''), (''system'', VStr ''AIOS'')])"
  using assms by (auto simp: main_app_eq http_ready_def)

text \<open>Without a complete environment and with no validator there is no application at all.\<close>

lemma no_app_without_credentials:
  assumes "from_env env = Inl e" shows "create_app env None readiness None = Inl e"
  by (simp add: create_app_def app_config_def assms)

text \<open>A caller is known when it carries the configured token.\<close>

definition known :: "auth_env \<Rightarrow> request \<Rightarrow> bool" where
  "known env req \<longleftrightarrow> (case configured env None of None \<Rightarrow> False | Some c \<Rightarrow> entitled c req)"

lemma unknown_not_authenticated: "\<not> known env req \<Longrightarrow> authenticate env uuid None req \<noteq> Inr (Some s)"
  by (auto simp: known_def elim: authenticate_Some)

lemma unknown_context:
  assumes "\<not> known env req"
  obtains e where "router_context (control_plane env uuid None) req = Inl e"
    "require_operator (control_plane env uuid None) req = Inl e"
proof (cases "authenticate env uuid None req")
  case (Inl e)
  then show thesis by (intro that [of "Unhandled e"]) (simp_all add: control_plane_context require_operator_plane)
next
  case (Inr b)
  then have "b = None" using unknown_not_authenticated [OF assms] by (cases b) auto
  with Inr show thesis by (intro that [of "HTTP 403"]) (simp_all add: control_plane_context require_operator_plane)
qed

text \<open>
  What one call does: nothing to the files, or it is the request of a known operator, and one event is
  written that says what became of the queue.
\<close>

inductive effect :: "auth_env \<Rightarrow> request \<Rightarrow> service \<Rightarrow> service \<Rightarrow> operator_event list \<Rightarrow> bool" for env req sv where
  no_effect: "effect env req sv sv []"
| resolved: "\<lbrakk>configured env None = Some c; entitled c req; ac_role c = role_value r; OPERATOR \<le> r; oe_actor e = ac_actor c;
    sv_audit sv' = sv_audit sv @ [Good e]; queue_ok (sv_queue sv');
    k = (oe_execution_id e, oe_action e);
    if oe_outcome e = ''resolved'' then k \<in> open_cases (sv_queue sv) \<and> open_cases (sv_queue sv') = open_cases (sv_queue sv) - {k}
    else sv_queue sv' = sv_queue sv\<rbrakk> \<Longrightarrow> effect env req sv sv' [e]"

lemma service_resolve_effect:
  assumes "queue_ok (sv_queue sv)" and "snd (service_resolve now x a actor why cid sv) = sv'"
  obtains e where "oe_actor e = actor" "sv_audit sv' = sv_audit sv @ [Good e]" "queue_ok (sv_queue sv')"
    "oe_execution_id e = x" "oe_action e = a"
    "if oe_outcome e = ''resolved'' then (x, a) \<in> open_cases (sv_queue sv) \<and> open_cases (sv_queue sv') = open_cases (sv_queue sv) - {(x, a)}
     else sv_queue sv' = sv_queue sv"
proof -
  obtain q where q: "queue_resolve x a (sv_queue sv) = (Inr ((x, a) \<in> open_cases (sv_queue sv)), q)"
    "queue_ok q" "open_cases q = open_cases (sv_queue sv) - {(x, a)}"
    using resolve_cases(1-3) [OF assms(1) prod.collapse [symmetric]]
    by (intro that [of "snd (queue_resolve x a (sv_queue sv))"]) (auto simp: prod_eq_iff)
  have same: "(x, a) \<notin> open_cases (sv_queue sv) \<Longrightarrow> q = sv_queue sv"
    using q(1) by (auto simp: queue_resolve_def Let_def split: sum.splits if_splits)
  show thesis
  proof (cases "(x, a) \<in> open_cases (sv_queue sv)")
    case True
    then show thesis
      using q(2,3)
      by (intro that [of "\<lparr>oe_action = a, oe_execution_id = x, oe_actor = actor, oe_outcome = ''resolved'',
            oe_reason = why, oe_correlation_id = cid, oe_created_at = now\<rparr>"])
        (simp_all add: assms(2) [symmetric] q(1) service_resolve_def audit_operator_def operator_append_def)
  next
    case False
    then show thesis
      using q same
      by (intro that [of "\<lparr>oe_action = a, oe_execution_id = x, oe_actor = actor, oe_outcome = ''not_found'',
            oe_reason = why, oe_correlation_id = cid, oe_created_at = now\<rparr>"])
        (simp_all add: assms(2) [symmetric] q(1) service_resolve_def audit_operator_def operator_append_def)
  qed
qed

lemma http_resolve_effect:
  assumes "queue_ok (sv_queue sv)" and "snd (http_resolve now (control_plane env uuid None) req p sv) = sv'"
  shows "\<exists>es. effect env req sv sv' es"
proof (cases "require_operator (control_plane env uuid None) req")
  case (Inl e)
  with assms(2) have "sv' = sv" by (simp add: http_resolve_def)
  then show ?thesis by (auto intro: no_effect)
next
  case (Inr s)
  then have auth: "authenticate env uuid None req = Inr (Some s)" and r: "OPERATOR \<le> sc_role s"
    by (auto simp: require_operator_plane split: sum.splits option.splits if_splits)
  obtain c where c: "configured env None = Some c" "entitled c req" "sc_actor s = ac_actor c" "ac_role c = role_value (sc_role s)"
    using auth by (rule authenticate_Some)
  obtain e where e: "oe_actor e = sc_actor s" "sv_audit sv' = sv_audit sv @ [Good e]" "queue_ok (sv_queue sv')"
    "oe_execution_id e = rr_execution_id p" "oe_action e = rr_action p"
    "if oe_outcome e = ''resolved''
     then (rr_execution_id p, rr_action p) \<in> open_cases (sv_queue sv)
       \<and> open_cases (sv_queue sv') = open_cases (sv_queue sv) - {(rr_execution_id p, rr_action p)}
     else sv_queue sv' = sv_queue sv"
    by (rule service_resolve_effect [OF assms(1) resolve_authorized [OF Inr, of now p sv, symmetric, unfolded assms(2)]])
  have "effect env req sv sv' [e]"
    by (rule resolved [OF c(1,2,4) r e(1) [unfolded c(3)] e(2,3) refl]) (rule e(6) [folded e(4,5)])
  then show ?thesis by blast
qed

lemma handle_effect:
  assumes "main_app env = Inr a" and "queue_ok (sv_queue sv)"
  shows "\<exists>es. effect env (hc_request q) sv (snd (handle st a q sv e)) es"
proof -
  have auth: "ap_authorize a uuid = control_plane env uuid None" for uuid using assms(1) by (auto simp: main_app_eq)
  have none: "\<exists>es. effect env (hc_request q) sv sv es" by (blast intro: no_effect)
  note some = http_resolve_effect [OF assms(2) refl]
  show ?thesis
  proof (cases e)
    case Resolve
    show ?thesis by (cases "resolve_body (hc_body q)") (simp_all add: Resolve none some auth)
  next
    case Retry
    show ?thesis by (cases "retry_body (hc_body q)") (simp_all add: Retry none some auth http_retry_def split_beta)
  qed (simp_all add: none)
qed

lemma serve_effect:
  assumes "main_app env = Inr a" and "queue_ok (sv_queue sv)"
  shows "\<exists>es. effect env (hc_request q) sv (snd (serve fw st a q sv)) es"
  using handle_effect [OF assms] no_effect
  by (cases "map_of app_routes (hc_method q, hc_path q)") (simp_all only: serve_def option.case snd_conv, blast+)

text \<open>The case of an event, the cases a list of events closed, and the requests that may write one.\<close>

definition event_key :: "operator_event \<Rightarrow> string \<times> string" where
  "event_key e = (oe_execution_id e, oe_action e)"

definition closings :: "operator_event list \<Rightarrow> (string \<times> string) list" where
  "closings es = map event_key (filter (\<lambda>e. oe_outcome e = ''resolved'') es)"

lemma closings_simps [simp]: "closings [] = []" "closings (es @ es') = closings es @ closings es'"
  by (simp_all add: closings_def)

definition accounted :: "auth_env \<Rightarrow> http_call list \<Rightarrow> service \<Rightarrow> service \<Rightarrow> operator_event list \<Rightarrow> bool" where
  "accounted env qs sv sv' es \<longleftrightarrow>
     queue_ok (sv_queue sv') \<and> sv_audit sv' = sv_audit sv @ map Good es
     \<and> distinct (closings es)
     \<and> set (closings es) \<subseteq> open_cases (sv_queue sv)
     \<and> open_cases (sv_queue sv') = open_cases (sv_queue sv) - set (closings es)
     \<and> length es \<le> length (filter (known env) (map hc_request qs))
     \<and> (es \<noteq> [] \<longrightarrow> (\<exists>c r. configured env None = Some c \<and> ac_role c = role_value r \<and> OPERATOR \<le> r
          \<and> (\<forall>e \<in> set es. oe_actor e = ac_actor c)))"

lemma accounted_append:
  assumes "accounted env qs sv sv1 es" and "accounted env qs' sv1 sv2 es'"
  shows "accounted env (qs @ qs') sv sv2 (es @ es')"
proof -
  have "distinct (closings (es @ es'))" "set (closings (es @ es')) \<subseteq> open_cases (sv_queue sv)"
    "open_cases (sv_queue sv2) = open_cases (sv_queue sv) - set (closings (es @ es'))"
    using assms unfolding accounted_def by auto
  moreover have "\<exists>c r. configured env None = Some c \<and> ac_role c = role_value r \<and> OPERATOR \<le> r
      \<and> (\<forall>e \<in> set (es @ es'). oe_actor e = ac_actor c)" if "es @ es' \<noteq> []"
  proof (cases "es = []")
    case True
    with assms(2) that show ?thesis by (simp add: accounted_def)
  next
    case False
    then obtain c r where c: "configured env None = Some c" "ac_role c = role_value r" "OPERATOR \<le> r"
      "\<forall>e \<in> set es. oe_actor e = ac_actor c"
      using assms(1) unfolding accounted_def by blast
    moreover have "\<forall>e \<in> set es'. oe_actor e = ac_actor c"
      using assms(2) c(1) by (cases "es' = []") (auto simp: accounted_def)
    ultimately show ?thesis by (intro exI [of _ c] exI [of _ r]) auto
  qed
  ultimately show ?thesis using assms unfolding accounted_def by simp
qed

lemma effect_accounted:
  assumes "effect env (hc_request q) sv sv1 es" and "queue_ok (sv_queue sv)"
  shows "accounted env [q] sv sv1 es"
  using assms(1)
proof cases
  case no_effect
  with assms(2) show ?thesis by (simp add: accounted_def)
next
  case (resolved c r e k)
  have "known env (hc_request q)" using resolved(2,3) by (simp add: known_def)
  moreover have "open_cases (sv_queue sv1) = open_cases (sv_queue sv) - set (closings [e])"
    "set (closings [e]) \<subseteq> open_cases (sv_queue sv)" "distinct (closings [e])"
    using resolved(9,10) by (simp_all add: closings_def event_key_def split: if_splits)
  ultimately show ?thesis using resolved(1-8) by (auto simp only: accounted_def set_simps list.size filter.simps list.map if_True)
qed

section \<open>Properties\<close>

text \<open>
  C36. The operators' trail accounts for the queue. Whatever sequence of HTTP calls the deployed application
  serves, the trail is only appended to, by at most one event for each call that carried the configured
  token and only when the configured role is at least operator; every event names the configured actor;
  and the cases that are no longer open are exactly those with a resolved event, each closed once. No case
  is closed without its event and no call opens one.
\<close>

theorem trail_accounts_for_queue:
  assumes "main_app env = Inr a" and "queue_ok (sv_queue sv)" and "serve_all fw st a qs sv = (rs, sv')"
  shows "\<exists>es. accounted env qs sv sv' es"
  using assms(2,3)
proof (induction qs arbitrary: sv rs)
  case Nil
  then show ?case by (intro exI [of _ "[]"]) (simp add: accounted_def closings_def)
next
  case (Cons q qs)
  obtain r sv1 where q: "serve fw st a q sv = (r, sv1)" by (cases "serve fw st a q sv") auto
  obtain rs1 where qs: "serve_all fw st a qs sv1 = (rs1, sv')"
    using Cons.prems(2) q by (auto split: prod.splits)
  obtain es1 where es1: "effect env (hc_request q) sv sv1 es1"
    using serve_effect [OF assms(1) Cons.prems(1), of q fw st] q by (simp only: snd_conv) blast
  note acc = effect_accounted [OF es1 Cons.prems(1)]
  then have "queue_ok (sv_queue sv1)" by (simp add: accounted_def)
  with Cons.IH qs obtain es2 where "accounted env qs sv1 sv' es2" by blast
  from accounted_append [OF acc this] show ?case by auto
qed

text \<open>An operator closes a case twice, and a stranger tries in between.\<close>

definition sample_call :: http_call where
  "sample_call =
     \<lparr>hc_method = ''POST'', hc_path = ''/recovery/resolve'', hc_action = None,
      hc_body = Some [(''execution_id'', VStr ''e1''), (''action'', VStr ''manual_review'')],
      hc_request = sample_request, hc_uuid = ''u'', hc_now = 9\<rparr>"

definition stranger_call :: http_call where
  "stranger_call = sample_call\<lparr>hc_request := sample_request\<lparr>rq_authorization := Some ''Bearer guess''\<rparr>\<rparr>"

definition sample_app :: app where
  "sample_app = \<lparr>ap_authorize = \<lambda>uuid. control_plane sample_env uuid None, ap_ready = None\<rparr>"

lemma sample_app: "main_app sample_env = Inr sample_app"
  by (simp add: main_app_eq sample_app_def)

theorem trail_accounts_for_queue_witness:
  "\<exists>rs sv' es. serve_all (\<lambda>m p. Inl (HTTP 404)) (\<lambda>now. []) sample_app [stranger_call, sample_call, sample_call] sample_service = (rs, sv')
     \<and> accounted sample_env [stranger_call, sample_call, sample_call] sample_service sv' es
     \<and> open_cases (sv_queue sv') = {} \<and> map oe_outcome es = [''resolved'', ''not_found'']"
proof -
  let ?fw = "\<lambda>m p. Inl (HTTP 404)" and ?st = "\<lambda>now. []" and ?qs = "[stranger_call, sample_call, sample_call]"
  obtain rs sv' where r: "serve_all ?fw ?st sample_app ?qs sample_service = (rs, sv')"
    by (cases "serve_all ?fw ?st sample_app ?qs sample_service") auto
  have ok: "queue_ok (sv_queue sample_service)"
    by (simp add: sample_service_def queue_ok_def sample_item_def new_item_def)
  obtain es where es: "accounted sample_env ?qs sample_service sv' es"
    using trail_accounts_for_queue [OF sample_app ok r] by blast
  have "sv_queue (snd (serve_all ?fw ?st sample_app ?qs sample_service)) = [Good (sample_item\<lparr>qi_resolved := True\<rparr>)]"
    "map (\<lambda>l. case l of Good e \<Rightarrow> oe_outcome e | _ \<Rightarrow> []) (sv_audit (snd (serve_all ?fw ?st sample_app ?qs sample_service)))
       = [''resolved'', ''not_found'']"
    by code_simp+
  then have q: "sv_queue sv' = [Good (sample_item\<lparr>qi_resolved := True\<rparr>)]"
    and t: "map (\<lambda>l. case l of Good e \<Rightarrow> oe_outcome e | _ \<Rightarrow> []) (sv_audit sv') = [''resolved'', ''not_found'']"
    unfolding r by (simp_all only: snd_conv)
  have "open_cases (sv_queue sv') = {}" by (simp add: q open_cases_def)
  moreover have "sv_audit sv' = map Good es" using es by (simp add: accounted_def sample_service_def)
  then have "map oe_outcome es = [''resolved'', ''not_found'']" using t by (simp add: o_def)
  ultimately show ?thesis by (intro exI [of _ rs] exI [of _ sv'] exI [of _ es] conjI) (use r es in simp_all)
qed

text \<open>
  C12. A caller without the configured token learns nothing and changes nothing. Whatever it asks, the
  answer is the same for every content of the operators' queue and trail, and both stay as they are.
\<close>

theorem outsiders_learn_nothing:
  assumes "main_app env = Inr a" and "\<not> known env (hc_request q)"
  shows "fst (serve fw st a q sv) = fst (serve fw st a q sv2) \<and> snd (serve fw st a q sv) = sv"
proof -
  have auth: "ap_authorize a uuid = control_plane env uuid None" for uuid using assms(1) by (auto simp: main_app_eq)
  obtain e where e: "router_context (control_plane env (hc_uuid q) None) (hc_request q) = Inl e"
    "require_operator (control_plane env (hc_uuid q) None) (hc_request q) = Inl e"
    by (rule unknown_context [OF assms(2)])
  have "fst (handle st a q sv ep) = fst (handle st a q sv2 ep) \<and> snd (handle st a q sv ep) = sv" for ep
    by (cases ep; cases "resolve_body (hc_body q)"; cases "retry_body (hc_body q)")
      (simp_all add: auth e http_queue_def http_quarantine_def http_manual_review_def http_resolve_def http_retry_def split_beta)
  then show ?thesis by (cases "map_of app_routes (hc_method q, hc_path q)") (simp_all only: serve_def option.case fst_conv snd_conv)
qed

theorem outsiders_learn_nothing_witness:
  "fst (serve (\<lambda>m p. Inl (HTTP 404)) (\<lambda>now. []) sample_app stranger_call sample_service)
     = fst (serve (\<lambda>m p. Inl (HTTP 404)) (\<lambda>now. []) sample_app stranger_call \<lparr>sv_queue = [], sv_audit = []\<rparr>)"
proof -
  have "\<not> known sample_env (hc_request stranger_call)" by code_simp
  from outsiders_learn_nothing [OF sample_app this] show ?thesis by blast
qed

end
