(* ===== verification/Spec2Isabelle.thy ===== *)
theory Spec2Isabelle
  imports Commit_Spec Executor_Spec Intent_Worker Control_Plane Lifecycle_Spec Agent_Spec Bounded_Recovery_Spec
    Orchestration_Spec Status File_Locks_Spec Durable_Files_Spec
    Concurrent_Executors_Spec Concurrent_Stores Paths Audit_Text Api
begin

text \<open>
  A model of the AIOS2 runtime (\<^verbatim>\<open>src/runtime\<close>, \<^verbatim>\<open>src/api\<close>, \<^verbatim>\<open>src/kernel\<close>,
  \<^verbatim>\<open>src/cognition\<close>, \<^verbatim>\<open>src/observability\<close>, \<^verbatim>\<open>src/reliability\<close>,
  \<^verbatim>\<open>src/security\<close>) and what it guarantees. The runtime executes the plans of agents, keeps what it
  does in files, and is to survive crashes, restarts and competing processes without running a tool
  twice, losing an outcome or letting a process that lost its lease write.

  \<^bold>\<open>The program and the theories.\<close> Paths are relative to \<^verbatim>\<open>src/runtime\<close> where nothing else
  is said. A theory \<open>X_Spec\<close> holds the properties of the components of \<open>X\<close>.

  \<^item> \<open>Prelude\<close>: exceptions and their class hierarchy, Python and JSON values, dictionaries in insertion
    order, JSON files and JSON-lines files, runs. \<open>Interfaces\<close>: the contracts between components as
    locales (\<open>step_system\<close>, \<open>write_once\<close>, \<open>versioned_store\<close>, \<open>fencing_authority\<close>; a fifth,
    \<open>shared_file\<close>, is in \<open>File_Locks_Spec\<close>); each is interpreted on the model of the component that
    provides it: the audit log, the tool results, the intent ledger and the reconciliation journal are
    write-once tables, the execution store is a versioned store, the lease store a fencing authority.
  \<^item> \<open>State_Machine\<close>: \<^verbatim>\<open>execution_state_machine.py\<close>, the legal transitions as a table and as the
    inductive relation \<open>lifecycle\<close>.
  \<^item> \<open>Protocol\<close>: \<^verbatim>\<open>execution_context.py\<close>, \<^verbatim>\<open>execution_events.py\<close>, \<^verbatim>\<open>event_types.py\<close>,
    \<^verbatim>\<open>tool_protocol.py\<close>, \<^verbatim>\<open>event_bus.py\<close>.
  \<^item> \<open>Values\<close>, \<open>Execution_Store\<close>, \<open>Store_Spec\<close>: \<^verbatim>\<open>execution_store.py\<close>. The store is refined to
    a map from executions to records (\<open>view\<close>); compare-and-set implements \<open>spec_save\<close> on it.
  \<^item> \<open>Audit_Log\<close>: \<^verbatim>\<open>execution_audit.py\<close>. \<open>Lease\<close>: \<^verbatim>\<open>execution_lease.py\<close>.
  \<^item> \<open>Journal\<close>, \<open>Commit\<close>, \<open>Commit_Spec\<close>: \<^verbatim>\<open>execution_commit.py\<close>. A commit journals its intent,
    writes the state, audits it and marks the journal; \<open>commit_upto\<close> is a commit that dies after a
    given number of these writes, and reconciliation brings every such state to the same end.
  \<^item> \<open>Intent_Store\<close>, \<open>Idempotency\<close>, \<open>Boundary\<close>: \<^verbatim>\<open>tool_intent_store.py\<close>,
    \<^verbatim>\<open>tool_idempotency_store.py\<close>, \<^verbatim>\<open>execution_boundary.py\<close>,
    \<^verbatim>\<open>execution_boundary_adapter.py\<close>, \<^verbatim>\<open>tool_execution_coordinator.py\<close>: the intent ledger
    with its claims, the first outcome of every call, and the order in which both are written.
  \<^item> \<open>Sandbox\<close>, \<open>Tool_Executor\<close>, \<open>Executor_Spec\<close>: \<^verbatim>\<open>tool_registry.py\<close>,
    \<^verbatim>\<open>tool_sandbox.py\<close>, \<^verbatim>\<open>tool_executor.py\<close>. Tools are functions on a world of their own; that a
    tool did not run again is that this world did not change.
  \<^item> \<open>Reconciliation\<close>, \<open>Intent_Worker\<close>: \<^verbatim>\<open>reconciliation_journal.py\<close>, \<^verbatim>\<open>recovery_policy.py\<close>,
    \<^verbatim>\<open>intent_recovery_worker.py\<close>. \<open>Bounded_Recovery\<close>: \<^verbatim>\<open>tool_intent_recovery.py\<close>, with the task
    that renews the claim beside it.
  \<^item> \<open>Checkpoint\<close>, \<open>Loop\<close>, \<open>Loop_Spec\<close>: \<^verbatim>\<open>recovery_checkpoint.py\<close>,
    \<^verbatim>\<open>lease_aware_checkpoint.py\<close>, \<^verbatim>\<open>autonomous_loop.py\<close>, \<^verbatim>\<open>replanning.py\<close>,
    \<^verbatim>\<open>runtime_factory.py\<close>. The loop's fuel is the number of attempts left of the configured maximum.
  \<^item> \<open>Recovery\<close>, \<open>Recovery_Spec\<close>: \<^verbatim>\<open>recovery_manager.py\<close>, \<^verbatim>\<open>recovery_outcome.py\<close>,
    \<^verbatim>\<open>recovery_orchestrator.py\<close>.
  \<^item> \<open>Bootstrap\<close>, \<open>Bootstrap_Spec\<close>: \<^verbatim>\<open>runtime_bootstrap.py\<close>. A coroutine is a tree of segments between
    its suspensions; a schedule says when a segment and when a heartbeat runs.
  \<^item> \<open>Lifecycle\<close>, \<open>Lifecycle_Spec\<close>: \<^verbatim>\<open>shutdown_manager.py\<close>, \<^verbatim>\<open>runtime_orchestrator.py\<close>.
  \<^item> \<open>Operator_Queue\<close>, \<open>Control_Plane\<close>: \<^verbatim>\<open>recovery_queue.py\<close>, \<^verbatim>\<open>operator_audit.py\<close>,
    \<^verbatim>\<open>recovery_api.py\<close>, \<^verbatim>\<open>recovery_http.py\<close> and \<^verbatim>\<open>src/api\<close>: the operators' queue and the
    endpoints in front of it, with authentication and roles.
  \<^item> \<open>Agent\<close>, \<open>Agent_Spec\<close>: \<^verbatim>\<open>agent_executor.py\<close>, \<^verbatim>\<open>tool_gateway.py\<close>.
  \<^item> \<open>Orchestration\<close>, \<open>Orchestration_Spec\<close>: \<^verbatim>\<open>src/kernel/scheduler.py\<close>, \<^verbatim>\<open>vnext_orchestrator.py\<close>,
    \<^verbatim>\<open>orchestration_events.py\<close>, \<^verbatim>\<open>orchestrator_replan.py\<close>, \<^verbatim>\<open>reflection_result.py\<close>,
    \<^verbatim>\<open>src/cognition\<close>.
  \<^item> \<open>Status\<close>: \<^verbatim>\<open>status_report.py\<close>, \<^verbatim>\<open>operational_status.py\<close>, \<^verbatim>\<open>startup_validation.py\<close>,
    \<^verbatim>\<open>src/observability\<close>, \<^verbatim>\<open>src/reliability\<close>, \<^verbatim>\<open>src/security\<close>.
  \<^item> \<open>File_Locks\<close>, \<open>Durable_Files\<close> with their \<open>_Spec\<close> theories: the lock classes of all stores, and the way
    they replace their files. \<open>Concurrent_Stores\<close>: the operations of every store as calls under these locks.
  \<^item> \<open>Concurrent_Executors\<close>, \<open>Concurrent_Executors_Spec\<close>: one tool call executed by several processes at once,
    one file operation of one of them at a time, with deaths and returns anywhere.
  \<^item> \<open>Json_Text\<close>, \<open>Audit_Text\<close>: the audit log as the text it is, from \<^verbatim>\<open>json.dumps\<close> and
    \<^verbatim>\<open>splitlines\<close> up.
  \<^item> \<open>Paths\<close>: \<^verbatim>\<open>paths.py\<close>, and which files and locks the default stores of a process share.
  \<^item> \<open>Api\<close>: \<^verbatim>\<open>src/api/app.py\<close> and \<^verbatim>\<open>main.py\<close> as a whole, from the table of routes to what a
    sequence of HTTP calls does. \<^verbatim>\<open>src/start.py\<close> is in \<open>Status\<close>.
\<close>

text \<open>
  \<^bold>\<open>How the code is translated.\<close> A dataclass is a record, a file is a value of its own type
  (\<open>json_file\<close>, or a list of lines), and an operation is a function from its arguments and the files to
  \<open>exc + result\<close> and the new files, also when it raises; every \<^verbatim>\<open>except\<close> clause looks at the class
  of the exception through \<open>isinst\<close>. Every reading of the clock, every fresh UUID and every random token
  is an argument, so a theorem holds for all of them; a clock that is read more than once is a function
  from the number of the reading, and nothing says that it goes forward where no hypothesis does. What
  callers supply (executors, planners, resolvers, tools, memories, subscribers, the web framework's
  request) is a parameter: a function on an arbitrary world. Hashes, ISO texts and JSON texts of the
  standard library are the fields of \<open>host\<close> (JSON texts everywhere but in \<open>Json_Text\<close>).

  \<^bold>\<open>Atomicity.\<close> In most theories a \<^verbatim>\<open>with lock\<close> block is one step, a file is replaced at once, a
  line is appended at once, and a call of the tool executor is not disturbed by others. Four theories
  look closer. \<open>File_Locks_Spec.locked_calls_serialize\<close>: processes that interleave at every file access and
  die anywhere have the effect of the same calls one after the other.
  \<open>Durable_Files_Spec.file_never_torn\<close>: files are replaced whole, down to single file system calls and power
  losses. \<open>Audit_Text.torn_append_ends_log\<close>: appends are not atomic, and what a death inside one does.
  \<open>Concurrent_Executors_Spec.single_flight\<close> and its neighbours: executors of the same call that interleave
  at every file operation. These rest on the documented behaviour of \<^verbatim>\<open>flock\<close>, \<^verbatim>\<open>fsync\<close> and
  \<^verbatim>\<open>rename\<close> on a POSIX system; on a platform without \<^verbatim>\<open>fcntl\<close> the code does not lock at all.

  \<^bold>\<open>What the lemmas show\<close>, by group: invariants of every file under every operation (\<open>store_inv\<close>,
  \<open>lease_inv\<close>, \<open>commits_ok\<close>, \<open>ledger_ok\<close>, \<open>results_ok\<close>, \<open>recon_ok\<close>, \<open>queue_ok\<close>, \<open>audit_ok\<close>); exact
  effects of the operations on the abstract contents of the files (\<open>view\<close>, \<open>lease_of\<close>, \<open>intent_at\<close>,
  \<open>result_at\<close>, \<open>outcome_at\<close>, \<open>open_cases\<close>); fencing and versions (a stale token or version never
  writes again); crash recovery of commits, calls and intents; termination of the loop, of retries and of
  bounded recovery with the number of attempts; single flight of a tool call among processes while claims
  live, and that no rival waits for another; who may see and resolve an operator's case; and behaviours of
  the code that its authors will not have meant, each with a concrete run as its witness.

  \<^bold>\<open>Fuel and bounds.\<close> \<open>Loop.attempts\<close>, \<open>Agent.retry_loop\<close> and \<open>Bounded_Recovery.bounded_attempts\<close> recurse on
  the attempts that are left, which is the exact bound of the code's loop, and not on a fuel of the
  model. \<open>Bootstrap.supervise\<close> recurses on the schedule and is \<open>None\<close> when the schedule ends before the
  coroutine: that coroutine is still running. Python integers are unbounded and modelled by \<open>int\<close>.

  \<^bold>\<open>Not modelled.\<close> Running the web server (\<^verbatim>\<open>start.py\<close> calls uvicorn; its arguments are
  modelled) and the web framework itself, of which \<open>Api\<close> keeps the table of routes and the checks of declared
  models; package files that only re-export names; the fallbacks for missing packages; and the abstract
  classes of \<^verbatim>\<open>cognition/contracts.py\<close>, which have no code. The branches of \<^verbatim>\<open>autonomous_loop.py\<close>
  for a store without a checkpoint are dead: the constructor gives a loop with a store a checkpoint. The
  subscribers of an event run one after the other instead of concurrently; what they raise is dropped as
  in the code. The start of the runtime is not cancelled from outside. Instants and
  delays are whole microseconds; floating-point values are not modelled. Shared locks of audit readers are not
  distinguished from exclusive ones, because readers write nothing.
\<close>

end
